(* ===== verification/Prelude.thy ===== *)
theory Prelude
  imports Main "HOL-Library.Word" "HOL-Library.Multiset" "HOL-Library.AList"
    "HOL-Library.State_Monad"
begin

text \<open>
  Shared vocabulary of the development: the state monad the stateful code is written in,
  a small total-correctness triple for it, the operations on lists that stand for Go's
  slices written by index, and association lists with distinct keys standing for Go's
  maps, whose iteration order is unspecified.
\<close>

named_theorems go_ops
  \<comment> \<open>unfolding equations of the primitive effects, as equations on \<open>run_state\<close>\<close>

named_theorems triple_rules
  \<comment> \<open>introduction rules for triples, one per primitive effect\<close>


section \<open>The state monad\<close>

abbreviation ret :: "'a \<Rightarrow> ('s, 'a) state" where
  "ret \<equiv> State_Monad.return"

text \<open>
  A triple: from every state with \<open>P\<close>, the computation ends in a state and with a result
  that satisfy \<open>Q\<close>. Every computation of the model is total, so this is total
  correctness.
\<close>

definition triple :: "('s \<Rightarrow> bool) \<Rightarrow> ('s, 'a) state \<Rightarrow> ('a \<Rightarrow> 's \<Rightarrow> bool) \<Rightarrow> bool" where
  "triple P m Q \<longleftrightarrow> (\<forall>w. P w \<longrightarrow> (case run_state m w of (r, w') \<Rightarrow> Q r w'))"

lemma tripleI: "(\<And>w r w'. P w \<Longrightarrow> run_state m w = (r, w') \<Longrightarrow> Q r w') \<Longrightarrow> triple P m Q"
  by (auto simp: triple_def split: prod.splits)

lemma tripleD: "triple P m Q \<Longrightarrow> P w \<Longrightarrow> run_state m w = (r, w') \<Longrightarrow> Q r w'"
  by (auto simp: triple_def split: prod.splits)

lemma triple_ret: "triple P (ret x) (\<lambda>r w. r = x \<and> P w)"
  by (auto intro: tripleI)

lemma triple_bind:
  assumes "triple P m R" and "\<And>x. triple (R x) (f x) Q"
  shows "triple P (State_Monad.bind m f) Q"
proof (rule tripleI)
  fix w r w' assume w: "P w" and run: "run_state (State_Monad.bind m f) w = (r, w')"
  obtain x w1 where x: "run_state m w = (x, w1)" by fastforce
  with run have "run_state (f x) w1 = (r, w')" by simp
  moreover have "R x w1" by (rule tripleD [OF assms(1) w x])
  ultimately show "Q r w'" by (intro tripleD [OF assms(2)])
qed

lemma triple_conseq:
  "triple P m Q \<Longrightarrow> (\<And>w. P' w \<Longrightarrow> P w) \<Longrightarrow> (\<And>r w. Q r w \<Longrightarrow> Q' r w) \<Longrightarrow> triple P' m Q'"
  by (fastforce simp: triple_def split: prod.splits)

lemma run_state_fst_snd: "run_state m w = (r, w') \<longleftrightarrow> r = fst (run_state m w) \<and> w' = snd (run_state m w)"
  by auto

text \<open>
  A loop over a list that calls a stateful operation on each element, in order, and
  collects the results, is the library's \<open>traverse_list\<close>; \<open>foreach\<close> is the loop
  that is run for its effect only.
\<close>

lemma traverse_list_inv:
  assumes "\<And>x. x \<in> set xs \<Longrightarrow> triple I (f x) (\<lambda>r w. I w \<and> Q x r)"
  shows "triple I (State_Monad.traverse_list f xs) (\<lambda>rs w. I w \<and> list_all2 Q xs rs)"
  using assms
proof (induction xs)
  case Nil
  then show ?case by (auto intro: tripleI)
next
  case (Cons x xs)
  show ?case
  proof (rule tripleI)
    fix w r w' assume w: "I w" and run: "run_state (State_Monad.traverse_list f (x # xs)) w = (r, w')"
    obtain y w1 where y: "run_state (f x) w = (y, w1)" by fastforce
    obtain ys w2 where ys: "run_state (State_Monad.traverse_list f xs) w1 = (ys, w2)" by fastforce
    have hd: "I w1 \<and> Q x y" using Cons.prems [of x] w y by (auto dest: tripleD)
    have "triple I (State_Monad.traverse_list f xs) (\<lambda>rs w. I w \<and> list_all2 Q xs rs)"
      using Cons.prems by (intro Cons.IH) auto
    then have "I w2 \<and> list_all2 Q xs ys" using hd ys by (auto dest: tripleD)
    with hd run y ys show "I w' \<and> list_all2 Q (x # xs) r" by auto
  qed
qed

lemma length_traverse_list: "length (fst (run_state (State_Monad.traverse_list f xs) w)) = length xs"
  by (induction xs arbitrary: w) (auto split: prod.splits simp: run_state_fst_snd)

fun foreach :: "'a list \<Rightarrow> ('a \<Rightarrow> ('s, unit) state) \<Rightarrow> ('s, unit) state" where
  "foreach [] f = ret ()"
| "foreach (x # xs) f = State_Monad.bind (f x) (\<lambda>_. foreach xs f)"

lemma foreach_inv:
  assumes "\<And>x. x \<in> set xs \<Longrightarrow> triple I (f x) (\<lambda>_. I)"
  shows "triple I (foreach xs f) (\<lambda>_. I)"
  using assms
proof (induction xs)
  case Nil
  then show ?case by (auto intro: tripleI)
next
  case (Cons x xs)
  then show ?case by (auto intro!: triple_bind [where R = "\<lambda>_. I"])
qed


section \<open>Any order: permutations chosen by a number\<close>

text \<open>
  Go leaves the iteration order of a map, and the order in which goroutines run, open.
  The model makes that choice with a number: \<open>permute s xs\<close> is the rearrangement of
  \<open>xs\<close> with index \<open>s\<close>. Every rearrangement has an index (\<open>permute_surj\<close>), so a
  theorem for every \<open>s\<close> holds for every order.
\<close>

fun permute :: "nat \<Rightarrow> 'a list \<Rightarrow> 'a list" where
  "permute s [] = []"
| "permute s (x # xs) =
     (let n = length (x # xs); i = s mod n
      in (x # xs) ! i # permute (s div n) (take i (x # xs) @ drop (Suc i) (x # xs)))"

declare permute.simps(2) [simp del]

lemma mset_remove_nth: "i < length xs \<Longrightarrow> add_mset (xs ! i) (mset (take i xs @ drop (Suc i) xs)) = mset xs"
  by (metis Cons_nth_drop_Suc append_take_drop_id mset.simps(2) mset_append union_mset_add_mset_right)

lemma mset_permute [simp]: "mset (permute s xs) = mset xs"
proof (induction s xs rule: permute.induct)
  case (2 s x xs)
  let ?i = "s mod length (x # xs)"
  have "?i < length (x # xs)" by (intro mod_less_divisor) simp
  then show ?case
    using 2 [OF refl refl] mset_remove_nth [of ?i "x # xs"] by (simp add: permute.simps(2) Let_def)
qed simp

lemma set_permute [simp]: "set (permute s xs) = set xs"
  by (metis mset_permute set_mset_mset)

lemma length_permute [simp]: "length (permute s xs) = length xs"
  by (metis mset_permute size_mset)

lemma permute_Nil_iff [simp]: "permute s xs = [] \<longleftrightarrow> xs = []"
  by (metis length_0_conv length_permute)

lemma distinct_permute [simp]: "distinct (permute s xs) = distinct xs"
  by (metis mset_permute mset_eq_imp_distinct_iff)

lemma permute_surj: "mset ys = mset xs \<Longrightarrow> \<exists>s. permute s xs = ys"
proof (induction ys arbitrary: xs)
  case Nil
  then show ?case by simp
next
  case (Cons y ys)
  then have "y \<in> set xs" by (metis list.set_intros(1) set_mset_mset)
  then obtain i where i: "i < length xs" "xs ! i = y" by (auto simp: in_set_conv_nth)
  let ?rest = "take i xs @ drop (Suc i) xs"
  have "mset ys = mset ?rest" using Cons.prems mset_remove_nth [OF i(1)] i(2) by (metis add_mset_remove_trivial mset.simps(2))
  then obtain s where s: "permute s ?rest = ys" using Cons.IH by blast
  obtain x xs' where xs: "xs = x # xs'" using i(1) by (cases xs) auto
  have "length xs \<noteq> 0" using i(1) by (cases xs) auto
  then have "(i + s * length xs) mod length xs = i" "(i + s * length xs) div length xs = s"
    using i(1) by (simp_all add: div_mult_self1)
  then have "permute (i + s * length xs) xs = y # ys"
    using i s unfolding xs by (simp only: permute.simps(2) Let_def)
  then show ?case by blast
qed


section \<open>Slices written by index\<close>

lemma map_nth_upt [simp]: "map ((!) xs) [0..<length xs] = xs"
  by (rule map_nth)

lemma list_update_Cons_numeral: "(x # xs)[numeral k := y] = x # xs[pred_numeral k := y]"
  by (simp add: numeral_eq_Suc)

text \<open>Writing \<open>f i\<close> at each index of a list, in any order, is mapping over the indexes.\<close>

fun write_each :: "nat list \<Rightarrow> (nat \<Rightarrow> 'a) \<Rightarrow> 'a list \<Rightarrow> 'a list" where
  "write_each [] f xs = xs"
| "write_each (i # is) f xs = write_each is f (xs[i := f i])"

lemma length_write_each [simp]: "length (write_each is f xs) = length xs"
  by (induction "is" arbitrary: xs) auto

lemma write_each_nth:
  "j < length xs \<Longrightarrow> write_each is f xs ! j = (if j \<in> set is then f j else xs ! j)"
  by (induction "is" arbitrary: xs) (auto simp: nth_list_update)

lemma write_each_all:
  "set is = {..<length xs} \<Longrightarrow> write_each is f xs = map f [0..<length xs]"
  by (rule nth_equalityI) (auto simp: write_each_nth)


section \<open>Go maps\<close>

text \<open>
  A Go map is an association list with distinct keys. Lookup, store and delete are the
  library's \<open>map_of\<close>, \<open>AList.update\<close> and \<open>AList.delete\<close>.
\<close>

type_synonym ('k, 'v) gomap = "('k \<times> 'v) list"

definition gomap_ok :: "('k, 'v) gomap \<Rightarrow> bool" where
  "gomap_ok m \<longleftrightarrow> distinct (map fst m)"

lemma gomap_ok_Nil [simp]: "gomap_ok []"
  by (simp add: gomap_ok_def)

lemma gomap_ok_update [simp]: "gomap_ok m \<Longrightarrow> gomap_ok (AList.update k v m)"
  by (simp add: gomap_ok_def distinct_update)

lemma gomap_ok_delete [simp]: "gomap_ok m \<Longrightarrow> gomap_ok (AList.delete k m)"
  by (simp add: gomap_ok_def distinct_delete)

lemma gomap_in_set_iff: "gomap_ok m \<Longrightarrow> (k, v) \<in> set m \<longleftrightarrow> map_of m k = Some v"
  by (simp add: gomap_ok_def)

lemma update_new_key: "map_of m k = None \<Longrightarrow> AList.update k v m = m @ [(k, v)]"
  by (induction m) auto

lemma delete_new_key: "map_of m k = None \<Longrightarrow> AList.delete k m = m"
  by (simp add: map_of_eq_None_iff)

lemma delete_update_new: "map_of m k = None \<Longrightarrow> AList.delete k (AList.update k v m) = m"
  by (simp add: delete_update_same delete_new_key)

lemma snd_set_gomap: "gomap_ok m \<Longrightarrow> v \<in> snd ` set m \<longleftrightarrow> (\<exists>k. map_of m k = Some v)"
  by (force simp: gomap_in_set_iff [symmetric])

end
