(* ===== verification/GoBase.thy ===== *)
theory GoBase
  imports Prelude
begin

text \<open>
  The parts of Go and of its standard library every component uses: bytes and strings,
  decimal and hexadecimal text, error values with wrapping (\<open>errors.Is\<close>), instants and
  durations with the saturating subtraction of package time, and the environment: the
  clock, the entropy source, the choices Go leaves open and the metrics a handler sends.
\<close>


section \<open>Bytes and strings\<close>

text \<open>
  A Go string is a sequence of bytes, here a \<open>string\<close> whose characters are the bytes. A
  byte slice is \<open>None\<close> when it is nil, which Go tells apart from an empty slice.
\<close>

type_synonym byte = "8 word"
type_synonym bytes = "byte list"
type_synonym byte_slice = "byte list option"

definition byte_of_char :: "char \<Rightarrow> byte" where
  "byte_of_char c = word_of_nat (of_char c)"

definition char_of_byte :: "byte \<Rightarrow> char" where
  "char_of_byte b = char_of (unat b)"

definition bytes_of_string :: "string \<Rightarrow> bytes" where
  "bytes_of_string s = map byte_of_char s"

definition string_of_bytes :: "bytes \<Rightarrow> string" where
  "string_of_bytes bs = map char_of_byte bs"

definition slice_bytes :: "byte_slice \<Rightarrow> bytes" where
  "slice_bytes b = (case b of None \<Rightarrow> [] | Some bs \<Rightarrow> bs)"

definition slice_len :: "byte_slice \<Rightarrow> nat" where
  "slice_len b = length (slice_bytes b)"

lemma slice_simps [simp]:
  "slice_bytes None = []" "slice_bytes (Some bs) = bs"
  "slice_len None = 0" "slice_len (Some bs) = length bs"
  by (simp_all add: slice_bytes_def slice_len_def)

lemma of_char_less_256: "(of_char c :: nat) < 256"
  using of_char_mod_256 [of c] by (metis mod_less_divisor zero_less_numeral)

lemma unat_byte_less: "unat (b :: byte) < 256"
  using unsigned_less [of b, where ?'a = nat] by simp

lemma char_of_byte_of_char [simp]: "char_of_byte (byte_of_char c) = c"
  using of_char_less_256 [of c]
  by (simp add: char_of_byte_def byte_of_char_def unat_of_nat)

lemma byte_of_char_of_byte [simp]: "byte_of_char (char_of_byte b) = b"
proof -
  have "unat b < 256" by (rule unat_byte_less)
  then show ?thesis by (simp add: char_of_byte_def byte_of_char_def of_char_of)
qed

lemma string_bytes_inverse [simp]:
  "string_of_bytes (bytes_of_string s) = s" "bytes_of_string (string_of_bytes bs) = bs"
  by (simp_all add: string_of_bytes_def bytes_of_string_def comp_def)

lemma length_string_bytes [simp]:
  "length (bytes_of_string s) = length s" "length (string_of_bytes bs) = length bs"
  by (simp_all add: string_of_bytes_def bytes_of_string_def)


section \<open>Decimal and hexadecimal text\<close>

definition digit_char :: "nat \<Rightarrow> char" where
  "digit_char d = char_of (48 + d)"

fun show_nat :: "nat \<Rightarrow> string" where
  "show_nat n = (if n < 10 then [digit_char n] else show_nat (n div 10) @ [digit_char (n mod 10)])"

declare show_nat.simps [simp del]

definition show_int :: "int \<Rightarrow> string" where
  "show_int i = (if i < 0 then CHR ''-'' # show_nat (nat (- i)) else show_nat (nat i))"

definition is_digit :: "char \<Rightarrow> bool" where
  "is_digit c \<longleftrightarrow> 48 \<le> (of_char c :: nat) \<and> (of_char c :: nat) \<le> 57"

definition digit_val :: "char \<Rightarrow> nat" where
  "digit_val c = of_char c - 48"

definition read_nat :: "string \<Rightarrow> nat" where
  "read_nat s = foldl (\<lambda>n c. 10 * n + digit_val c) 0 s"

lemma digit_char_simps:
  assumes "d < 10"
  shows "is_digit (digit_char d)" and "digit_val (digit_char d) = d"
  using assms by (auto simp: is_digit_def digit_val_def digit_char_def of_char_of)

lemma show_nat_not_Nil [simp]: "show_nat n \<noteq> []"
  by (subst show_nat.simps) simp

lemma show_nat_digits: "list_all is_digit (show_nat n)"
proof (induction n rule: show_nat.induct)
  case (1 n)
  then show ?case by (subst show_nat.simps) (auto simp: digit_char_simps)
qed

lemma read_show_nat [simp]: "read_nat (show_nat n) = n"
proof (induction n rule: show_nat.induct)
  case (1 n)
  then show ?case
    by (subst show_nat.simps) (auto simp: digit_char_simps read_nat_def)
qed

lemma show_nat_inject [simp]: "show_nat m = show_nat n \<longleftrightarrow> m = n"
  by (metis read_show_nat)

definition hex_digit :: "nat \<Rightarrow> char" where
  "hex_digit d = ''0123456789abcdef'' ! d"

text \<open>\<open>hex.EncodeToString\<close>: two lower-case digits for each byte.\<close>

definition hex_encode :: "bytes \<Rightarrow> string" where
  "hex_encode bs = concat (map (\<lambda>b. [hex_digit (unat b div 16), hex_digit (unat b mod 16)]) bs)"

lemma length_hex_encode [simp]: "length (hex_encode bs) = 2 * length bs"
  by (induction bs) (auto simp: hex_encode_def)

lemma hex_digit_set: "d < 16 \<Longrightarrow> hex_digit d \<in> set ''0123456789abcdef''"
  unfolding hex_digit_def by (rule nth_mem) simp

lemma set_hex_encode: "set (hex_encode bs) \<subseteq> set ''0123456789abcdef''"
proof
  fix c assume "c \<in> set (hex_encode bs)"
  then obtain b where "c = hex_digit (unat b div 16) \<or> c = hex_digit (unat (b :: byte) mod 16)"
    by (auto simp: hex_encode_def)
  moreover have "unat b < 256" by (rule unat_byte_less)
  then have "unat b div 16 < 16" "unat b mod 16 < 16" by auto
  ultimately show "c \<in> set ''0123456789abcdef''"
    using hex_digit_set by blast
qed


section \<open>Errors\<close>

text \<open>
  An error is compared with a sentinel by identity, so the sentinels are names of their
  own; \<open>fmt.Errorf\<close> with \<open>%w\<close> makes an error that wraps another. \<open>Opaque\<close> is an
  error made by \<open>errors.New\<close> or \<open>fmt.Errorf\<close> without \<open>%w\<close>, or returned by code
  outside this repository.
\<close>

datatype sentinel =
    ErrNotFound | ErrAlreadyExists
  | ErrQueueUnavailable | ErrJobTooLarge | ErrInvalidJob
  | ErrObjectNotExist

datatype go_error =
    Sentinel sentinel
  | Opaque string
  | Wrap string go_error

fun sentinel_text :: "sentinel \<Rightarrow> string" where
  "sentinel_text ErrNotFound = ''not found''"
| "sentinel_text ErrAlreadyExists = ''already exists''"
| "sentinel_text ErrQueueUnavailable = ''queue backend unavailable''"
| "sentinel_text ErrJobTooLarge = ''job payload exceeds maximum size''"
| "sentinel_text ErrInvalidJob = ''invalid job''"
| "sentinel_text ErrObjectNotExist = ''storage: object doesn't exist''"

text \<open>The method \<open>Error\<close>: the whole formatted text.\<close>

fun error_text :: "go_error \<Rightarrow> string" where
  "error_text (Sentinel s) = sentinel_text s"
| "error_text (Opaque t) = t"
| "error_text (Wrap t _) = t"

text \<open>\<open>errors.Is\<close>: the error or one it wraps is the sentinel.\<close>

fun errors_is :: "go_error \<Rightarrow> sentinel \<Rightarrow> bool" where
  "errors_is (Sentinel s) t = (s = t)"
| "errors_is (Opaque _) t = False"
| "errors_is (Wrap _ e) t = errors_is e t"

text \<open>\<open>fmt.Errorf("%w: ...", s, ...)\<close> and \<open>fmt.Errorf("...: %w", e)\<close>.\<close>

definition wrap_sentinel :: "sentinel \<Rightarrow> string \<Rightarrow> go_error" where
  "wrap_sentinel s t = Wrap (sentinel_text s @ '': '' @ t) (Sentinel s)"

definition wrap_error :: "string \<Rightarrow> go_error \<Rightarrow> go_error" where
  "wrap_error t e = Wrap (t @ '': '' @ error_text e) e"

lemma errors_is_wrap [simp]:
  "errors_is (wrap_sentinel s t) s' \<longleftrightarrow> s = s'"
  "errors_is (wrap_error t e) s' = errors_is e s'"
  by (simp_all add: wrap_sentinel_def wrap_error_def)

text \<open>The status errors of gRPC: a code and a message.\<close>

datatype rpc_code =
  InvalidArgument | NotFound | AlreadyExists | Internal | Unavailable | Unimplemented

datatype rpc_status = RpcStatus (rpc_code: rpc_code) (rpc_message: string)


section \<open>Instants and durations\<close>

text \<open>
  An instant is the number of nanoseconds since the Unix epoch; a duration is a number of
  nanoseconds that fits a signed 64-bit integer. \<open>Time.Sub\<close> saturates.
\<close>

type_synonym instant = int
type_synonym duration = int

definition min_duration :: duration where "min_duration = - (2 ^ 63)"
definition max_duration :: duration where "max_duration = 2 ^ 63 - 1"

definition is_duration :: "int \<Rightarrow> bool" where
  "is_duration d \<longleftrightarrow> min_duration \<le> d \<and> d \<le> max_duration"

definition time_sub :: "instant \<Rightarrow> instant \<Rightarrow> duration" where
  "time_sub t u = max min_duration (min max_duration (t - u))"

definition second :: duration where "second = 1000000000"
definition minute :: duration where "minute = 60 * second"

lemma time_sub_range: "is_duration (time_sub t u)"
  by (auto simp: time_sub_def is_duration_def min_duration_def max_duration_def)

text \<open>Saturation never changes a comparison with a duration that fits.\<close>

lemma time_sub_ge_iff: "is_duration d \<Longrightarrow> min_duration < d \<Longrightarrow> d \<le> time_sub t u \<longleftrightarrow> d \<le> t - u"
  by (auto simp: time_sub_def is_duration_def)


section \<open>The environment\<close>

text \<open>
  What the code reads from outside and what it sends as metrics. The \<open>n\<close>-th reading of
  the clock is \<open>clock n\<close>, whatever it is; \<open>entropy\<close> gives the bytes of \<open>crypto/rand\<close>;
  \<open>choice\<close> resolves, one number for each use, the orders that Go leaves open. The state of
  a component is a record that extends this one.
\<close>

datatype metric =
    Incr string "string list"
  | DistSeconds string duration "string list"
  | DistCount string nat "string list"

record env =
  clock :: "nat \<Rightarrow> instant"
  ticks :: nat
  entropy :: "nat \<Rightarrow> byte"
  entropy_pos :: nat
  choice :: "nat \<Rightarrow> nat"
  choice_pos :: nat
  metrics :: "metric list"

definition time_now :: "('a env_scheme, instant) state" where
  "time_now = State (\<lambda>w. (clock w (ticks w), w\<lparr>ticks := Suc (ticks w)\<rparr>))"

definition rand_read :: "nat \<Rightarrow> ('a env_scheme, bytes) state" where
  "rand_read n = State (\<lambda>w. (map (entropy w) [entropy_pos w..<entropy_pos w + n],
     w\<lparr>entropy_pos := entropy_pos w + n\<rparr>))"

definition any_order :: "'b list \<Rightarrow> ('a env_scheme, 'b list) state" where
  "any_order xs = State (\<lambda>w. (permute (choice w (choice_pos w)) xs, w\<lparr>choice_pos := Suc (choice_pos w)\<rparr>))"

definition emit :: "metric \<Rightarrow> ('a env_scheme, unit) state" where
  "emit m = State (\<lambda>w. ((), w\<lparr>metrics := metrics w @ [m]\<rparr>))"

text \<open>\<open>time.Until(t)\<close> and \<open>time.Since(t)\<close> read the clock.\<close>

definition time_until :: "instant \<Rightarrow> ('a env_scheme, duration) state" where
  "time_until t = do { now \<leftarrow> time_now; ret (time_sub t now) }"

definition time_since :: "instant \<Rightarrow> ('a env_scheme, duration) state" where
  "time_since t = do { now \<leftarrow> time_now; ret (time_sub now t) }"

lemma run_env_ops [simp, go_ops]:
  "run_state time_now w = (clock w (ticks w), w\<lparr>ticks := Suc (ticks w)\<rparr>)"
  "run_state (rand_read n) w = (map (entropy w) [entropy_pos w..<entropy_pos w + n],
     w\<lparr>entropy_pos := entropy_pos w + n\<rparr>)"
  "run_state (any_order xs) w = (permute (choice w (choice_pos w)) xs, w\<lparr>choice_pos := Suc (choice_pos w)\<rparr>)"
  "run_state (emit m) w = ((), w\<lparr>metrics := metrics w @ [m]\<rparr>)"
  "run_state (time_until t) w = (time_sub t (clock w (ticks w)), w\<lparr>ticks := Suc (ticks w)\<rparr>)"
  "run_state (time_since t) w = (time_sub (clock w (ticks w)) t, w\<lparr>ticks := Suc (ticks w)\<rparr>)"
  by (simp_all add: time_now_def rand_read_def any_order_def emit_def time_until_def time_since_def)

end
