(* ===== verification/JobId.thy ===== *)
theory JobId
  imports Hash
begin

text \<open>
  Job identifiers, internal/jobid/jobid.go: the 21-byte payload (version, 48-bit
  millisecond timestamp, hash prefixes of producer and job type, random bytes, checksum)
  and its base62 text, computed by repeated in-place division. The lemmas show that the
  encoding loop ends, that no byte is truncated in the division, and that the text
  determines the bytes.
\<close>


section \<open>Constants\<close>

definition id_prefix :: string where "id_prefix = ''pjob_''"
definition id_version :: byte where "id_version = 1"

definition versionSize :: nat where "versionSize = 1"
definition timestampSize :: nat where "timestampSize = 6"
definition appHashSize :: nat where "appHashSize = 4"
definition jobTypeHashSize :: nat where "jobTypeHashSize = 4"
definition randomSize :: nat where "randomSize = 4"
definition checksumSize :: nat where "checksumSize = 2"

definition payloadSize :: nat where
  "payloadSize = versionSize + timestampSize + appHashSize + jobTypeHashSize + randomSize + checksumSize"

lemma payloadSize_eq: "payloadSize = 21"
  by (simp add: payloadSize_def versionSize_def timestampSize_def appHashSize_def
      jobTypeHashSize_def randomSize_def checksumSize_def)

definition base62Alphabet :: string where
  "base62Alphabet = ''0123456789ABCDEFGHIJKLMNOPQRSTUVWXYZabcdefghijklmnopqrstuvwxyz''"


section \<open>Base62\<close>

text \<open>\<open>isZero\<close>: the scan stops at the first nonzero byte.\<close>

fun isZero :: "bytes \<Rightarrow> bool" where
  "isZero [] = True"
| "isZero (b # data) = (if b \<noteq> 0 then False else isZero data)"

text \<open>
  \<open>divideBy62\<close>: one pass from the most significant byte, writing the quotient over the
  number and carrying the remainder; \<open>byte(val / 62)\<close> truncates to eight bits.
\<close>

fun divide_loop :: "nat \<Rightarrow> bytes \<Rightarrow> bytes \<times> nat" where
  "divide_loop remainder [] = ([], remainder)"
| "divide_loop remainder (b # num) =
     (let val = remainder * 256 + unat b;
          (num', r) = divide_loop (val mod 62) num
      in (word_of_nat (val div 62) # num', r))"

definition divideBy62 :: "bytes \<Rightarrow> bytes \<times> nat" where
  "divideBy62 num = divide_loop 0 num"

text \<open>The number a byte list denotes, most significant byte first.\<close>

fun be_value :: "bytes \<Rightarrow> nat" where
  "be_value [] = 0"
| "be_value (b # bs) = unat b * 256 ^ length bs + be_value bs"

lemma isZero_iff: "isZero bs \<longleftrightarrow> be_value bs = 0"
  by (induction bs) (auto simp: unsigned_eq_0_iff)

lemma be_value_less: "be_value bs < 256 ^ length bs"
proof (induction bs)
  case (Cons b bs)
  have "unat b \<le> 255" using unat_byte_less [of b] by simp
  then have "unat b * 256 ^ length bs \<le> 255 * 256 ^ length bs" by (rule mult_right_mono) simp
  then have "unat b * 256 ^ length bs + be_value bs < 255 * 256 ^ length bs + 256 ^ length bs"
    using Cons by (rule add_le_less_mono)
  then show ?case by simp
qed simp

lemma divide_loop_correct:
  assumes "r < 62"
  shows "length (fst (divide_loop r bs)) = length bs
    \<and> be_value (fst (divide_loop r bs)) * 62 + snd (divide_loop r bs) = r * 256 ^ length bs + be_value bs
    \<and> snd (divide_loop r bs) < 62"
  using assms
proof (induction bs arbitrary: r)
  case Nil
  then show ?case by simp
next
  case (Cons b bs)
  let ?val = "r * 256 + unat b"
  obtain num' r' where d: "divide_loop (?val mod 62) bs = (num', r')" by fastforce
  have IH: "length num' = length bs" "be_value num' * 62 + r' = ?val mod 62 * 256 ^ length bs + be_value bs"
    "r' < 62" using Cons.IH [of "?val mod 62"] d by auto
  have "?val div 62 < 256" using Cons.prems unat_byte_less [of b] by auto
  then have q: "unat (word_of_nat (?val div 62) :: byte) = ?val div 62"
    by (simp add: unat_of_nat)
  have "?val div 62 * 62 * 256 ^ length bs + ?val mod 62 * 256 ^ length bs = ?val * 256 ^ length bs"
    by (metis distrib_right div_mult_mod_eq)
  then have "(?val div 62 * 256 ^ length bs + be_value num') * 62 + r' = ?val * 256 ^ length bs + be_value bs"
    using IH(2) by (simp add: distrib_right ac_simps)
  with IH q d show ?case by (simp add: distrib_right mult.assoc Let_def)
qed

lemma length_divideBy62: "length (fst (divideBy62 num)) = length num"
  and divideBy62_value: "be_value (fst (divideBy62 num)) = be_value num div 62"
  and divideBy62_rem: "snd (divideBy62 num) = be_value num mod 62"
proof -
  have d: "length (fst (divideBy62 num)) = length num"
    "be_value (fst (divideBy62 num)) * 62 + snd (divideBy62 num) = be_value num"
    "snd (divideBy62 num) < 62"
    using divide_loop_correct [of 0 num] by (auto simp: divideBy62_def)
  then show "length (fst (divideBy62 num)) = length num" by simp
  have "be_value num div 62 = be_value (fst (divideBy62 num))" "be_value num mod 62 = snd (divideBy62 num)"
    unfolding d(2) [symmetric] using d(3) by simp_all
  then show "be_value (fst (divideBy62 num)) = be_value num div 62"
    "snd (divideBy62 num) = be_value num mod 62" by auto
qed

text \<open>The loop \<open>for !isZero(num)\<close>: it ends because the number shrinks.\<close>

function encode_loop :: "bytes \<Rightarrow> string \<Rightarrow> string" where
  "encode_loop num result =
     (if isZero num then result
      else (case divideBy62 num of (num', remainder) \<Rightarrow>
              encode_loop num' (result @ [base62Alphabet ! remainder])))"
  by pat_completeness auto
termination
proof (relation "measure (\<lambda>(num, _). be_value num)")
  fix num :: bytes and result :: string and p num' :: bytes and remainder
  assume "\<not> isZero num" and "(num', remainder) = divideBy62 num"
  then have "be_value num' = be_value num div 62" "0 < be_value num"
    using divideBy62_value [of num] by (auto simp: isZero_iff) (metis fst_conv)
  then show "((num', result @ [base62Alphabet ! remainder]), num, result) \<in> measure (\<lambda>(num, _). be_value num)"
    by simp
qed simp

declare encode_loop.simps [simp del]

text \<open>The reversal in place: \<open>i\<close> and \<open>j\<close> move towards each other, swapping.\<close>

function reverse_loop :: "nat \<Rightarrow> nat \<Rightarrow> 'a list \<Rightarrow> 'a list" where
  "reverse_loop i j result =
     (if i < j then reverse_loop (i + 1) (j - 1) (result[i := result ! j, j := result ! i]) else result)"
  by pat_completeness auto
termination
  by (relation "measure (\<lambda>(i, j, result). j - i)") auto

declare reverse_loop.simps [simp del]

text \<open>Leading zero bytes of the input become leading zero digits.\<close>

fun zeros_loop :: "bytes \<Rightarrow> string \<Rightarrow> string" where
  "zeros_loop [] result = result"
| "zeros_loop (b # data) result =
     (if b \<noteq> 0 then result else zeros_loop data (base62Alphabet ! 0 # result))"

definition encodeBase62 :: "bytes \<Rightarrow> string" where
  "encodeBase62 data =
     (if length data = 0 then []
      else let result = encode_loop data [];
               result = reverse_loop 0 (length result - 1) result;
               result = zeros_loop data result
           in if length result = 0 then [base62Alphabet ! 0] else result)"


lemma reverse_loop_nth:
  "j < length xs \<Longrightarrow> k < length xs \<Longrightarrow>
     reverse_loop i j xs ! k = (if i \<le> k \<and> k \<le> j then xs ! (i + j - k) else xs ! k)"
proof (induction i j xs arbitrary: k rule: reverse_loop.induct)
  case (1 i j xs)
  show ?case
  proof (cases "i < j")
    case True
    let ?ys = "xs[i := xs ! j, j := xs ! i]"
    have "reverse_loop i j xs ! k = reverse_loop (i + 1) (j - 1) ?ys ! k"
      using True by (subst reverse_loop.simps) simp
    also have "\<dots> = (if i + 1 \<le> k \<and> k \<le> j - 1 then ?ys ! (i + j - k) else ?ys ! k)"
      using "1.IH" [OF True, of k] "1.prems" True by simp
    also have "\<dots> = (if i \<le> k \<and> k \<le> j then xs ! (i + j - k) else xs ! k)"
      using "1.prems" True by (auto simp: nth_list_update)
    finally show ?thesis .
  next
    case False
    then have "i \<le> k \<Longrightarrow> k \<le> j \<Longrightarrow> i + j - k = k" by simp
    then show ?thesis using False by (subst reverse_loop.simps) simp
  qed
qed

lemma length_reverse_loop [simp]: "length (reverse_loop i j xs) = length xs"
proof (induction i j xs rule: reverse_loop.induct)
  case (1 i j xs)
  then show ?case by (subst reverse_loop.simps) auto
qed

lemma reverse_loop_rev: "reverse_loop 0 (length xs - 1) xs = rev xs"
proof (rule nth_equalityI)
  fix k assume "k < length (reverse_loop 0 (length xs - 1) xs)"
  then have "k < length xs" "k \<le> length xs - 1" "length xs - 1 < length xs" by auto
  then show "reverse_loop 0 (length xs - 1) xs ! k = rev xs ! k"
    by (simp add: reverse_loop_nth rev_nth)
qed simp

text \<open>The digits of a number in base 62, most significant first; none for 0.\<close>

fun digits62 :: "nat \<Rightarrow> string" where
  "digits62 n = (if n = 0 then [] else digits62 (n div 62) @ [base62Alphabet ! (n mod 62)])"

declare digits62.simps [simp del]

lemma digits62_0 [simp]: "digits62 0 = []"
  by (subst digits62.simps) simp

lemma encode_loop_digits: "encode_loop num result = result @ rev (digits62 (be_value num))"
proof (induction num result rule: encode_loop.induct)
  case (1 num result)
  show ?case
  proof (cases "isZero num")
    case True
    then show ?thesis by (subst encode_loop.simps) (simp add: isZero_iff)
  next
    case False
    obtain num' r where d: "divideBy62 num = (num', r)" by fastforce
    then have v: "be_value num' = be_value num div 62" "r = be_value num mod 62"
      using divideBy62_value [of num] divideBy62_rem [of num] by simp_all
    have "encode_loop num result = encode_loop num' (result @ [base62Alphabet ! r])"
      using False d by (subst encode_loop.simps) simp
    also have "\<dots> = result @ base62Alphabet ! r # rev (digits62 (be_value num'))"
      using "1.IH" [OF False d [symmetric]] by simp
    also have "\<dots> = result @ rev (digits62 (be_value num))"
      using False by (subst (2) digits62.simps) (simp add: v isZero_iff)
    finally show ?thesis .
  qed
qed

fun leading_zeros :: "bytes \<Rightarrow> nat" where
  "leading_zeros [] = 0"
| "leading_zeros (b # bs) = (if b = 0 then Suc (leading_zeros bs) else 0)"

lemma zeros_loop_eq: "zeros_loop bs r = replicate (leading_zeros bs) (base62Alphabet ! 0) @ r"
  by (induction bs arbitrary: r) (auto simp: replicate_app_Cons_same)

text \<open>
  The loops compute positional notation: one digit \<open>0\<close> for each leading zero byte, then
  the digits of the number. The last branch of the code is never taken.
\<close>

theorem encodeBase62_eq:
  "encodeBase62 bs = replicate (leading_zeros bs) (base62Alphabet ! 0) @ digits62 (be_value bs)"
proof (cases "bs = []")
  case True
  then show ?thesis by (simp add: encodeBase62_def)
next
  case False
  have "leading_zeros bs \<noteq> 0 \<or> be_value bs \<noteq> 0"
    using False by (cases bs) (auto simp: unsigned_eq_0_iff)
  then have "replicate (leading_zeros bs) (base62Alphabet ! 0) @ digits62 (be_value bs) \<noteq> []"
    by (auto simp: digits62.simps [of "be_value bs"])
  then show ?thesis
    using False
    by (auto simp: encodeBase62_def Let_def encode_loop_digits zeros_loop_eq
        reverse_loop_rev [of "rev (digits62 (be_value bs))", simplified])
qed


text \<open>
  A decoder, which the code does not have (it never reads an identifier back): it shows
  that the text determines the bytes.
\<close>

definition digit62_val :: "char \<Rightarrow> nat" where
  "digit62_val c = length (takeWhile (\<lambda>d. d \<noteq> c) base62Alphabet)"

definition base62_value :: "string \<Rightarrow> nat" where
  "base62_value s = foldl (\<lambda>n c. 62 * n + digit62_val c) 0 s"

fun be_bytes :: "nat \<Rightarrow> bytes" where
  "be_bytes n = (if n = 0 then [] else be_bytes (n div 256) @ [word_of_nat (n mod 256)])"

declare be_bytes.simps [simp del]

definition decodeBase62 :: "string \<Rightarrow> bytes" where
  "decodeBase62 s = (let z = length (takeWhile (\<lambda>c. c = base62Alphabet ! 0) s)
     in replicate z 0 @ be_bytes (base62_value (drop z s)))"

lemma length_alphabet [simp]: "length base62Alphabet = 62"
  by (simp add: base62Alphabet_def)

lemma distinct_alphabet: "distinct base62Alphabet"
  by (simp add: base62Alphabet_def)

lemma takeWhile_nth_distinct:
  "distinct xs \<Longrightarrow> i < length xs \<Longrightarrow> length (takeWhile (\<lambda>d. d \<noteq> xs ! i) xs) = i"
proof (induction xs arbitrary: i)
  case (Cons x xs)
  then show ?case by (cases i) (auto simp: nth_mem)
qed simp

lemma digit62_val_nth [simp]: "d < 62 \<Longrightarrow> digit62_val (base62Alphabet ! d) = d"
  by (simp add: digit62_val_def takeWhile_nth_distinct distinct_alphabet)

lemma base62_value_digits [simp]: "base62_value (digits62 n) = n"
proof (induction n rule: digits62.induct)
  case (1 n)
  then show ?case by (subst digits62.simps) (auto simp: base62_value_def)
qed

lemma alphabet_nth_eq_iff: "i < 62 \<Longrightarrow> j < 62 \<Longrightarrow> base62Alphabet ! i = base62Alphabet ! j \<longleftrightarrow> i = j"
  by (simp add: nth_eq_iff_index_eq distinct_alphabet)

lemma digits62_Nil_iff [simp]: "digits62 n = [] \<longleftrightarrow> n = 0"
  by (subst digits62.simps) simp

lemma hd_digits62: "n \<noteq> 0 \<Longrightarrow> hd (digits62 n) \<noteq> base62Alphabet ! 0"
proof (induction n rule: digits62.induct)
  case (1 n)
  show ?case
  proof (cases "n div 62 = 0")
    case True
    then have "n < 62" by simp
    with "1.prems" True show ?thesis
      by (subst digits62.simps) (simp add: alphabet_nth_eq_iff)
  next
    case False
    with "1.prems" have "hd (digits62 n) = hd (digits62 (n div 62))"
      by (subst digits62.simps) simp
    with "1.IH" "1.prems" False show ?thesis by simp
  qed
qed

lemma set_digits62: "set (digits62 n) \<subseteq> set base62Alphabet"
proof (induction n rule: digits62.induct)
  case (1 n)
  have "base62Alphabet ! (n mod 62) \<in> set base62Alphabet" by (rule nth_mem) simp
  with 1 show ?case by (subst digits62.simps) auto
qed

lemma be_value_snoc: "be_value (bs @ [b]) = be_value bs * 256 + unat b"
  by (induction bs) (auto simp: algebra_simps)

lemma leading_zeros_snoc:
  "leading_zeros (bs @ [b]) = (if isZero bs \<and> b = 0 then Suc (length bs) else leading_zeros bs)"
  by (induction bs) auto

lemma leading_zeros_isZero: "isZero bs \<Longrightarrow> leading_zeros bs = length bs"
  by (induction bs) (auto split: if_splits)

lemma leading_zeros_le: "leading_zeros bs \<le> length bs"
  by (induction bs) auto

lemma be_bytes_be_value: "be_bytes (be_value bs) = drop (leading_zeros bs) bs"
proof (induction bs rule: rev_induct)
  case Nil
  show ?case by (subst be_bytes.simps) simp
next
  case (snoc b bs)
  have b: "unat b < 256" by (rule unat_byte_less)
  show ?case
  proof (cases "be_value (bs @ [b]) = 0")
    case True
    then have "isZero (bs @ [b])" by (simp add: isZero_iff)
    with True show ?thesis by (subst be_bytes.simps) (simp add: leading_zeros_isZero)
  next
    case False
    then have nz: "\<not> (isZero bs \<and> b = 0)" by (auto simp: be_value_snoc isZero_iff)
    have "be_bytes (be_value (bs @ [b])) = be_bytes (be_value bs) @ [b]"
      using False b by (subst be_bytes.simps) (simp add: be_value_snoc)
    with nz snoc show ?thesis by (auto simp: leading_zeros_snoc leading_zeros_le)
  qed
qed

lemma takeWhile_replicate_digits:
  "takeWhile (\<lambda>c. c = base62Alphabet ! 0) (replicate z (base62Alphabet ! 0) @ digits62 n)
     = replicate z (base62Alphabet ! 0)"
proof -
  have "takeWhile (\<lambda>c. c = base62Alphabet ! 0) (digits62 n) = []"
    using hd_digits62 [of n] by (cases "n = 0") (auto simp: takeWhile_eq_Nil_iff)
  then show ?thesis by (simp add: takeWhile_append)
qed

lemma replicate_leading_zeros: "replicate (leading_zeros bs) 0 @ drop (leading_zeros bs) bs = bs"
  by (induction bs) auto

theorem decode_encodeBase62: "decodeBase62 (encodeBase62 bs) = bs"
  by (simp add: decodeBase62_def encodeBase62_eq takeWhile_replicate_digits be_bytes_be_value
      replicate_leading_zeros Let_def)

lemma encodeBase62_inject [simp]: "encodeBase62 xs = encodeBase62 ys \<longleftrightarrow> xs = ys"
  by (metis decode_encodeBase62)

lemma set_encodeBase62: "set (encodeBase62 bs) \<subseteq> set base62Alphabet"
proof -
  have "base62Alphabet ! 0 \<in> set base62Alphabet" by (rule nth_mem) simp
  then show ?thesis using set_digits62 by (auto simp: encodeBase62_eq)
qed

lemma length_digits62: "62 ^ k \<le> n \<Longrightarrow> n < 62 ^ Suc k \<Longrightarrow> length (digits62 n) = Suc k"
proof (induction k arbitrary: n)
  case 0
  then have "n div 62 = 0" "n \<noteq> 0" by auto
  then show ?case by (subst digits62.simps) simp
next
  case (Suc k)
  have "62 ^ k \<le> n div 62" "n div 62 < 62 ^ Suc k"
    using Suc.prems by (auto simp: less_eq_div_iff_mult_less_eq div_less_iff_less_mult mult.commute)
  moreover have "0 < n" using Suc.prems(1) by (metis less_le_trans zero_less_numeral zero_less_power)
  ultimately show ?case using Suc.IH [of "n div 62"] by (subst digits62.simps) simp
qed



section \<open>The identifier\<close>

text \<open>\<open>copy(dst[lo:hi], src)\<close>.\<close>

definition copy_range :: "nat \<Rightarrow> nat \<Rightarrow> 'a list \<Rightarrow> 'a list \<Rightarrow> 'a list" where
  "copy_range lo hi src dst =
     take lo dst @ take (hi - lo) src @ drop (lo + min (hi - lo) (length src)) dst"

definition crc16 :: "bytes \<Rightarrow> 16 word" where
  "crc16 data = (let crc = crc32 data in ucast (crc AND 0xFFFF))"

text \<open>\<open>Time.UnixMilli\<close>.\<close>

definition unix_milli :: "instant \<Rightarrow> 64 word" where
  "unix_milli t = word_of_int (t div 1000000)"

definition job_payload :: "64 word \<Rightarrow> string \<Rightarrow> string \<Rightarrow> bytes \<Rightarrow> bytes" where
  "job_payload now appID jobType random =
     (let payload = replicate payloadSize 0;
          payload = payload[0 := id_version];
          payload = payload[1 := ucast (signed_drop_bit 40 now)];
          payload = payload[2 := ucast (signed_drop_bit 32 now)];
          payload = payload[3 := ucast (signed_drop_bit 24 now)];
          payload = payload[4 := ucast (signed_drop_bit 16 now)];
          payload = payload[5 := ucast (signed_drop_bit 8 now)];
          payload = payload[6 := ucast now];
          appHash = sha256 (bytes_of_string appID);
          payload = copy_range 7 11 (take 4 appHash) payload;
          jobHash = sha256 (bytes_of_string jobType);
          payload = copy_range 11 15 (take 4 jobHash) payload;
          payload = copy_range 15 19 random payload;
          checksum = crc16 (take 19 payload);
          payload = payload[19 := ucast (drop_bit 8 checksum)];
          payload = payload[20 := ucast checksum]
      in payload)"

definition generate :: "string \<Rightarrow> string \<Rightarrow> ('a env_scheme, string) state" where
  "generate appID jobType = do {
     now \<leftarrow> time_now;
     random \<leftarrow> rand_read randomSize;
     ret (id_prefix @ encodeBase62 (job_payload (unix_milli now) appID jobType random)) }"

text \<open>The fields, as the package comment lists them.\<close>

definition timestamp_bytes :: "64 word \<Rightarrow> bytes" where
  "timestamp_bytes now = map (\<lambda>k. ucast (signed_drop_bit k now)) [40, 32, 24, 16, 8, 0]"

definition hash4 :: "string \<Rightarrow> bytes" where
  "hash4 s = take 4 (sha256 (bytes_of_string s))"

definition checksum_bytes :: "bytes \<Rightarrow> bytes" where
  "checksum_bytes bs = [ucast (drop_bit 8 (crc16 bs)), ucast (crc16 bs)]"

lemma length_4_cases:
  assumes "length xs = 4"
  obtains a b c d where "xs = [a, b, c, d]"
proof -
  from assms obtain a xs1 where 1: "xs = a # xs1" by (cases xs) auto
  with assms obtain b xs2 where 2: "xs1 = b # xs2" by (cases xs1) auto
  with 1 assms obtain c xs3 where 3: "xs2 = c # xs3" by (cases xs2) auto
  with 1 2 assms obtain d where 4: "xs3 = [d]" by (cases xs3) auto
  from 1 2 3 4 show thesis by (intro that) simp
qed

lemma length_hash4 [simp]: "length (hash4 s) = 4"
  by (simp add: hash4_def)

lemma job_payload_layout:
  assumes "length random = 4"
  shows "job_payload now appID jobType random =
    (let body = id_version # timestamp_bytes now @ hash4 appID @ hash4 jobType @ random
     in body @ checksum_bytes body)"
proof -
  obtain a1 a2 a3 a4 where a: "hash4 appID = [a1, a2, a3, a4]" by (rule length_4_cases [OF length_hash4])
  obtain j1 j2 j3 j4 where j: "hash4 jobType = [j1, j2, j3, j4]" by (rule length_4_cases [OF length_hash4])
  obtain r1 r2 r3 r4 where r: "random = [r1, r2, r3, r4]" by (rule length_4_cases [OF assms])

  have c1: "copy_range 7 11 [a1,a2,a3,a4] (x0#x1#x2#x3#x4#x5#x6#y7#y8#y9#y10#zs) = x0#x1#x2#x3#x4#x5#x6#a1#a2#a3#a4#zs" for x0 x1 x2 x3 x4 x5 x6 y7 y8 y9 y10 :: byte and zs
    by (simp add: copy_range_def)
  have c2: "copy_range 11 15 [j1,j2,j3,j4] (x0#x1#x2#x3#x4#x5#x6#x7#x8#x9#x10#y1#y2#y3#y4#zs) = x0#x1#x2#x3#x4#x5#x6#x7#x8#x9#x10#j1#j2#j3#j4#zs" for x0 x1 x2 x3 x4 x5 x6 x7 x8 x9 x10 y1 y2 y3 y4 :: byte and zs
    by (simp add: copy_range_def)
  have c3: "copy_range 15 19 [r1,r2,r3,r4] (x0#x1#x2#x3#x4#x5#x6#x7#x8#x9#x10#x11#x12#x13#x14#y1#y2#y3#y4#zs) = x0#x1#x2#x3#x4#x5#x6#x7#x8#x9#x10#x11#x12#x13#x14#r1#r2#r3#r4#zs" for x0 x1 x2 x3 x4 x5 x6 x7 x8 x9 x10 x11 x12 x13 x14 y1 y2 y3 y4 :: byte and zs
    by (simp add: copy_range_def)
  note a' = a [unfolded hash4_def] note j' = j [unfolded hash4_def]
  have z: "replicate payloadSize (0::byte) = [0,0,0,0,0,0,0,0,0,0,0,0,0,0,0,0,0,0,0,0,0]"
    by (simp add: payloadSize_eq eval_nat_numeral)
  let ?body = "[id_version, ucast (signed_drop_bit 40 now), ucast (signed_drop_bit 32 now),
     ucast (signed_drop_bit 24 now), ucast (signed_drop_bit 16 now), ucast (signed_drop_bit 8 now), ucast now,
     a1, a2, a3, a4, j1, j2, j3, j4, r1, r2, r3, r4]"
  have u: "copy_range 15 19 [r1, r2, r3, r4] (copy_range 11 15 [j1, j2, j3, j4] (copy_range 7 11 [a1, a2, a3, a4]
     ((replicate payloadSize 0)[0 := v0, 1 := t1, 2 := t2, 3 := t3, 4 := t4, 5 := t5, 6 := t6])))
     = [v0, t1, t2, t3, t4, t5, t6, a1, a2, a3, a4, j1, j2, j3, j4, r1, r2, r3, r4] @ [0, 0]"
     for v0 t1 t2 t3 t4 t5 t6 :: byte
    by (simp add: z c1 c2 c3 list_update_Cons_numeral)
  have v: "take 19 (b @ [0, 0]) = b" "(b @ [0, 0])[19 := p, 20 := q] = b @ [p, q]"
    if "length b = 19" for b :: bytes and p q
    using that by (simp_all add: list_update_append)
  have l: "length ?body = 19" by simp
  show ?thesis
    unfolding r job_payload_def Let_def a' j' a j u v(1) [OF l] v(2) [OF l]
    by (simp only: timestamp_bytes_def checksum_bytes_def list.map append.simps signed_drop_bit_0 id_apply)
qed

lemma length_timestamp_bytes [simp]: "length (timestamp_bytes now) = 6"
  by (simp add: timestamp_bytes_def)

lemma length_checksum_bytes [simp]: "length (checksum_bytes bs) = 2"
  by (simp add: checksum_bytes_def)

lemma length_job_payload:
  "length random = 4 \<Longrightarrow> length (job_payload now appID jobType random) = 21"
  by (simp add: job_payload_layout Let_def)

lemma be_value_append: "be_value (xs @ ys) = be_value xs * 256 ^ length ys + be_value ys"
  by (induction xs) (auto simp: algebra_simps power_add)

lemma uint_ucast_byte: "uint (ucast w :: byte) = sint (w :: 64 word) mod 256"
proof -
  have "uint (ucast w :: byte) = take_bit 8 (sint w)"
    by (rule bit_eqI) (auto simp: bit_simps)
  then show ?thesis by (simp add: take_bit_eq_mod)
qed

lemma unat_byte_of_word: "unat (ucast (signed_drop_bit k w) :: byte) = nat (sint (w :: 64 word) div 2 ^ k mod 256)"
  by (simp add: unat_eq_nat_uint uint_ucast_byte sint_signed_drop_bit_eq drop_bit_eq_div)

lemma mod_step:
  assumes "0 < m" and "0 < k"
  shows "(n div (256 * m) mod k) * 256 + n div m mod 256 = (n :: int) div m mod (256 * k)"
proof -
  have "n div (256 * m) = n div m div 256"
    by (metis mult.commute zdiv_zmult2_eq zero_le_numeral)
  then show ?thesis using zmod_zmult2_eq [of k "n div m" 256] assms(2) by simp
qed

lemma timestamp_value: "be_value (timestamp_bytes now) = nat (sint now mod 2 ^ 48)"
proof -
  define n where "n = sint now"
  define x where "x k = n div 2 ^ k mod 256" for k
  have b: "int (unat (ucast (signed_drop_bit k now) :: byte)) = x k" for k
    by (simp add: unat_byte_of_word n_def x_def)
  have h2: "x 40 * 256 + x 32 = n div 2 ^ 32 mod 2 ^ 16"
    using mod_step [of "2 ^ 32" 256 n] by (simp add: x_def)
  have h3: "n div 2 ^ 32 mod 2 ^ 16 * 256 + x 24 = n div 2 ^ 24 mod 2 ^ 24"
    using mod_step [of "2 ^ 24" "2 ^ 16" n] by (simp add: x_def)
  have h4: "n div 2 ^ 24 mod 2 ^ 24 * 256 + x 16 = n div 2 ^ 16 mod 2 ^ 32"
    using mod_step [of "2 ^ 16" "2 ^ 24" n] by (simp add: x_def)
  have h5: "n div 2 ^ 16 mod 2 ^ 32 * 256 + x 8 = n div 2 ^ 8 mod 2 ^ 40"
    using mod_step [of "2 ^ 8" "2 ^ 32" n] by (simp add: x_def)
  have h6: "n div 2 ^ 8 mod 2 ^ 40 * 256 + x 0 = n mod 2 ^ 48"
    using mod_step [of "1" "2 ^ 40" n] by (simp add: x_def)
  have "int (be_value (timestamp_bytes now)) =
     x 40 * 256 ^ 5 + (x 32 * 256 ^ 4 + (x 24 * 256 ^ 3 + (x 16 * 256 ^ 2 + (x 8 * 256 ^ 1 + x 0))))"
    unfolding timestamp_bytes_def list.map be_value.simps of_nat_add of_nat_mult of_nat_power b by simp
  also have "\<dots> = ((((x 40 * 256 + x 32) * 256 + x 24) * 256 + x 16) * 256 + x 8) * 256 + x 0"
    by simp
  also have "\<dots> = n mod 2 ^ 48" unfolding h2 h3 h4 h5 h6 ..
  finally show ?thesis unfolding n_def by (metis nat_int)
qed

section \<open>What an identifier says\<close>

lemma run_generate: "run_state (generate appID jobType) w =
    (id_prefix @ encodeBase62 (job_payload (unix_milli (clock w (ticks w))) appID jobType
       (map (entropy w) [entropy_pos w..<entropy_pos w + 4])),
     w\<lparr>ticks := Suc (ticks w), entropy_pos := entropy_pos w + 4\<rparr>)"
  by (simp add: generate_def randomSize_def)

lemma set_generate: "set (fst (run_state (generate appID jobType) w)) \<subseteq> set base62Alphabet \<union> {CHR ''_''}"
proof -
  have "set id_prefix \<subseteq> set base62Alphabet \<union> {CHR ''_''}"
    by (simp add: id_prefix_def base62Alphabet_def)
  then show ?thesis using set_encodeBase62 by (auto simp: run_generate)
qed

lemma six_parts:
  fixes c :: "'a list"
  assumes "length v = 1" "length t = 6" "length a = 4" "length j = 4" "length r = 4"
  shows "take 1 (v @ t @ a @ j @ r @ c) = v"
    and "take 6 (drop 1 (v @ t @ a @ j @ r @ c)) = t"
    and "take 4 (drop 7 (v @ t @ a @ j @ r @ c)) = a"
    and "take 4 (drop 11 (v @ t @ a @ j @ r @ c)) = j"
    and "take 4 (drop 15 (v @ t @ a @ j @ r @ c)) = r"
    and "take 19 (v @ t @ a @ j @ r @ c) = v @ t @ a @ j @ r"
    and "drop 19 (v @ t @ a @ j @ r @ c) = c"
  using assms by simp_all

lemma job_payload_parts:
  "length r = 4 \<Longrightarrow> job_payload now a j r = [id_version] @ timestamp_bytes now @ hash4 a @ hash4 j @ r
     @ checksum_bytes ([id_version] @ timestamp_bytes now @ hash4 a @ hash4 j @ r)"
  by (simp add: job_payload_layout Let_def)

lemma job_payload_fields:
  assumes "length r = 4"
  shows "take 1 (job_payload now a j r) = [id_version]"
    and "take 6 (drop 1 (job_payload now a j r)) = timestamp_bytes now"
    and "take 4 (drop 7 (job_payload now a j r)) = hash4 a"
    and "take 4 (drop 11 (job_payload now a j r)) = hash4 j"
    and "take 4 (drop 15 (job_payload now a j r)) = r"
    and "drop 19 (job_payload now a j r) = checksum_bytes (take 19 (job_payload now a j r))"
proof -
  have v: "length [id_version] = 1" by simp
  note parts = six_parts [OF v length_timestamp_bytes length_hash4 length_hash4 assms]
  show "take 1 (job_payload now a j r) = [id_version]"
    "take 6 (drop 1 (job_payload now a j r)) = timestamp_bytes now"
    "take 4 (drop 7 (job_payload now a j r)) = hash4 a"
    "take 4 (drop 11 (job_payload now a j r)) = hash4 j"
    "take 4 (drop 15 (job_payload now a j r)) = r"
    "drop 19 (job_payload now a j r) = checksum_bytes (take 19 (job_payload now a j r))"
    unfolding job_payload_parts [OF assms] by (simp_all only: parts)
qed

lemma job_payload_eq_iff:
  assumes "length r = 4" and "length r' = 4"
  shows "job_payload now a j r = job_payload now' a' j' r' \<longleftrightarrow>
    timestamp_bytes now = timestamp_bytes now' \<and> hash4 a = hash4 a' \<and> hash4 j = hash4 j' \<and> r = r'"
    (is "?l \<longleftrightarrow> ?r")
proof
  assume ?l
  then show ?r using job_payload_fields [OF assms(1)] job_payload_fields [OF assms(2)] by metis
next
  assume ?r
  then show ?l by (simp add: job_payload_layout assms)
qed

lemma be_value_inject: "length xs = length ys \<Longrightarrow> be_value xs = be_value ys \<Longrightarrow> xs = ys"
proof (induction xs ys rule: list_induct2)
  case (Cons x xs y ys)
  have l: "be_value xs < 256 ^ length xs" "be_value ys < 256 ^ length xs"
    using be_value_less [of xs] be_value_less [of ys] Cons.hyps by simp_all
  have e: "unat x * 256 ^ length xs + be_value xs = unat y * 256 ^ length xs + be_value ys"
    using Cons.prems Cons.hyps by simp
  then have "unat x = unat y"
    using l by (metis div_less div_mult_self3 add.right_neutral power_not_zero zero_neq_numeral)
  with e Cons.IH show ?case by (simp add: word_unat_eq_iff)
qed simp

lemma timestamp_bytes_eq_iff:
  "timestamp_bytes now = timestamp_bytes now' \<longleftrightarrow> sint now mod 2 ^ 48 = sint now' mod 2 ^ 48"
proof -
  have "timestamp_bytes now = timestamp_bytes now' \<longleftrightarrow>
      be_value (timestamp_bytes now) = be_value (timestamp_bytes now')"
    by (metis be_value_inject length_timestamp_bytes)
  also have "\<dots> \<longleftrightarrow> sint now mod 2 ^ 48 = sint now' mod 2 ^ 48"
    by (simp add: timestamp_value eq_nat_nat_iff)
  finally show ?thesis .
qed


lemma be_value_job_payload:
  assumes "length r = 4"
  shows "256 ^ 20 + be_value (timestamp_bytes now) * 256 ^ 14 \<le> be_value (job_payload now a j r)"
    and "be_value (job_payload now a j r) < 256 ^ 20 + (be_value (timestamp_bytes now) + 1) * 256 ^ 14"
proof -
  define rest where "rest = drop 7 (job_payload now a j r)"
  have p: "job_payload now a j r = [id_version] @ timestamp_bytes now @ rest"
    unfolding rest_def job_payload_parts [OF assms] by simp
  have l: "length rest = 14" using length_job_payload [OF assms, of now a j] by (simp add: rest_def)
  have v: "be_value (job_payload now a j r) = 256 ^ 20 + be_value (timestamp_bytes now) * 256 ^ 14 + be_value rest"
    unfolding p by (simp add: be_value_append l id_version_def)
  have "be_value rest < 256 ^ 14" using be_value_less [of rest] l by simp
  with v show "256 ^ 20 + be_value (timestamp_bytes now) * 256 ^ 14 \<le> be_value (job_payload now a j r)"
    "be_value (job_payload now a j r) < 256 ^ 20 + (be_value (timestamp_bytes now) + 1) * 256 ^ 14"
    by (simp_all add: distrib_right)
qed

lemma length_encode_payload:
  assumes "length r = 4" and "nat (sint now mod 2 ^ 48) < 2 ^ 47"
  shows "length (encodeBase62 (job_payload now a j r)) = 27"
proof -
  let ?v = "be_value (job_payload now a j r)"
  have t: "be_value (timestamp_bytes now) + 1 \<le> 2 ^ 47"
    using assms(2) by (simp add: timestamp_value)
  have "62 ^ 26 \<le> (256 :: nat) ^ 20" by simp
  also have "\<dots> \<le> ?v" using be_value_job_payload(1) [OF assms(1), of now a j] by simp
  finally have lo: "62 ^ 26 \<le> ?v" .
  have "?v < 256 ^ 20 + (be_value (timestamp_bytes now) + 1) * 256 ^ 14"
    by (rule be_value_job_payload(2) [OF assms(1)])
  also have "\<dots> \<le> 256 ^ 20 + 2 ^ 47 * 256 ^ 14" using t by (intro add_left_mono mult_right_mono) simp_all
  also have "\<dots> < 62 ^ Suc 26" by simp
  finally have hi: "?v < 62 ^ Suc 26" .
  have z: "leading_zeros (job_payload now a j r) = 0"
    unfolding job_payload_parts [OF assms(1)] by (simp add: id_version_def)
  show ?thesis using length_digits62 [OF lo hi] z by (simp add: encodeBase62_eq)
qed

lemma length_generate:
  assumes "0 \<le> clock w (ticks w)" and "clock w (ticks w) < 2 ^ 47 * 1000000"
  shows "length (fst (run_state (generate a j) w)) = 32"
proof -
  let ?ms = "clock w (ticks w) div 1000000"
  have "0 \<le> ?ms" "?ms < 2 ^ 47" using assms by auto
  then have "sint (unix_milli (clock w (ticks w))) mod 2 ^ 48 = ?ms"
    by (simp add: unix_milli_def signed_of_int signed_take_bit_int_eq_self)
  with \<open>?ms < 2 ^ 47\<close> show ?thesis
    by (simp add: run_generate length_encode_payload id_prefix_def nat_less_iff)
qed

text \<open>Base62 round trip: the text \<open>encodeBase62\<close> prints, leading zero bytes included,
  determines the bytes; no two byte strings have the same text.\<close>

theorem encodeBase62_roundtrip: "decodeBase62 (encodeBase62 data) = data"
  by (rule decode_encodeBase62)

text \<open>C26. The repeated in-place division, the reversal and the zero padding together compute
  positional notation: one digit 0 for each leading zero byte, then the base-62 digits of
  the number the bytes denote.\<close>

theorem encodeBase62_positional:
  "encodeBase62 data = replicate (leading_zeros data) (base62Alphabet ! 0) @ digits62 (be_value data)"
  by (rule encodeBase62_eq)

text \<open>\<open>divideBy62\<close> divides: the bytes it leaves denote the quotient, what it returns is
  the remainder, and the number of bytes is unchanged, so \<open>byte(val / 62)\<close> loses nothing.\<close>

theorem divideBy62_divides:
  "(case divideBy62 num of (num', r) \<Rightarrow>
     be_value num' = be_value num div 62 \<and> r = be_value num mod 62 \<and> length num' = length num)"
  using divideBy62_value [of num] divideBy62_rem [of num] length_divideBy62 [of num]
  by (cases "divideBy62 num") simp

text \<open>C25. When two identifiers collide: exactly when the millisecond timestamps agree modulo
  \<open>2^48\<close>, the first four bytes of the two SHA-256 hashes agree, and so do the random bytes.
  Distinct producers or job types whose hash prefixes agree are not told apart.\<close>

theorem job_id_collision:
  "fst (run_state (generate a j) w) = fst (run_state (generate a' j') w') \<longleftrightarrow>
     sint (unix_milli (clock w (ticks w))) mod 2 ^ 48 = sint (unix_milli (clock w' (ticks w'))) mod 2 ^ 48
     \<and> hash4 a = hash4 a' \<and> hash4 j = hash4 j'
     \<and> map (entropy w) [entropy_pos w..<entropy_pos w + 4]
         = map (entropy w') [entropy_pos w'..<entropy_pos w' + 4]"
  by (simp add: run_generate job_payload_eq_iff timestamp_bytes_eq_iff)

text \<open>C39. Every identifier is the prefix \<open>pjob_\<close> and characters of the base-62 alphabet, and
  is 32 bytes long while the clock is between 1970 and the year 6429: a valid last segment
  of a task name.\<close>

theorem job_id_shape:
  assumes "0 \<le> clock w (ticks w)" and "clock w (ticks w) < 2 ^ 47 * 1000000"
  shows "length (fst (run_state (generate a j) w)) = 32
    \<and> take 5 (fst (run_state (generate a j) w)) = ''pjob_''
    \<and> set (fst (run_state (generate a j) w)) \<subseteq> set base62Alphabet \<union> {CHR ''_''}"
proof -
  have "take 5 (fst (run_state (generate a j) w)) = ''pjob_''"
    by (simp add: run_generate id_prefix_def)
  with length_generate [OF assms] set_generate show ?thesis by blast
qed

definition sample_env :: env where
  "sample_env = \<lparr>clock = (\<lambda>_. 0), ticks = 0, entropy = (\<lambda>_. 0), entropy_pos = 0,
     choice = (\<lambda>_. 0), choice_pos = 0, metrics = []\<rparr>"

lemma job_id_shape_witness: "length (fst (run_state (generate ''prod_1'' ''mail'') sample_env)) = 32"
  using job_id_shape [of sample_env "''prod_1''" "''mail''"] by (simp add: sample_env_def)

text \<open>C38. An identifier can be taken apart for debugging: its text decodes to the 21 bytes of
  the payload, version, millisecond timestamp modulo \<open>2^48\<close>, the two hash prefixes, the
  random bytes and a checksum of the first 19 bytes.\<close>

theorem job_id_decodes:
  "(let p = decodeBase62 (drop 5 (fst (run_state (generate a j) w)))
    in length p = payloadSize \<and> take 1 p = [id_version]
      \<and> be_value (take 6 (drop 1 p)) = nat (sint (unix_milli (clock w (ticks w))) mod 2 ^ 48)
      \<and> take 4 (drop 7 p) = hash4 a \<and> take 4 (drop 11 p) = hash4 j
      \<and> take 4 (drop 15 p) = map (entropy w) [entropy_pos w..<entropy_pos w + 4]
      \<and> drop 19 p = checksum_bytes (take 19 p))"
proof -
  let ?r = "map (entropy w) [entropy_pos w..<entropy_pos w + 4]"
  have r: "length ?r = 4" by simp
  have "decodeBase62 (drop 5 (fst (run_state (generate a j) w))) = job_payload (unix_milli (clock w (ticks w))) a j ?r"
    by (simp add: run_generate id_prefix_def decode_encodeBase62)
  then show ?thesis
    using job_payload_fields [OF r] length_job_payload [OF r] by (simp add: Let_def payloadSize_eq timestamp_value)
qed

end
