(* ===== verification/Loops.thy ===== *)
theory Loops
  imports JobId "HOL-Library.While_Combinator"
begin

text \<open>
  The loop of \<open>encodeBase62\<close> as Go writes it, over its two mutable variables, in internal/jobid/jobid.go:
  it stops for every input, after as many divisions as the number has digits, which it has
  appended in order.
\<close>


section \<open>The loop over its variables\<close>

definition base62_running :: "bytes \<times> string \<Rightarrow> bool" where
  "base62_running st = (\<not> isZero (fst st))"

lemma base62_running_simps: "base62_running (num, result) = (\<not> isZero num)"
  by (simp add: base62_running_def)

definition base62_step :: "bytes \<times> string \<Rightarrow> bytes \<times> string" where
  "base62_step st = (case st of (num, result) \<Rightarrow>
     (case divideBy62 num of (num', remainder) \<Rightarrow> (num', result @ [base62Alphabet ! remainder])))"

lemma base62_step_simps:
  "base62_step (num, result) = (fst (divideBy62 num), result @ [base62Alphabet ! snd (divideBy62 num)])"
  by (simp add: base62_step_def split: prod.split)

lemma base62_steps_value: "be_value (fst ((base62_step ^^ k) st)) = be_value (fst st) div 62 ^ k"
proof (induction k)
  case (Suc k)
  obtain n r where "(base62_step ^^ k) st = (n, r)" by fastforce
  with Suc show ?case by (simp add: base62_step_simps divideBy62_value div_mult2_eq [symmetric] mult.commute)
qed simp

lemma base62_steps_digits:
  "snd ((base62_step ^^ k) (num, [])) = map (\<lambda>i. base62Alphabet ! (be_value num div 62 ^ i mod 62)) [0..<k]"
proof (induction k)
  case (Suc k)
  obtain n r where s: "(base62_step ^^ k) (num, []) = (n, r)" by fastforce
  with base62_steps_value [of k "(num, [])"] have "be_value n = be_value num div 62 ^ k" by simp
  with Suc s show ?case by (simp add: base62_step_simps divideBy62_rem)
qed simp

lemma base62_steps_length: "length (fst ((base62_step ^^ k) st)) = length (fst st)"
proof (induction k)
  case (Suc k)
  obtain n r where "(base62_step ^^ k) st = (n, r)" by fastforce
  with Suc show ?case by (simp add: base62_step_simps length_divideBy62)
qed simp

lemma isZero_replicate: "isZero bs \<Longrightarrow> bs = replicate (length bs) 0"
  by (induction bs) (auto split: if_splits)

text \<open>A loop that is over after \<open>m\<close> rounds stops within \<open>m\<close> rounds, at the first world where it is over.\<close>

lemma while_option_within:
  assumes "\<not> b ((c ^^ m) s)"
  shows "\<exists>k \<le> m. while_option b c s = Some ((c ^^ k) s) \<and> \<not> b ((c ^^ k) s) \<and> (\<forall>i < k. b ((c ^^ i) s))"
proof -
  let ?k = "LEAST k. \<not> b ((c ^^ k) s)"
  have "?k \<le> m" by (rule Least_le) (rule assms)
  moreover have "\<not> b ((c ^^ ?k) s)" by (rule LeastI) (rule assms)
  moreover have "\<forall>i < ?k. b ((c ^^ i) s)" using not_less_Least by blast
  ultimately show ?thesis unfolding while_option_def using assms by auto
qed

lemma be_value_less_62: "be_value bs < 62 ^ (2 * length bs)"
proof -
  have "(256 :: nat) ^ length bs \<le> 3844 ^ length bs" by (rule power_mono) simp_all
  also have "\<dots> = 62 ^ (2 * length bs)" by (simp add: power_mult)
  finally show ?thesis using be_value_less [of bs] by simp
qed


section \<open>Properties\<close>

text \<open>
  C27. The loop of \<open>encodeBase62\<close> always stops, after as many divisions as the number has digits
  in base 62, at most two for each byte. The bytes it divides in place are all zero then,
  and what it has appended are the digits of the number, the least significant first.
\<close>

theorem base62_loop_terminates:
  "\<exists>k \<le> 2 * length num. be_value num < 62 ^ k \<and> (k = 0 \<or> 62 ^ (k - 1) \<le> be_value num)
     \<and> while_option base62_running base62_step (num, [])
       = Some (replicate (length num) 0, map (\<lambda>i. base62Alphabet ! (be_value num div 62 ^ i mod 62)) [0..<k])"
proof -
  let ?st = "(num, []) :: bytes \<times> string"
  have "\<not> base62_running ((base62_step ^^ (2 * length num)) ?st)"
    using base62_steps_value [of "2 * length num" ?st] be_value_less_62 [of num] by (simp add: base62_running_def isZero_iff)
  from while_option_within [of base62_running, OF this] obtain k where
    k: "k \<le> 2 * length num" "while_option base62_running base62_step ?st = Some ((base62_step ^^ k) ?st)"
    and stop: "\<not> base62_running ((base62_step ^^ k) ?st)" and run: "\<forall>i < k. base62_running ((base62_step ^^ i) ?st)" by blast
  obtain num' r where s: "(base62_step ^^ k) ?st = (num', r)" by fastforce
  have zero: "isZero num'" and len: "length num' = length num"
    using stop base62_steps_length [of k ?st] by (simp_all add: s base62_running_simps)
  have "r = map (\<lambda>i. base62Alphabet ! (be_value num div 62 ^ i mod 62)) [0..<k]"
    using base62_steps_digits [of k num] by (simp add: s)
  moreover have "num' = replicate (length num) 0" using isZero_replicate [OF zero] len by simp
  moreover have "be_value num div 62 ^ k = 0"
    using base62_steps_value [of k ?st] zero by (simp add: s isZero_iff)
  then have "be_value num < 62 ^ k" by (simp add: div_eq_0_iff)
  moreover have "62 ^ (k - 1) \<le> be_value num" if "k \<noteq> 0"
  proof -
    have "be_value num div 62 ^ (k - 1) \<noteq> 0"
      using run [rule_format, of "k - 1"] that base62_steps_value [of "k - 1" ?st] by (simp add: base62_running_def isZero_iff)
    then show ?thesis by (simp add: div_eq_0_iff)
  qed
  ultimately show ?thesis using k s by (intro exI [of _ k]) auto
qed

end
