(* ===== verification/Messages.thy ===== *)
theory Messages
  imports GoBase
begin

text \<open>
  The protocol messages of proto/jackpb (generated from proto/*.proto) as records. A
  proto3 enum is open: \<open>Queue\<close> is any 32-bit integer, five of which have names. The
  well-known type Timestamp and its conversions are library code outside this repository:
  a timestamp is its two fields, and the conversions are operations of a parameter.
\<close>


section \<open>Timestamps\<close>

type_synonym int32 = "32 word"

record timestamp =
  ts_seconds :: "64 word"
  ts_nanos :: int32

text \<open>\<open>timestamppb.New\<close> and \<open>Timestamp.AsTime\<close>.\<close>

record timestamppb =
  ts_new :: "instant \<Rightarrow> timestamp"
  as_time :: "timestamp \<Rightarrow> instant"


section \<open>storage.proto\<close>

type_synonym queue_enum = int32

definition Queue_QUEUE_UNSPECIFIED :: queue_enum where "Queue_QUEUE_UNSPECIFIED = 0"
definition Queue_QUEUE_IMMEDIATE :: queue_enum where "Queue_QUEUE_IMMEDIATE = 1"
definition Queue_QUEUE_HIGH :: queue_enum where "Queue_QUEUE_HIGH = 2"
definition Queue_QUEUE_MEDIUM :: queue_enum where "Queue_QUEUE_MEDIUM = 3"
definition Queue_QUEUE_LOW :: queue_enum where "Queue_QUEUE_LOW = 4"

lemmas queue_enum_defs =
  Queue_QUEUE_UNSPECIFIED_def Queue_QUEUE_IMMEDIATE_def Queue_QUEUE_HIGH_def
  Queue_QUEUE_MEDIUM_def Queue_QUEUE_LOW_def

record producer =
  producer_ProducerId :: string
  producer_Name :: string
  producer_Description :: string
  producer_RateLimitRps :: int32
  producer_CreatedAt :: "timestamp option"
  producer_UpdatedAt :: "timestamp option"

record job_type =
  job_type_ProducerId :: string
  job_type_Name :: string
  job_type_Queue :: queue_enum
  job_type_MaxRetries :: int32
  job_type_Description :: string
  job_type_CreatedAt :: "timestamp option"
  job_type_UpdatedAt :: "timestamp option"

record producers_file = producers_file_Producers :: "producer list"
record job_types_file = job_types_file_JobTypes :: "job_type list"


section \<open>jack.proto\<close>

record enqueue_request =
  enqueue_request_ProducerId :: string
  enqueue_request_JobType :: string
  enqueue_request_Payload :: byte_slice
  enqueue_request_RunAt :: "timestamp option"
  enqueue_request_TraceId :: string
  enqueue_request_CorrelationId :: string

record enqueue_response =
  enqueue_response_JobId :: string
  enqueue_response_ErrorMessages :: "string list"
  enqueue_response_CorrelationId :: string

record enqueue_bulk_request = enqueue_bulk_request_Jobs :: "enqueue_request list"

record bulk_result =
  bulk_result_Index :: int32
  bulk_result_JobId :: string
  bulk_result_Error :: string
  bulk_result_ErrorMessages :: "string list"
  bulk_result_CorrelationId :: string
  bulk_result_Reason :: string

record enqueue_bulk_response = enqueue_bulk_response_Results :: "bulk_result list"


section \<open>admin.proto\<close>

record create_producer_request =
  create_producer_request_Name :: string
  create_producer_request_Description :: string

record create_producer_response = create_producer_response_Producer :: producer

record get_producer_request = get_producer_request_ProducerId :: string

record get_producer_response = get_producer_response_Producer :: producer

record list_producers_response = list_producers_response_Producers :: "producer list"

record create_job_type_request =
  create_job_type_request_ProducerId :: string
  create_job_type_request_Name :: string
  create_job_type_request_Queue :: queue_enum
  create_job_type_request_MaxRetries :: int32
  create_job_type_request_Description :: string

record create_job_type_response = create_job_type_response_JobType :: job_type

record list_job_types_request = list_job_types_request_ProducerId :: string

record list_job_types_response = list_job_types_response_JobTypes :: "job_type list"

end
