(* ===== verification/Storage.thy ===== *)
theory Storage
  imports Messages
begin

text \<open>
  The interface \<open>Store\<close> of internal/storage/storage.go and its contract. A store is a
  record of operations on the world; the contract is a locale, stated over the two maps a
  store holds and an invariant of the world, from which the handlers' lemmas follow.
\<close>


section \<open>Keys\<close>

definition jobTypeKey :: "string \<Rightarrow> string \<Rightarrow> string" where
  "jobTypeKey producerID jobTypeName = producerID @ '':'' @ jobTypeName"

definition colon_free :: "string \<Rightarrow> bool" where
  "colon_free s \<longleftrightarrow> CHR '':'' \<notin> set s"

lemma split_at_colon:
  "colon_free p \<Longrightarrow> colon_free q \<Longrightarrow> p @ CHR '':'' # a = q @ CHR '':'' # b \<Longrightarrow> p = q \<and> a = b"
proof (induction p arbitrary: q)
  case Nil
  then show ?case by (cases q) (auto simp: colon_free_def)
next
  case (Cons c p)
  then show ?case by (cases q) (auto simp: colon_free_def)
qed

text \<open>
  Keys of job types are unambiguous for producers whose id has no colon, as the ids the
  service generates: equal keys come from the same producer and the same name.
\<close>

lemma jobTypeKey_injective:
  assumes "colon_free p" and "colon_free q"
  shows "jobTypeKey p a = jobTypeKey q b \<longleftrightarrow> p = q \<and> a = b"
  using split_at_colon [OF assms, of a b] by (auto simp: jobTypeKey_def)

lemma jobTypeKey_injective_witness:
  "jobTypeKey ''prod_1'' ''a:b'' = jobTypeKey ''prod_2'' ''a:b'' \<longleftrightarrow> ''prod_1'' = ''prod_2'' \<and> ''a:b'' = ''a:b''"
  by (rule jobTypeKey_injective) (simp_all add: colon_free_def)


section \<open>The interface\<close>

text \<open>
  \<open>CreateProducer\<close> and \<open>CreateJobType\<close> write the timestamps through the caller's pointer:
  they return the message as the caller sees it after the call, and the error.
\<close>

record 'w store =
  store_CreateProducer :: "producer \<Rightarrow> ('w, producer \<times> go_error option) state"
  store_GetProducer :: "string \<Rightarrow> ('w, go_error + producer) state"
  store_ListProducers :: "('w, go_error + producer list) state"
  store_CreateJobType :: "job_type \<Rightarrow> ('w, job_type \<times> go_error option) state"
  store_GetJobType :: "string \<Rightarrow> string \<Rightarrow> ('w, go_error + job_type) state"
  store_ListJobTypes :: "string \<Rightarrow> ('w, go_error + job_type list) state"
  store_Close :: "('w, go_error option) state"

definition stamped_producer :: "producer \<Rightarrow> timestamp \<Rightarrow> producer" where
  "stamped_producer p t = p\<lparr>producer_CreatedAt := Some t, producer_UpdatedAt := Some t\<rparr>"

definition stamped_job_type :: "job_type \<Rightarrow> timestamp \<Rightarrow> job_type" where
  "stamped_job_type j t = j\<lparr>job_type_CreatedAt := Some t, job_type_UpdatedAt := Some t\<rparr>"

definition job_type_key :: "job_type \<Rightarrow> string" where
  "job_type_key j = jobTypeKey (job_type_ProducerId j) (job_type_Name j)"

lemma stamped_simps [simp]:
  "producer_ProducerId (stamped_producer p t) = producer_ProducerId p"
  "producer_Name (stamped_producer p t) = producer_Name p"
  "producer_Description (stamped_producer p t) = producer_Description p"
  "producer_RateLimitRps (stamped_producer p t) = producer_RateLimitRps p"
  "job_type_ProducerId (stamped_job_type j t) = job_type_ProducerId j"
  "job_type_Name (stamped_job_type j t) = job_type_Name j"
  "job_type_Queue (stamped_job_type j t) = job_type_Queue j"
  "job_type_MaxRetries (stamped_job_type j t) = job_type_MaxRetries j"
  "job_type_key (stamped_job_type j t) = job_type_key j"
  by (simp_all add: stamped_producer_def stamped_job_type_def job_type_key_def)


section \<open>The contract\<close>

text \<open>
  \<open>I\<close> is an invariant of the world, \<open>prods\<close> and \<open>types\<close> read the two maps off it. A
  creation either adds its message, stamped, under a key that was free, or fails and
  leaves both maps alone; a taken key is reported as \<open>ErrAlreadyExists\<close> and a missing
  producer as \<open>ErrNotFound\<close>. Reading changes neither map.
\<close>

locale store_contract =
  fixes S :: "'w store"
    and I :: "'w \<Rightarrow> bool"
    and prods :: "'w \<Rightarrow> string \<rightharpoonup> producer"
    and types :: "'w \<Rightarrow> string \<rightharpoonup> job_type"
  assumes create_producer: "I w \<Longrightarrow> run_state (store_CreateProducer S p) w = ((p', e), w') \<Longrightarrow>
      I w' \<and> types w' = types w \<and>
      (case e of
         None \<Rightarrow> prods w (producer_ProducerId p) = None \<and> (\<exists>t. p' = stamped_producer p t)
           \<and> prods w' = (prods w)(producer_ProducerId p \<mapsto> p')
       | Some e \<Rightarrow> prods w' = prods w \<and> \<not> errors_is e ErrNotFound
           \<and> (errors_is e ErrAlreadyExists \<longleftrightarrow> prods w (producer_ProducerId p) \<noteq> None))"
    and get_producer: "I w \<Longrightarrow> run_state (store_GetProducer S i) w = (r, w') \<Longrightarrow>
      I w' \<and> prods w' = prods w \<and> types w' = types w \<and>
      (case prods w i of Some p \<Rightarrow> r = Inr p | None \<Rightarrow> (\<exists>e. r = Inl e \<and> errors_is e ErrNotFound))"
    and list_producers: "I w \<Longrightarrow> run_state (store_ListProducers S) w = (rs, w') \<Longrightarrow>
      I w' \<and> prods w' = prods w \<and> types w' = types w \<and>
      (\<exists>ps. rs = Inr ps \<and> set ps = ran (prods w) \<and> distinct (map producer_ProducerId ps))"
    and create_job_type: "I w \<Longrightarrow> run_state (store_CreateJobType S j) w = ((j', e), w') \<Longrightarrow>
      I w' \<and> prods w' = prods w \<and>
      (case e of
         None \<Rightarrow> prods w (job_type_ProducerId j) \<noteq> None \<and> types w (job_type_key j) = None
           \<and> (\<exists>t. j' = stamped_job_type j t) \<and> types w' = (types w)(job_type_key j \<mapsto> j')
       | Some e \<Rightarrow> types w' = types w
           \<and> (errors_is e ErrNotFound \<longleftrightarrow> prods w (job_type_ProducerId j) = None)
           \<and> (errors_is e ErrAlreadyExists \<longleftrightarrow>
                prods w (job_type_ProducerId j) \<noteq> None \<and> types w (job_type_key j) \<noteq> None))"
    and get_job_type: "I w \<Longrightarrow> run_state (store_GetJobType S i n) w = (rj, w') \<Longrightarrow>
      I w' \<and> prods w' = prods w \<and> types w' = types w \<and>
      (case types w (jobTypeKey i n) of Some j \<Rightarrow> rj = Inr j
       | None \<Rightarrow> (\<exists>e. rj = Inl e \<and> errors_is e ErrNotFound))"
    and list_job_types: "I w \<Longrightarrow> run_state (store_ListJobTypes S i) w = (rjs, w') \<Longrightarrow>
      I w' \<and> prods w' = prods w \<and> types w' = types w \<and>
      (\<exists>js. rjs = Inr js \<and> set js = {j \<in> ran (types w). job_type_ProducerId j = i} \<and> distinct (map job_type_key js))"
    and prods_keyed: "I w \<Longrightarrow> prods w i = Some p \<Longrightarrow> producer_ProducerId p = i"
    and types_keyed: "I w \<Longrightarrow> types w k = Some j \<Longrightarrow> job_type_key j = k"
    and types_owned: "I w \<Longrightarrow> types w k = Some j \<Longrightarrow> prods w (job_type_ProducerId j) \<noteq> None"

section \<open>Histories\<close>

text \<open>
  A history is a list of calls, executed one after the other as the mutex of a store
  orders them; its outcome is the list of the calls' results.
\<close>

datatype store_op =
    OpCreateProducer producer
  | OpGetProducer string
  | OpListProducers
  | OpCreateJobType job_type
  | OpGetJobType string string
  | OpListJobTypes string

datatype store_result =
    RCreateProducer producer "go_error option"
  | RGetProducer "go_error + producer"
  | RListProducers "go_error + producer list"
  | RCreateJobType job_type "go_error option"
  | RGetJobType "go_error + job_type"
  | RListJobTypes "go_error + job_type list"

fun exec_op :: "'w store \<Rightarrow> store_op \<Rightarrow> ('w, store_result) state" where
  "exec_op S (OpCreateProducer p) = do { (p', e) \<leftarrow> store_CreateProducer S p; ret (RCreateProducer p' e) }"
| "exec_op S (OpGetProducer i) = do { r \<leftarrow> store_GetProducer S i; ret (RGetProducer r) }"
| "exec_op S OpListProducers = do { r \<leftarrow> store_ListProducers S; ret (RListProducers r) }"
| "exec_op S (OpCreateJobType j) = do { (j', e) \<leftarrow> store_CreateJobType S j; ret (RCreateJobType j' e) }"
| "exec_op S (OpGetJobType i n) = do { r \<leftarrow> store_GetJobType S i n; ret (RGetJobType r) }"
| "exec_op S (OpListJobTypes i) = do { r \<leftarrow> store_ListJobTypes S i; ret (RListJobTypes r) }"

definition exec_ops :: "'w store \<Rightarrow> store_op list \<Rightarrow> ('w, store_result list) state" where
  "exec_ops S ops = State_Monad.traverse_list (exec_op S) ops"

context store_contract begin

text \<open>Every call keeps the invariant and every entry either map has: nothing is deleted or changed.\<close>

definition extends :: "'w \<Rightarrow> 'w \<Rightarrow> bool" where
  "extends w w' \<longleftrightarrow> prods w \<subseteq>\<^sub>m prods w' \<and> types w \<subseteq>\<^sub>m types w'"

lemma extends_refl [simp]: "extends w w"
  by (simp add: extends_def)

lemma extends_trans: "extends u v \<Longrightarrow> extends v w \<Longrightarrow> extends u w"
  unfolding extends_def by (blast intro: map_le_trans)

lemma extends_same: "prods w' = prods w \<Longrightarrow> types w' = types w \<Longrightarrow> extends w w'"
  by (simp add: extends_def)

lemma map_le_add_new: "m k = None \<Longrightarrow> m \<subseteq>\<^sub>m m(k \<mapsto> v)"
  by (auto simp: map_le_def)

lemma exec_op_extends: "triple (\<lambda>w. I w \<and> extends w0 w) (exec_op S op) (\<lambda>_ w. I w \<and> extends w0 w)"
proof (rule tripleI)
  fix w r w' assume w: "I w \<and> extends w0 w" and run: "run_state (exec_op S op) w = (r, w')"
  have "I w' \<and> extends w w'"
  proof (cases op)
    case (OpCreateProducer p)
    with run obtain p' e where c: "run_state (store_CreateProducer S p) w = ((p', e), w')"
      by (auto split: prod.splits)
    from create_producer [OF _ c] w show ?thesis
      by (cases e) (auto simp: extends_def intro: map_le_add_new)
  next
    case (OpCreateJobType j)
    with run obtain j' e where c: "run_state (store_CreateJobType S j) w = ((j', e), w')"
      by (auto split: prod.splits)
    from create_job_type [OF _ c] w show ?thesis
      by (cases e) (auto simp: extends_def intro: map_le_add_new)
  next
    case (OpGetProducer i)
    with run obtain x where "run_state (store_GetProducer S i) w = (x, w')" by (auto split: prod.splits)
    from get_producer [OF _ this] w show ?thesis by (blast intro: extends_same)
  next
    case OpListProducers
    with run obtain x where "run_state (store_ListProducers S) w = (x, w')" by (auto split: prod.splits)
    from list_producers [OF _ this] w show ?thesis by (blast intro: extends_same)
  next
    case (OpGetJobType i n)
    with run obtain x where "run_state (store_GetJobType S i n) w = (x, w')" by (auto split: prod.splits)
    from get_job_type [OF _ this] w show ?thesis by (blast intro: extends_same)
  next
    case (OpListJobTypes i)
    with run obtain x where "run_state (store_ListJobTypes S i) w = (x, w')" by (auto split: prod.splits)
    from list_job_types [OF _ this] w show ?thesis by (blast intro: extends_same)
  qed
  with w show "I w' \<and> extends w0 w'" by (blast intro: extends_trans)
qed

lemma exec_ops_extends:
  assumes "I w" and "run_state (exec_ops S ops) w = (rs, w')"
  shows "I w' \<and> prods w \<subseteq>\<^sub>m prods w' \<and> types w \<subseteq>\<^sub>m types w'"
proof -
  have "triple (\<lambda>w'. I w' \<and> extends w w') (exec_ops S ops)
      (\<lambda>rs w'. (I w' \<and> extends w w') \<and> list_all2 (\<lambda>_ _. True) ops rs)"
    unfolding exec_ops_def
    by (rule traverse_list_inv) (rule triple_conseq [OF exec_op_extends], auto)
  from tripleD [OF this _ assms(2)] assms(1) show ?thesis by (simp add: extends_def)
qed

end

end
