(* ===== verification/MemoryStore.thy ===== *)
theory MemoryStore
  imports Storage
begin

text \<open>
  The in-memory store of internal/storage/memory.go: two maps behind a mutex, each
  operation one atomic step on them. Every message is cloned on its way in and out, so
  the maps share nothing with the callers and are maps of values.
\<close>

record store_world = env +
  producers :: "(string, producer) gomap"
  jobTypes :: "(string, job_type) gomap"

definition set_producers :: "(string, producer) gomap \<Rightarrow> ('a store_world_scheme, unit) state" where
  "set_producers m = State (\<lambda>w. ((), w\<lparr>producers := m\<rparr>))"

definition set_jobTypes :: "(string, job_type) gomap \<Rightarrow> ('a store_world_scheme, unit) state" where
  "set_jobTypes m = State (\<lambda>w. ((), w\<lparr>jobTypes := m\<rparr>))"

definition read_world :: "('w \<Rightarrow> 'b) \<Rightarrow> ('w, 'b) state" where
  "read_world f = State (\<lambda>w. (f w, w))"

lemma run_store_ops [simp, go_ops]:
  "run_state (set_producers m) w = ((), w\<lparr>producers := m\<rparr>)"
  "run_state (set_jobTypes n) w = ((), w\<lparr>jobTypes := n\<rparr>)"
  "run_state (read_world f) w' = (f w', w')"
  by (simp_all add: set_producers_def set_jobTypes_def read_world_def)


section \<open>Operations\<close>

definition NewMemoryStore :: "('a store_world_scheme, unit) state" where
  "NewMemoryStore = do { set_producers []; set_jobTypes [] }"

definition timestamp_now :: "timestamppb \<Rightarrow> ('a env_scheme, timestamp) state" where
  "timestamp_now pb = do { t \<leftarrow> time_now; ret (ts_new pb t) }"

definition already_exists_producer :: "string \<Rightarrow> go_error" where
  "already_exists_producer i = wrap_sentinel ErrAlreadyExists (''producer with ID '' @ i)"

definition not_found_producer :: "string \<Rightarrow> go_error" where
  "not_found_producer i = wrap_sentinel ErrNotFound (''producer '' @ i)"

definition already_exists_job_type :: "string \<Rightarrow> string \<Rightarrow> go_error" where
  "already_exists_job_type n i = wrap_sentinel ErrAlreadyExists (''job type '' @ n @ '' for producer '' @ i)"

definition not_found_job_type :: "string \<Rightarrow> string \<Rightarrow> go_error" where
  "not_found_job_type n i = wrap_sentinel ErrNotFound (''job type '' @ n @ '' for producer '' @ i)"

lemma errors_is_store [simp]:
  "errors_is (already_exists_producer i) s \<longleftrightarrow> s = ErrAlreadyExists"
  "errors_is (not_found_producer i) s \<longleftrightarrow> s = ErrNotFound"
  "errors_is (already_exists_job_type n i) s \<longleftrightarrow> s = ErrAlreadyExists"
  "errors_is (not_found_job_type n i) s \<longleftrightarrow> s = ErrNotFound"
  by (auto simp: already_exists_producer_def not_found_producer_def already_exists_job_type_def not_found_job_type_def)

definition MemoryStore_CreateProducer :: "timestamppb \<Rightarrow> producer \<Rightarrow> ('a store_world_scheme, producer \<times> go_error option) state" where
  "MemoryStore_CreateProducer pb p = do {
     m \<leftarrow> read_world producers;
     if map_of m (producer_ProducerId p) \<noteq> None
     then ret (p, Some (already_exists_producer (producer_ProducerId p)))
     else do {
       now \<leftarrow> timestamp_now pb;
       let p' = p\<lparr>producer_CreatedAt := Some now, producer_UpdatedAt := Some now\<rparr>;
       set_producers (AList.update (producer_ProducerId p) p' m);
       ret (p', None) } }"

definition MemoryStore_GetProducer :: "string \<Rightarrow> ('a store_world_scheme, go_error + producer) state" where
  "MemoryStore_GetProducer producerID = do {
     m \<leftarrow> read_world producers;
     case map_of m producerID of
       None \<Rightarrow> ret (Inl (not_found_producer producerID))
     | Some p \<Rightarrow> ret (Inr p) }"

definition MemoryStore_ListProducers :: "('a store_world_scheme, go_error + producer list) state" where
  "MemoryStore_ListProducers = do {
     m \<leftarrow> read_world producers;
     entries \<leftarrow> any_order m;
     ret (Inr (map snd entries)) }"

definition MemoryStore_CreateJobType :: "timestamppb \<Rightarrow> job_type \<Rightarrow> ('a store_world_scheme, job_type \<times> go_error option) state" where
  "MemoryStore_CreateJobType pb j = do {
     ps \<leftarrow> read_world producers;
     if map_of ps (job_type_ProducerId j) = None
     then ret (j, Some (not_found_producer (job_type_ProducerId j)))
     else do {
       let key = jobTypeKey (job_type_ProducerId j) (job_type_Name j);
       m \<leftarrow> read_world jobTypes;
       if map_of m key \<noteq> None
       then ret (j, Some (already_exists_job_type (job_type_Name j) (job_type_ProducerId j)))
       else do {
         now \<leftarrow> timestamp_now pb;
         let j' = j\<lparr>job_type_CreatedAt := Some now, job_type_UpdatedAt := Some now\<rparr>;
         set_jobTypes (AList.update key j' m);
         ret (j', None) } } }"

definition MemoryStore_GetJobType :: "string \<Rightarrow> string \<Rightarrow> ('a store_world_scheme, go_error + job_type) state" where
  "MemoryStore_GetJobType producerID jobTypeName = do {
     m \<leftarrow> read_world jobTypes;
     case map_of m (jobTypeKey producerID jobTypeName) of
       None \<Rightarrow> ret (Inl (not_found_job_type jobTypeName producerID))
     | Some j \<Rightarrow> ret (Inr j) }"

definition MemoryStore_ListJobTypes :: "string \<Rightarrow> ('a store_world_scheme, go_error + job_type list) state" where
  "MemoryStore_ListJobTypes producerID = do {
     m \<leftarrow> read_world jobTypes;
     entries \<leftarrow> any_order m;
     ret (Inr (filter (\<lambda>j. job_type_ProducerId j = producerID) (map snd entries))) }"

definition MemoryStore_Close :: "('a store_world_scheme, go_error option) state" where
  "MemoryStore_Close = ret None"

definition memory_store :: "timestamppb \<Rightarrow> 'a store_world_scheme store" where
  "memory_store pb = \<lparr>
     store_CreateProducer = MemoryStore_CreateProducer pb,
     store_GetProducer = MemoryStore_GetProducer,
     store_ListProducers = MemoryStore_ListProducers,
     store_CreateJobType = MemoryStore_CreateJobType pb,
     store_GetJobType = MemoryStore_GetJobType,
     store_ListJobTypes = MemoryStore_ListJobTypes,
     store_Close = MemoryStore_Close\<rparr>"

section \<open>One equation per operation\<close>

lemma run_MemoryStore_CreateProducer:
  "run_state (MemoryStore_CreateProducer pb p) w =
     (if map_of (producers w) (producer_ProducerId p) \<noteq> None
      then ((p, Some (already_exists_producer (producer_ProducerId p))), w)
      else let p' = stamped_producer p (ts_new pb (clock w (ticks w)))
           in ((p', None), w\<lparr>ticks := Suc (ticks w), producers := AList.update (producer_ProducerId p) p' (producers w)\<rparr>))"
  by (simp add: MemoryStore_CreateProducer_def timestamp_now_def stamped_producer_def Let_def)

lemma run_MemoryStore_CreateJobType:
  "run_state (MemoryStore_CreateJobType pb j) w =
     (if map_of (producers w) (job_type_ProducerId j) = None
      then ((j, Some (not_found_producer (job_type_ProducerId j))), w)
      else if map_of (jobTypes w) (job_type_key j) \<noteq> None
      then ((j, Some (already_exists_job_type (job_type_Name j) (job_type_ProducerId j))), w)
      else let j' = stamped_job_type j (ts_new pb (clock w (ticks w)))
           in ((j', None), w\<lparr>ticks := Suc (ticks w), jobTypes := AList.update (job_type_key j) j' (jobTypes w)\<rparr>))"
  by (simp add: MemoryStore_CreateJobType_def timestamp_now_def stamped_job_type_def job_type_key_def Let_def)

lemma run_MemoryStore_reads:
  "run_state (MemoryStore_GetProducer i) w =
     ((case map_of (producers w) i of None \<Rightarrow> Inl (not_found_producer i) | Some p \<Rightarrow> Inr p), w)"
  "run_state MemoryStore_ListProducers w =
     (Inr (map snd (permute (choice w (choice_pos w)) (producers w))), w\<lparr>choice_pos := Suc (choice_pos w)\<rparr>)"
  "run_state (MemoryStore_GetJobType i n) w =
     ((case map_of (jobTypes w) (jobTypeKey i n) of None \<Rightarrow> Inl (not_found_job_type n i) | Some j \<Rightarrow> Inr j), w)"
  "run_state (MemoryStore_ListJobTypes i) w =
     (Inr (filter (\<lambda>j. job_type_ProducerId j = i) (map snd (permute (choice w (choice_pos w)) (jobTypes w)))),
      w\<lparr>choice_pos := Suc (choice_pos w)\<rparr>)"
  by (simp_all add: MemoryStore_GetProducer_def MemoryStore_ListProducers_def MemoryStore_GetJobType_def
      MemoryStore_ListJobTypes_def split: option.split)


section \<open>The invariant\<close>

text \<open>
  Both maps have distinct keys, every message is stored under its own key, and every job
  type belongs to a registered producer.
\<close>

definition store_inv :: "'a store_world_scheme \<Rightarrow> bool" where
  "store_inv w \<longleftrightarrow> gomap_ok (producers w) \<and> gomap_ok (jobTypes w)
     \<and> (\<forall>(k, p) \<in> set (producers w). producer_ProducerId p = k)
     \<and> (\<forall>(k, j) \<in> set (jobTypes w). job_type_key j = k \<and> map_of (producers w) (job_type_ProducerId j) \<noteq> None)"

lemma store_inv_upd [simp]:
  "store_inv (w\<lparr>ticks := n\<rparr>) = store_inv w"
  "store_inv (w\<lparr>choice_pos := n\<rparr>) = store_inv w"
  by (simp_all add: store_inv_def)

lemma ran_map_of_gomap: "gomap_ok m \<Longrightarrow> ran (map_of m) = snd ` set m"
  by (simp add: gomap_ok_def ran_distinct)

lemma store_inv_add_producer:
  assumes "store_inv w" and "map_of (producers w) (producer_ProducerId p) = None"
  shows "store_inv (w\<lparr>producers := AList.update (producer_ProducerId p) p (producers w)\<rparr>)"
  using assms by (auto simp: store_inv_def update_new_key update_conv' gomap_ok_def map_of_eq_None_iff)

lemma store_inv_add_job_type:
  assumes "store_inv w" and "map_of (jobTypes w) (job_type_key j) = None"
    and "map_of (producers w) (job_type_ProducerId j) \<noteq> None"
  shows "store_inv (w\<lparr>jobTypes := AList.update (job_type_key j) j (jobTypes w)\<rparr>)"
  using assms by (auto simp: store_inv_def update_new_key gomap_ok_def map_of_eq_None_iff)

lemma keyed_list:
  assumes "gomap_ok m" and "\<forall>(k, v) \<in> set m. key v = k"
  shows "distinct (map key (map snd (permute s m)))" and "set (map snd (permute s m)) = ran (map_of m)"
proof -
  have "map key (map snd (permute s m)) = map fst (permute s m)"
    using assms(2) by (auto simp: comp_def intro!: map_cong)
  moreover have "distinct (map fst (permute s m))"
    using assms(1) by (metis gomap_ok_def mset_permute mset_map mset_eq_imp_distinct_iff)
  ultimately show "distinct (map key (map snd (permute s m)))" by metis
  show "set (map snd (permute s m)) = ran (map_of m)" using assms(1) by (simp add: ran_map_of_gomap)
qed

lemma distinct_map_filter_keys: "distinct (map f xs) \<Longrightarrow> distinct (map f (filter P xs))"
  by (rule distinct_map_filter)

section \<open>The contract\<close>

interpretation mem: store_contract "memory_store pb" store_inv "\<lambda>w. map_of (producers w)" "\<lambda>w. map_of (jobTypes w)"
proof
  fix w p p' e w'
  assume "store_inv w" "run_state (store_CreateProducer (memory_store pb) p) w = ((p', e), w')"
  then show "store_inv w' \<and> map_of (jobTypes w') = map_of (jobTypes w) \<and>
      (case e of
         None \<Rightarrow> map_of (producers w) (producer_ProducerId p) = None \<and> (\<exists>t. p' = stamped_producer p t)
           \<and> map_of (producers w') = (map_of (producers w))(producer_ProducerId p \<mapsto> p')
       | Some e \<Rightarrow> map_of (producers w') = map_of (producers w) \<and> \<not> errors_is e ErrNotFound
           \<and> (errors_is e ErrAlreadyExists \<longleftrightarrow> map_of (producers w) (producer_ProducerId p) \<noteq> None))"
    using store_inv_add_producer [of "w\<lparr>ticks := Suc (ticks w)\<rparr>" "stamped_producer p (ts_new pb (clock w (ticks w)))"]
    by (auto simp: memory_store_def run_MemoryStore_CreateProducer Let_def update_conv' split: if_splits)
next
  fix w j j' e w'
  assume "store_inv w" "run_state (store_CreateJobType (memory_store pb) j) w = ((j', e), w')"
  then show "store_inv w' \<and> map_of (producers w') = map_of (producers w) \<and>
      (case e of
         None \<Rightarrow> map_of (producers w) (job_type_ProducerId j) \<noteq> None \<and> map_of (jobTypes w) (job_type_key j) = None
           \<and> (\<exists>t. j' = stamped_job_type j t) \<and> map_of (jobTypes w') = (map_of (jobTypes w))(job_type_key j \<mapsto> j')
       | Some e \<Rightarrow> map_of (jobTypes w') = map_of (jobTypes w)
           \<and> (errors_is e ErrNotFound \<longleftrightarrow> map_of (producers w) (job_type_ProducerId j) = None)
           \<and> (errors_is e ErrAlreadyExists \<longleftrightarrow>
                map_of (producers w) (job_type_ProducerId j) \<noteq> None \<and> map_of (jobTypes w) (job_type_key j) \<noteq> None))"
    using store_inv_add_job_type [of "w\<lparr>ticks := Suc (ticks w)\<rparr>" "stamped_job_type j (ts_new pb (clock w (ticks w)))"]
    by (auto simp: memory_store_def run_MemoryStore_CreateJobType Let_def update_conv' split: if_splits)
next
  fix w rs w'
  assume i: "store_inv w" and r: "run_state (store_ListProducers (memory_store pb)) w = (rs, w')"
  then have k: "gomap_ok (producers w)" "\<forall>(k, v) \<in> set (producers w). producer_ProducerId v = k"
    by (auto simp: store_inv_def)
  show "store_inv w' \<and> map_of (producers w') = map_of (producers w) \<and> map_of (jobTypes w') = map_of (jobTypes w) \<and>
      (\<exists>ps. rs = Inr ps \<and> set ps = ran (map_of (producers w)) \<and> distinct (map producer_ProducerId ps))"
    using i r keyed_list [OF k] by (auto simp: memory_store_def run_MemoryStore_reads)
next
  fix w i rjs w'
  assume inv: "store_inv w" and r: "run_state (store_ListJobTypes (memory_store pb) i) w = (rjs, w')"
  then have k: "gomap_ok (jobTypes w)" "\<forall>(k, v) \<in> set (jobTypes w). job_type_key v = k"
    by (auto simp: store_inv_def)
  have l: "rjs = Inr (filter (\<lambda>j. job_type_ProducerId j = i) (map snd (permute (choice w (choice_pos w)) (jobTypes w))))"
      "w' = w\<lparr>choice_pos := Suc (choice_pos w)\<rparr>"
    using r by (simp_all add: memory_store_def run_MemoryStore_reads)
  show "store_inv w' \<and> map_of (producers w') = map_of (producers w) \<and> map_of (jobTypes w') = map_of (jobTypes w) \<and>
      (\<exists>js. rjs = Inr js \<and> set js = {j \<in> ran (map_of (jobTypes w)). job_type_ProducerId j = i} \<and> distinct (map job_type_key js))"
    using inv keyed_list(2) [OF k] distinct_map_filter [OF keyed_list(1) [OF k]]
    unfolding l by (auto simp del: map_map)
qed (auto simp: memory_store_def run_MemoryStore_reads store_inv_def split: option.splits dest!: map_of_SomeD)

section \<open>Properties\<close>

text \<open>
  From an empty in-memory store, every history keeps the invariant of the maps, and
  what is registered after a history is still registered, unchanged, after any later one.
\<close>

lemma memory_registrations_persist:
  "let w1 = snd (run_state (exec_ops (memory_store pb) ops) (snd (run_state NewMemoryStore w)));
       w2 = snd (run_state (exec_ops (memory_store pb) ops') w1)
   in store_inv w1 \<and> store_inv w2 \<and> map_of (producers w1) \<subseteq>\<^sub>m map_of (producers w2)
      \<and> map_of (jobTypes w1) \<subseteq>\<^sub>m map_of (jobTypes w2)"
proof -
  define w1 where "w1 = snd (run_state (exec_ops (memory_store pb) ops) (snd (run_state NewMemoryStore w)))"
  have "store_inv (snd (run_state NewMemoryStore w))" by (simp add: NewMemoryStore_def store_inv_def)
  from mem.exec_ops_extends [OF this prod.collapse [symmetric], of pb ops]
  have i: "store_inv w1" by (simp add: w1_def)
  from mem.exec_ops_extends [OF i prod.collapse [symmetric], of pb ops'] i show ?thesis
    unfolding w1_def [symmetric] Let_def by blast
qed

text \<open>
  When the registered producers and the queried id have no colon, a lookup of a job
  type never answers with the job type of another producer or of another name.
\<close>

lemma memory_lookup_sound:
  assumes "store_inv w" and "\<forall>i \<in> dom (map_of (producers w)). colon_free i" and "colon_free i"
    and "run_state (MemoryStore_GetJobType i n) w = (Inr j, w')"
  shows "job_type_ProducerId j = i \<and> job_type_Name j = n"
proof -
  have j: "map_of (jobTypes w) (jobTypeKey i n) = Some j"
    using assms(4) by (auto simp: run_MemoryStore_reads split: option.splits)
  have c: "colon_free (job_type_ProducerId j)"
    using mem.types_owned [OF assms(1) j] assms(2) by blast
  have "jobTypeKey (job_type_ProducerId j) (job_type_Name j) = jobTypeKey i n"
    using mem.types_keyed [OF assms(1) j] by (simp add: job_type_key_def)
  then have "job_type_ProducerId j @ CHR '':'' # job_type_Name j = i @ CHR '':'' # n" by (simp add: jobTypeKey_def)
  then show ?thesis by (rule split_at_colon [OF c assms(3)])
qed

text \<open>
  An id with a colon is not told apart from a shorter id: asking for the job type
  \<open>y\<close> of the producer \<open>p:x\<close> and for the job type \<open>x:y\<close> of the producer \<open>p\<close> finds the same
  entry, registered or not.
\<close>

lemma memory_lookup_confuses_colons:
  "fst (run_state (MemoryStore_GetJobType (p @ '':'' @ x) y) w) = Inr j
     \<longleftrightarrow> fst (run_state (MemoryStore_GetJobType p (x @ '':'' @ y)) w) = Inr j"
proof -
  have "jobTypeKey (p @ '':'' @ x) y = jobTypeKey p (x @ '':'' @ y)" by (simp add: jobTypeKey_def)
  then show ?thesis
    unfolding run_MemoryStore_reads by (cases "map_of (jobTypes w) (jobTypeKey p (x @ '':'' @ y))") simp_all
qed

definition sample_store_world :: store_world where
  "sample_store_world = \<lparr>clock = (\<lambda>_. 0), ticks = 0, entropy = (\<lambda>_. 0), entropy_pos = 0,
     choice = (\<lambda>_. 0), choice_pos = 0, metrics = [],
     producers = [(''prod_1'', \<lparr>producer_ProducerId = ''prod_1'', producer_Name = ''billing'', producer_Description = [],
       producer_RateLimitRps = 1000, producer_CreatedAt = None, producer_UpdatedAt = None\<rparr>)],
     jobTypes = [(''prod_1:mail:send'', \<lparr>job_type_ProducerId = ''prod_1'', job_type_Name = ''mail:send'', job_type_Queue = 2,
       job_type_MaxRetries = 5, job_type_Description = [], job_type_CreatedAt = None, job_type_UpdatedAt = None\<rparr>)]\<rparr>"

lemma memory_lookup_sound_witness:
  "job_type_Name (snd (hd (jobTypes sample_store_world))) = ''mail:send''"
proof -
  let ?j = "snd (hd (jobTypes sample_store_world))"
  have "store_inv sample_store_world" "\<forall>i \<in> dom (map_of (producers sample_store_world)). colon_free i" "colon_free ''prod_1''"
    "run_state (MemoryStore_GetJobType ''prod_1'' ''mail:send'') sample_store_world = (Inr ?j, sample_store_world)"
    by (auto simp: sample_store_world_def store_inv_def gomap_ok_def job_type_key_def jobTypeKey_def colon_free_def
        run_MemoryStore_reads split: if_splits)
  from memory_lookup_sound [OF this] show ?thesis ..
qed

end
