(* ===== verification/GoJson.thy ===== *)
theory GoJson
  imports GoBase
begin

text \<open>
  What the code uses of \<open>encoding/json\<close> and \<open>encoding/base64\<close>. A JSON text is read by a
  scanner into tokens, with strings unquoted as the decoder does (escapes, surrogate
  pairs, bytes that are not UTF-8 replaced), and the tokens drive a stack machine in the
  style of the library's scanner, with its limit of 10000 on the nesting depth. The
  encoder quotes strings with its HTML escaping and prints a struct field by field.
\<close>


section \<open>UTF-8\<close>

abbreviation ord :: "char \<Rightarrow> nat" where "ord \<equiv> of_char"

definition between :: "nat \<Rightarrow> char \<Rightarrow> nat \<Rightarrow> bool" where
  "between lo c hi \<longleftrightarrow> lo \<le> ord c \<and> ord c \<le> hi"

text \<open>
  The size of the valid sequence a string starts with, 0 if it starts with none: shortest
  forms only, no surrogates, nothing above U+10FFFF.
\<close>

fun utf8_size :: "string \<Rightarrow> nat" where
  "utf8_size [] = 0"
| "utf8_size (c # cs) =
     (if ord c < 0x80 then 1
      else if between 0xC2 c 0xDF then
        (case cs of c1 # _ \<Rightarrow> (if between 0x80 c1 0xBF then 2 else 0) | _ \<Rightarrow> 0)
      else if between 0xE0 c 0xEF then
        (case cs of c1 # c2 # _ \<Rightarrow>
           (if between (if ord c = 0xE0 then 0xA0 else 0x80) c1 (if ord c = 0xED then 0x9F else 0xBF)
               \<and> between 0x80 c2 0xBF then 3 else 0) | _ \<Rightarrow> 0)
      else if between 0xF0 c 0xF4 then
        (case cs of c1 # c2 # c3 # _ \<Rightarrow>
           (if between (if ord c = 0xF0 then 0x90 else 0x80) c1 (if ord c = 0xF4 then 0x8F else 0xBF)
               \<and> between 0x80 c2 0xBF \<and> between 0x80 c3 0xBF then 4 else 0) | _ \<Rightarrow> 0)
      else 0)"

lemma utf8_size_le: "utf8_size s \<le> length s"
  by (cases s) (auto split: list.splits)

lemma utf8_size_ascii [simp]: "ord c < 128 \<Longrightarrow> utf8_size (c # cs) = 1"
  by simp

declare utf8_size.simps(2) [simp del]

text \<open>\<open>utf8.EncodeRune\<close>, for a code point that is not a surrogate.\<close>

definition encode_rune :: "nat \<Rightarrow> string" where
  "encode_rune r =
     (if r < 0x80 then [char_of r]
      else if r < 0x800 then [char_of (0xC0 + r div 64), char_of (0x80 + r mod 64)]
      else if r < 0x10000 then
        [char_of (0xE0 + r div 4096), char_of (0x80 + r div 64 mod 64), char_of (0x80 + r mod 64)]
      else [char_of (0xF0 + r div 262144), char_of (0x80 + r div 4096 mod 64),
            char_of (0x80 + r div 64 mod 64), char_of (0x80 + r mod 64)])"

definition replacement_char :: string where
  "replacement_char = encode_rune 0xFFFD"

function valid_utf8 :: "string \<Rightarrow> bool" where
  "valid_utf8 s = (if s = [] then True else if utf8_size s = 0 then False
     else valid_utf8 (drop (utf8_size s) s))"
  by pat_completeness auto
termination
  by (relation "measure length") auto

declare valid_utf8.simps [simp del]


section \<open>Strings\<close>

abbreviation dquote :: char where "dquote \<equiv> CHR 0x22"
abbreviation bslash :: char where "bslash \<equiv> CHR 0x5C"

text \<open>How the encoder prints a byte below 0x80.\<close>

definition escape_ascii :: "char \<Rightarrow> string" where
  "escape_ascii c =
     (if c = bslash \<or> c = dquote then [bslash, c]
      else if ord c = 8 then bslash # ''b''
      else if ord c = 12 then bslash # ''f''
      else if ord c = 10 then bslash # ''n''
      else if ord c = 13 then bslash # ''r''
      else if ord c = 9 then bslash # ''t''
      else if ord c < 32 \<or> c \<in> set ''<>&'' then
        bslash # ''u00'' @ [hex_digit (ord c div 16), hex_digit (ord c mod 16)]
      else [c])"

definition is_line_sep :: "string \<Rightarrow> bool" where
  "is_line_sep s \<longleftrightarrow> (case s of c # c1 # c2 # _ \<Rightarrow>
     ord c = 0xE2 \<and> ord c1 = 0x80 \<and> (ord c2 = 0xA8 \<or> ord c2 = 0xA9) | _ \<Rightarrow> False)"

function quote_body :: "string \<Rightarrow> string" where
  "quote_body s =
     (case s of [] \<Rightarrow> []
      | c # cs \<Rightarrow>
        (if ord c < 0x80 then escape_ascii c @ quote_body cs
         else if utf8_size s = 0 then bslash # ''ufffd'' @ quote_body cs
         else if is_line_sep s then
           bslash # ''u202'' @ [hex_digit (ord (s ! 2) mod 16)] @ quote_body (drop 3 s)
         else take (utf8_size s) s @ quote_body (drop (utf8_size s) s)))"
  by pat_completeness auto
termination
  by (relation "measure length") (auto simp: is_line_sep_def split: list.splits)

declare quote_body.simps [simp del]

definition quote_string :: "string \<Rightarrow> string" where
  "quote_string s = dquote # quote_body s @ [dquote]"

text \<open>The value of a hexadecimal digit, and of the four digits after \<open>\u\<close>.\<close>

definition hex_val :: "char \<Rightarrow> nat option" where
  "hex_val c =
     (if between 48 c 57 then Some (ord c - 48)
      else if between 97 c 102 then Some (ord c - 87)
      else if between 65 c 70 then Some (ord c - 55)
      else None)"

fun hex4 :: "string \<Rightarrow> (nat \<times> string) option" where
  "hex4 (a # b # c # d # rest) =
     (case (hex_val a, hex_val b, hex_val c, hex_val d) of
        (Some w, Some x, Some y, Some z) \<Rightarrow> Some (((w * 16 + x) * 16 + y) * 16 + z, rest)
      | _ \<Rightarrow> None)"
| "hex4 _ = None"

text \<open>
  The code point of a \<open>\u\<close> escape and what follows it: a surrogate is combined with a
  second escape that completes it, and is replaced otherwise.
\<close>

definition unescape_u :: "string \<Rightarrow> (string \<times> string) option" where
  "unescape_u s =
     (case hex4 s of None \<Rightarrow> None
      | Some (r, rest) \<Rightarrow>
        (if 0xD800 \<le> r \<and> r < 0xE000 then
           (case rest of b # u # rest1 \<Rightarrow>
              (if b = bslash \<and> u = CHR ''u'' then
                 (case hex4 rest1 of None \<Rightarrow> Some (replacement_char, rest)
                  | Some (r1, rest2) \<Rightarrow>
                    (if r < 0xDC00 \<and> 0xDC00 \<le> r1 \<and> r1 < 0xE000
                     then Some (encode_rune ((r - 0xD800) * 1024 + (r1 - 0xDC00) + 0x10000), rest2)
                     else Some (replacement_char, rest)))
               else Some (replacement_char, rest))
            | _ \<Rightarrow> Some (replacement_char, rest))
         else Some (encode_rune r, rest)))"

lemma hex4_length: "hex4 s = Some (r, rest) \<Longrightarrow> length rest < length s"
  by (cases s rule: hex4.cases) (auto split: option.splits)

lemma unescape_u_length: "unescape_u s = Some (t, rest) \<Longrightarrow> length rest < length s"
  by (fastforce simp: unescape_u_def split: option.splits prod.splits if_splits list.splits dest: hex4_length)

definition simple_escape :: "char \<Rightarrow> string option" where
  "simple_escape c =
     (if c = bslash \<or> c = dquote \<or> c = CHR ''/'' then Some [c]
      else if c = CHR ''b'' then Some [char_of (8 :: nat)]
      else if c = CHR ''f'' then Some [char_of (12 :: nat)]
      else if c = CHR ''n'' then Some [char_of (10 :: nat)]
      else if c = CHR ''r'' then Some [char_of (13 :: nat)]
      else if c = CHR ''t'' then Some [char_of (9 :: nat)]
      else None)"

definition prepend :: "string \<Rightarrow> (string \<times> 'a) option \<Rightarrow> (string \<times> 'a) option" where
  "prepend p r = map_option (\<lambda>(s, x). (p @ s, x)) r"

lemma prepend_simps [simp]:
  "prepend p None = None" "prepend p (Some (s, x)) = Some (p @ s, x)"
  by (simp_all add: prepend_def)

text \<open>The rest of a string literal after its opening quote: its value and what follows it.\<close>

function unquote :: "string \<Rightarrow> (string \<times> string) option" where
  "unquote s =
     (case s of [] \<Rightarrow> None
      | c # cs \<Rightarrow>
        (if c = dquote then Some ([], cs)
         else if c = bslash then
           (case cs of [] \<Rightarrow> None
            | e # rest \<Rightarrow>
              (if e = CHR ''u'' then
                 (case unescape_u rest of None \<Rightarrow> None
                  | Some (t, rest') \<Rightarrow> prepend t (unquote rest'))
               else (case simple_escape e of None \<Rightarrow> None
                     | Some t \<Rightarrow> prepend t (unquote rest))))
         else if ord c < 32 then None
         else if utf8_size s = 0 then prepend replacement_char (unquote cs)
         else prepend (take (utf8_size s) s) (unquote (drop (utf8_size s) s))))"
  by pat_completeness auto
termination
  by (relation "measure length") (auto dest: unescape_u_length)

declare unquote.simps [simp del]

lemma unquote_simps [simp]:
  "unquote [] = None"
  "unquote (dquote # cs) = Some ([], cs)"
  by (simp_all add: unquote.simps)

lemma unquote_escape: "simple_escape e = Some t \<Longrightarrow> unquote (bslash # e # rest) = prepend t (unquote rest)"
  by (subst unquote.simps) (auto simp: simple_escape_def split: if_splits)

lemma unquote_u: "unescape_u rest = Some (t, rest') \<Longrightarrow> unquote (bslash # CHR ''u'' # rest) = prepend t (unquote rest')"
  by (subst unquote.simps) simp

lemma unquote_plain:
  "c \<noteq> dquote \<Longrightarrow> c \<noteq> bslash \<Longrightarrow> 32 \<le> ord c \<Longrightarrow> ord c < 128 \<Longrightarrow> unquote (c # cs) = prepend [c] (unquote cs)"
  by (subst unquote.simps) auto

lemma unquote_multi:
  "utf8_size (c # cs) = n \<Longrightarrow> n \<noteq> 0 \<Longrightarrow> 128 \<le> ord c \<Longrightarrow>
     unquote (c # cs) = prepend (take n (c # cs)) (unquote (drop n (c # cs)))"
  by (subst unquote.simps) auto

lemma prepend_SomeE:
  assumes "prepend p r = Some (t, rest)"
  obtains t' where "r = Some (t', rest)" and "t = p @ t'"
  using assms by (cases r) (auto simp: prepend_def)

lemma unquote_length: "unquote s = Some (t, rest) \<Longrightarrow> length rest < length s"
proof (induction s arbitrary: t rest rule: unquote.induct)
  case (1 s)
  show ?case
  proof (cases s)
    case (Cons c cs)
    note eq = "1.prems" [unfolded unquote.simps [of s], unfolded Cons list.case]
    show ?thesis
    proof (cases "c = bslash")
      case True
      with eq obtain e r where cs: "cs = e # r" by (cases cs) auto
      show ?thesis
      proof (cases "e = CHR ''u''")
        case True
        with eq \<open>c = bslash\<close> cs obtain u r' where u: "unescape_u r = Some (u, r')"
          by (auto split: option.splits)
        with eq True \<open>c = bslash\<close> cs have "prepend u (unquote r') = Some (t, rest)" by simp
        then obtain t' where "unquote r' = Some (t', rest)" by (rule prepend_SomeE)
        then have "length rest < length r'"
          using "1.IH"(1) [OF Cons _ \<open>c = bslash\<close> cs True u refl] \<open>c = bslash\<close> by simp
        with unescape_u_length [OF u] show ?thesis by (simp add: Cons cs)
      next
        case False
        with eq \<open>c = bslash\<close> cs obtain u where u: "simple_escape e = Some u"
          by (auto split: option.splits)
        with eq False \<open>c = bslash\<close> cs have "prepend u (unquote r) = Some (t, rest)" by simp
        then obtain t' where "unquote r = Some (t', rest)" by (rule prepend_SomeE)
        then have "length rest < length r"
          using "1.IH"(2) [OF Cons _ \<open>c = bslash\<close> cs False u] \<open>c = bslash\<close> by simp
        then show ?thesis by (simp add: Cons cs)
      qed
    next
      case False
      show ?thesis
      proof (cases "c = dquote \<or> ord c < 32")
        case True
        with eq False show ?thesis by (auto simp: Cons split: if_splits)
      next
        case nq: False
        show ?thesis
        proof (cases "utf8_size s = 0")
          case True
          with eq False nq have "prepend replacement_char (unquote cs) = Some (t, rest)" by (simp add: Cons)
          then obtain t' where "unquote cs = Some (t', rest)" by (rule prepend_SomeE)
          then have "length rest < length cs"
            using "1.IH"(3) [OF Cons _ False _ True] nq by simp
          then show ?thesis by (simp add: Cons)
        next
          case nz: False
          with eq False nq have "prepend (take (utf8_size s) s) (unquote (drop (utf8_size s) s)) = Some (t, rest)"
            by (simp add: Cons)
          then obtain t' where "unquote (drop (utf8_size s) s) = Some (t', rest)" by (rule prepend_SomeE)
          then have "length rest < length (drop (utf8_size s) s)"
            using "1.IH"(4) [OF Cons _ False _ nz] nq by simp
          then show ?thesis by simp
        qed
      qed
    qed
  qed (use "1.prems" in simp)
qed

text \<open>The decoder undoes the encoder on every string that is UTF-8.\<close>

lemma hex_val_digit: "n < 16 \<Longrightarrow> hex_val (hex_digit n) = Some n"
proof -
  assume "n < 16"
  then have "n \<in> set [0..<16]" by simp
  then show ?thesis
    by (auto simp: upt_rec hex_digit_def hex_val_def between_def)
qed

lemma hex4_digits:
  "a < 16 \<Longrightarrow> b < 16 \<Longrightarrow> c < 16 \<Longrightarrow> d < 16 \<Longrightarrow>
     hex4 (hex_digit a # hex_digit b # hex_digit c # hex_digit d # rest) = Some (((a * 16 + b) * 16 + c) * 16 + d, rest)"
  by (simp add: hex_val_digit)

lemma unescape_u_low:
  "a < 16 \<Longrightarrow> b < 16 \<Longrightarrow> unescape_u (CHR ''0'' # CHR ''0'' # hex_digit a # hex_digit b # rest)
     = Some (encode_rune (a * 16 + b), rest)"
  using hex4_digits [of 0 0 a b rest] by (simp add: unescape_u_def hex_digit_def del: hex4.simps)

lemma unescape_u_line_sep:
  "d < 16 \<Longrightarrow> unescape_u (CHR ''2'' # CHR ''0'' # CHR ''2'' # hex_digit d # rest)
     = Some (encode_rune (0x2020 + d), rest)"
  using hex4_digits [of 2 0 2 d rest] by (simp add: unescape_u_def hex_digit_def del: hex4.simps)

lemma unquote_escape_ascii:
  assumes "ord c < 128"
  shows "unquote (escape_ascii c @ rest) = prepend [c] (unquote rest)"
proof -
  have c: "char_of (ord c) = c" by simp
  consider (q) "c = bslash \<or> c = dquote" | (b) "ord c = 8" | (f) "ord c = 12" | (n) "ord c = 10"
    | (r) "ord c = 13" | (t) "ord c = 9"
    | (u) "c \<noteq> bslash" "c \<noteq> dquote" "ord c \<notin> {8, 12, 10, 13, 9}" "ord c < 32 \<or> c \<in> set ''<>&''"
    | (p) "c \<noteq> bslash" "c \<noteq> dquote" "32 \<le> ord c" "c \<notin> set ''<>&''"
    by force
  then show ?thesis
  proof cases
    case q
    then show ?thesis by (auto simp: escape_ascii_def unquote_escape simple_escape_def)
  next
    case u
    have e: "escape_ascii c = bslash # ''u00'' @ [hex_digit (ord c div 16), hex_digit (ord c mod 16)]"
      using u unfolding escape_ascii_def by auto
    have "ord c div 16 < 16" using assms by auto
    then have "unescape_u (''00'' @ [hex_digit (ord c div 16), hex_digit (ord c mod 16)] @ rest) = Some ([c], rest)"
      using unescape_u_low [of "ord c div 16" "ord c mod 16" rest] assms by (simp add: encode_rune_def)
    then show ?thesis by (simp add: e unquote_u)
  next
    case p
    then have "escape_ascii c = [c]" unfolding escape_ascii_def by auto
    with p assms show ?thesis by (simp add: unquote_plain)
  qed (use c in \<open>auto simp: escape_ascii_def unquote_escape simple_escape_def\<close>)
qed

lemma utf8_size_take: "utf8_size s = n \<Longrightarrow> n \<noteq> 0 \<Longrightarrow> utf8_size (take n s @ rest) = n"
  by (cases s) (auto simp: utf8_size.simps(2) split: if_splits list.splits)

lemma unquote_quote_body:
  "valid_utf8 s \<Longrightarrow> unquote (quote_body s @ dquote # rest) = Some (s, rest)"
proof (induction s rule: valid_utf8.induct)
  case (1 s)
  show ?case
  proof (cases s)
    case Nil
    then show ?thesis by (subst quote_body.simps) simp
  next
    case (Cons c cs)
    define n where "n = utf8_size s"
    from "1.prems" Cons have n: "n \<noteq> 0" and v: "valid_utf8 (drop n s)"
      by (auto simp: n_def valid_utf8.simps [of "c # cs"] split: if_splits)
    with "1.IH" Cons have IH: "unquote (quote_body (drop n s) @ dquote # rest) = Some (drop n s, rest)"
      by (simp add: n_def)
    show ?thesis
    proof (cases "ord c < 128")
      case True
      then have "n = 1" by (simp add: n_def Cons)
      with IH True show ?thesis
        by (subst quote_body.simps) (simp add: Cons unquote_escape_ascii)
    next
      case False
      show ?thesis
      proof (cases "is_line_sep s")
        case True
        then obtain c1 c2 cs' where cs: "s = c # c1 # c2 # cs'" "ord c = 0xE2" "ord c1 = 0x80"
            "ord c2 = 0xA8 \<or> ord c2 = 0xA9"
          by (auto simp: is_line_sep_def Cons split: list.splits)
        then have "n = 3" by (auto simp: n_def utf8_size.simps(2) between_def)
        have "unescape_u (''202'' @ hex_digit (ord c2 mod 16) # X) = Some (encode_rune (0x2020 + ord c2 mod 16), X)" for X
          using unescape_u_line_sep [of "ord c2 mod 16" X] by simp
        moreover have "encode_rune (0x2020 + ord c2 mod 16) = [c, c1, c2]"
          using cs(2-4) by (auto simp: encode_rune_def char_of_eq_iff)
        ultimately show ?thesis
          using IH True False n \<open>n = 3\<close> cs(1)
          by (subst quote_body.simps) (simp add: unquote_u n_def)
      next
        case nl: False
        have q: "quote_body s = take n s @ quote_body (drop n s)"
          using False nl n by (subst quote_body.simps) (simp add: Cons n_def)
        obtain k where k: "n = Suc k" using n by (cases n) auto
        have "utf8_size (take n s @ X) = n" for X using n by (intro utf8_size_take) (simp_all add: n_def)
        then have "utf8_size (c # take k cs @ X) = n" for X by (simp add: Cons k)
        moreover have "k \<le> length cs" using utf8_size_le [of s] k n_def Cons by simp
        moreover have "quote_body (c # cs) = c # take k cs @ quote_body (drop k cs)"
          using q by (simp add: Cons k)
        ultimately show ?thesis
          using unquote_multi [of c "take k cs @ quote_body (drop n s) @ dquote # rest" n] False IH
          by (simp add: Cons k)
      qed
    qed
  qed
qed


section \<open>Tokens\<close>

datatype token =
    TObjOpen | TObjClose | TArrOpen | TArrClose | TColon | TComma
  | TStr string | TNum string | TNull | TTrue | TFalse

definition is_space :: "char \<Rightarrow> bool" where
  "is_space c \<longleftrightarrow> ord c = 32 \<or> ord c = 9 \<or> ord c = 10 \<or> ord c = 13"

text \<open>
  A number: an optional sign, an integer part without superfluous zeros, an optional
  fraction and an optional exponent, each with a digit. The literal is kept as text.
\<close>

definition span_digits :: "string \<Rightarrow> string \<times> string" where
  "span_digits s = (takeWhile is_digit s, dropWhile is_digit s)"

definition lex_int :: "string \<Rightarrow> (string \<times> string) option" where
  "lex_int s = (case s of [] \<Rightarrow> None
     | c # cs \<Rightarrow> if c = CHR ''0'' then Some (''0'', cs)
         else if is_digit c then Some (span_digits s) else None)"

definition lex_frac :: "string \<Rightarrow> (string \<times> string) option" where
  "lex_frac s = (case s of [] \<Rightarrow> Some ([], [])
     | c # cs \<Rightarrow> if c = CHR ''.'' then
         (if takeWhile is_digit cs = [] then None else prepend [c] (Some (span_digits cs)))
       else Some ([], s))"

definition lex_exp :: "string \<Rightarrow> (string \<times> string) option" where
  "lex_exp s = (case s of [] \<Rightarrow> Some ([], [])
     | c # cs \<Rightarrow> if c = CHR ''e'' \<or> c = CHR ''E'' then
         (let (sgn, ds) = (case cs of d # ds \<Rightarrow> if d = CHR ''+'' \<or> d = CHR ''-'' then ([d], ds) else ([], cs) | [] \<Rightarrow> ([], []))
          in if takeWhile is_digit ds = [] then None else prepend (c # sgn) (Some (span_digits ds)))
       else Some ([], s))"

definition lex_unsigned :: "string \<Rightarrow> (string \<times> string) option" where
  "lex_unsigned s = (case lex_int s of None \<Rightarrow> None
     | Some (i, s1) \<Rightarrow> (case lex_frac s1 of None \<Rightarrow> None
       | Some (f, s2) \<Rightarrow> prepend (i @ f) (lex_exp s2)))"

definition lex_number :: "string \<Rightarrow> (string \<times> string) option" where
  "lex_number s = (case s of [] \<Rightarrow> None
     | c # cs \<Rightarrow> if c = CHR ''-'' then prepend [c] (lex_unsigned cs) else lex_unsigned s)"

text \<open>One token and what follows it; the text starts with a byte that is not a space.\<close>

definition starts_with :: "string \<Rightarrow> string \<Rightarrow> bool" where
  "starts_with p s \<longleftrightarrow> take (length p) s = p"

definition lex_token :: "string \<Rightarrow> (token \<times> string) option" where
  "lex_token s = (case s of [] \<Rightarrow> None
     | c # cs \<Rightarrow>
       if c = CHR ''{'' then Some (TObjOpen, cs)
       else if c = CHR ''}'' then Some (TObjClose, cs)
       else if c = CHR ''['' then Some (TArrOpen, cs)
       else if c = CHR '']'' then Some (TArrClose, cs)
       else if c = CHR '':'' then Some (TColon, cs)
       else if c = CHR '','' then Some (TComma, cs)
       else if c = dquote then map_option (\<lambda>(t, rest). (TStr t, rest)) (unquote cs)
       else if starts_with ''null'' s then Some (TNull, drop 4 s)
       else if starts_with ''true'' s then Some (TTrue, drop 4 s)
       else if starts_with ''false'' s then Some (TFalse, drop 5 s)
       else map_option (\<lambda>(t, rest). (TNum t, rest)) (lex_number s))"

lemma span_digits_length: "span_digits s = (t, rest) \<Longrightarrow> length rest \<le> length s"
  by (auto simp: span_digits_def length_dropWhile_le)

lemma lex_int_length: "lex_int s = Some (t, rest) \<Longrightarrow> length rest < length s"
proof (cases s)
  case (Cons c cs)
  then show "lex_int s = Some (t, rest) \<Longrightarrow> ?thesis"
    using length_dropWhile_le [of is_digit cs]
    by (auto simp: lex_int_def span_digits_def split: if_splits)
qed (simp add: lex_int_def)

lemma lex_frac_length: "lex_frac s = Some (t, rest) \<Longrightarrow> length rest \<le> length s"
  by (cases s) (auto simp: lex_frac_def le_SucI split: if_splits elim!: prepend_SomeE dest!: span_digits_length)

lemma lex_exp_length: "lex_exp s = Some (t, rest) \<Longrightarrow> length rest \<le> length s"
  by (cases s) (auto simp: lex_exp_def Let_def le_SucI split: if_splits list.splits prod.splits
      elim!: prepend_SomeE dest!: span_digits_length)

lemma lex_unsigned_length: "lex_unsigned s = Some (t, rest) \<Longrightarrow> length rest < length s"
  by (auto simp: lex_unsigned_def split: option.splits elim!: prepend_SomeE
      dest!: lex_int_length lex_frac_length lex_exp_length)

lemma lex_number_length: "lex_number s = Some (t, rest) \<Longrightarrow> length rest < length s"
  by (cases s) (auto simp: lex_number_def split: if_splits elim!: prepend_SomeE dest!: lex_unsigned_length)

lemma lex_token_length: "lex_token s = Some (t, rest) \<Longrightarrow> length rest < length s"
  by (cases s) (auto simp: lex_token_def split: if_splits dest!: unquote_length lex_number_length)

function lex :: "string \<Rightarrow> token list option" where
  "lex s = (case s of [] \<Rightarrow> Some []
     | c # cs \<Rightarrow> if is_space c then lex cs
         else (case lex_token s of None \<Rightarrow> None
               | Some (t, rest) \<Rightarrow> map_option ((#) t) (lex rest)))"
  by pat_completeness auto
termination
  by (relation "measure length") (auto dest: lex_token_length)

declare lex.simps [simp del]

lemma lex_Nil [simp]: "lex [] = Some []"
  by (simp add: lex.simps)

lemma lex_step: "lex_token (c # cs) = Some (t, rest) \<Longrightarrow> \<not> is_space c \<Longrightarrow> lex (c # cs) = map_option ((#) t) (lex rest)"
  by (subst lex.simps) simp

lemma lex_punctuation [simp]:
  "lex (CHR ''{'' # s) = map_option ((#) TObjOpen) (lex s)"
  "lex (CHR ''}'' # s) = map_option ((#) TObjClose) (lex s)"
  "lex (CHR '':'' # s) = map_option ((#) TColon) (lex s)"
  "lex (CHR '','' # s) = map_option ((#) TComma) (lex s)"
  by (subst lex.simps, simp add: is_space_def lex_token_def)+


section \<open>The stack machine\<close>

text \<open>Values; a number is its literal, an object keeps its members in order, duplicates included.\<close>

datatype json =
    JNull | JBool bool | JNum string | JStr string
  | JArr "json list" | JObj "(string \<times> json) list"

definition max_nesting_depth :: nat where "max_nesting_depth = 10000"

text \<open>An open array with its elements so far, an open object with its members so far and
  the key whose value is being read.\<close>

datatype frame = InArr "json list" | InObj "(string \<times> json) list" string

datatype pstate =
    BeginValue "frame list"
  | BeginElemOrEnd "frame list"
  | BeginKeyOrEnd "frame list"
  | BeginKey "frame list" "(string \<times> json) list"
  | BeginColon "frame list" "(string \<times> json) list" string
  | EndElem "frame list" "json list"
  | EndMember "frame list" "(string \<times> json) list"
  | Done json

fun complete :: "json \<Rightarrow> frame list \<Rightarrow> pstate" where
  "complete v [] = Done v"
| "complete v (InArr vs # fs) = EndElem fs (vs @ [v])"
| "complete v (InObj ms k # fs) = EndMember fs (ms @ [(k, v)])"

fun begin_value :: "frame list \<Rightarrow> token \<Rightarrow> pstate option" where
  "begin_value fs TNull = Some (complete JNull fs)"
| "begin_value fs TTrue = Some (complete (JBool True) fs)"
| "begin_value fs TFalse = Some (complete (JBool False) fs)"
| "begin_value fs (TStr t) = Some (complete (JStr t) fs)"
| "begin_value fs (TNum t) = Some (complete (JNum t) fs)"
| "begin_value fs TArrOpen = (if length fs < max_nesting_depth then Some (BeginElemOrEnd fs) else None)"
| "begin_value fs TObjOpen = (if length fs < max_nesting_depth then Some (BeginKeyOrEnd fs) else None)"
| "begin_value fs _ = None"

fun json_step :: "pstate \<Rightarrow> token \<Rightarrow> pstate option" where
  "json_step (BeginValue fs) t = begin_value fs t"
| "json_step (BeginElemOrEnd fs) t =
     (if t = TArrClose then Some (complete (JArr []) fs) else begin_value (InArr [] # fs) t)"
| "json_step (BeginKeyOrEnd fs) t =
     (case t of TObjClose \<Rightarrow> Some (complete (JObj []) fs) | TStr k \<Rightarrow> Some (BeginColon fs [] k) | _ \<Rightarrow> None)"
| "json_step (BeginKey fs ms) t = (case t of TStr k \<Rightarrow> Some (BeginColon fs ms k) | _ \<Rightarrow> None)"
| "json_step (BeginColon fs ms k) t = (if t = TColon then Some (BeginValue (InObj ms k # fs)) else None)"
| "json_step (EndElem fs vs) t =
     (case t of TComma \<Rightarrow> Some (BeginValue (InArr vs # fs)) | TArrClose \<Rightarrow> Some (complete (JArr vs) fs) | _ \<Rightarrow> None)"
| "json_step (EndMember fs ms) t =
     (case t of TComma \<Rightarrow> Some (BeginKey fs ms) | TObjClose \<Rightarrow> Some (complete (JObj ms) fs) | _ \<Rightarrow> None)"
| "json_step (Done v) t = None"

fun json_run :: "pstate \<Rightarrow> token list \<Rightarrow> pstate option" where
  "json_run p [] = Some p"
| "json_run p (t # ts) = (case json_step p t of None \<Rightarrow> None | Some p' \<Rightarrow> json_run p' ts)"

definition json_parse :: "string \<Rightarrow> json option" where
  "json_parse s = (case lex s of None \<Rightarrow> None
     | Some ts \<Rightarrow> (case json_run (BeginValue []) ts of Some (Done v) \<Rightarrow> Some v | _ \<Rightarrow> None))"


section \<open>Printing a struct\<close>

text \<open>\<open>json.Marshal\<close> of a struct: its fields in order, each with its encoded value.\<close>

fun json_fields :: "(string \<times> string) list \<Rightarrow> string" where
  "json_fields [] = []"
| "json_fields [(k, v)] = quote_string k @ '':'' @ v"
| "json_fields ((k, v) # fs) = quote_string k @ '':'' @ v @ '','' @ json_fields fs"

definition json_object :: "(string \<times> string) list \<Rightarrow> string" where
  "json_object fs = ''{'' @ json_fields fs @ ''}''"

definition enc_string :: "string \<Rightarrow> string" where "enc_string = quote_string"
definition enc_int :: "int \<Rightarrow> string" where "enc_int = show_int"
definition enc_bool :: "bool \<Rightarrow> string" where "enc_bool b = (if b then ''true'' else ''false'')"

text \<open>What follows a value inside an object, and texts that are read as one token there.\<close>

definition follows_value :: "string \<Rightarrow> bool" where
  "follows_value s \<longleftrightarrow> (case s of c # _ \<Rightarrow> c = CHR '','' \<or> c = CHR ''}'' | [] \<Rightarrow> False)"

definition lexes_as :: "string \<Rightarrow> token \<Rightarrow> bool" where
  "lexes_as txt t \<longleftrightarrow> (\<forall>rest. follows_value rest \<longrightarrow> lex (txt @ rest) = map_option ((#) t) (lex rest))"

fun scalar :: "token \<Rightarrow> json option" where
  "scalar TNull = Some JNull"
| "scalar TTrue = Some (JBool True)"
| "scalar TFalse = Some (JBool False)"
| "scalar (TStr t) = Some (JStr t)"
| "scalar (TNum t) = Some (JNum t)"
| "scalar _ = None"

definition encodes :: "string \<Rightarrow> json \<Rightarrow> bool" where
  "encodes txt v \<longleftrightarrow> (\<exists>t. lexes_as txt t \<and> scalar t = Some v)"

lemma valid_utf8_ascii: "list_all (\<lambda>c. ord c < 128) s \<Longrightarrow> valid_utf8 s"
  by (induction s) (simp_all add: valid_utf8.simps)

lemma lex_quote_string: "valid_utf8 s \<Longrightarrow> lex (quote_string s @ rest) = map_option ((#) (TStr s)) (lex rest)"
  by (simp add: quote_string_def lex_step lex_token_def unquote_quote_body is_space_def)

lemma encodes_string: "valid_utf8 s \<Longrightarrow> encodes (enc_string s) (JStr s)"
  by (auto simp: encodes_def lexes_as_def enc_string_def lex_quote_string intro!: exI [of _ "TStr s"])

lemma encodes_null: "encodes ''null'' JNull"
  by (auto simp: encodes_def lexes_as_def lex_step lex_token_def is_space_def starts_with_def intro!: exI [of _ TNull])

lemma encodes_bool: "encodes (enc_bool b) (JBool b)"
proof -
  have "lexes_as ''true'' TTrue" "lexes_as ''false'' TFalse"
    by (simp_all add: lexes_as_def lex_step lex_token_def is_space_def starts_with_def)
  then show ?thesis by (cases b) (auto simp: encodes_def enc_bool_def)
qed

lemma span_digits_append:
  assumes "list_all is_digit ds" and "follows_value rest"
  shows "span_digits (ds @ rest) = (ds, rest)"
proof -
  have "takeWhile is_digit rest = []" "dropWhile is_digit rest = rest"
    using assms(2) by (auto simp: follows_value_def is_digit_def split: list.splits)
  moreover have "\<forall>c \<in> set ds. is_digit c" using assms(1) by (simp add: list_all_iff)
  ultimately show ?thesis by (simp add: span_digits_def takeWhile_append2 dropWhile_append2)
qed

lemma hd_show_nat: "n \<noteq> 0 \<Longrightarrow> hd (show_nat n) \<noteq> CHR ''0''"
proof (induction n rule: show_nat.induct)
  case (1 n)
  show ?case
  proof (cases "n < 10")
    case True
    have "digit_val (digit_char n) = n" using True by (simp add: digit_char_simps)
    with "1.prems" have "digit_char n \<noteq> CHR ''0''" by (auto simp: digit_val_def)
    with True show ?thesis by (subst show_nat.simps) simp
  next
    case False
    with 1 have "hd (show_nat (n div 10)) \<noteq> CHR ''0''" by simp
    with False show ?thesis by (subst show_nat.simps) simp
  qed
qed

lemma lex_unsigned_show_nat:
  assumes "follows_value rest"
  shows "lex_unsigned (show_nat n @ rest) = Some (show_nat n, rest)"
proof -
  obtain r rs where r: "rest = r # rs" "r = CHR '','' \<or> r = CHR ''}''"
    using assms by (auto simp: follows_value_def split: list.splits)
  have "lex_int (show_nat n @ rest) = Some (show_nat n, rest)"
  proof (cases "n = 0")
    case True
    then have "show_nat n = ''0''" by (simp add: show_nat.simps digit_char_def char_of_eq_iff)
    then show ?thesis by (simp add: lex_int_def)
  next
    case False
    obtain c cs where c: "show_nat n = c # cs" using show_nat_not_Nil by (cases "show_nat n") auto
    with show_nat_digits [of n] hd_show_nat [OF False] have "is_digit c" "c \<noteq> CHR ''0''" by auto
    then show ?thesis
      using span_digits_append [OF show_nat_digits assms, of n] by (simp add: lex_int_def c)
  qed
  then show ?thesis using r by (auto simp: lex_unsigned_def lex_frac_def lex_exp_def)
qed

lemma lex_token_number:
  assumes "is_digit c \<or> c = CHR ''-''"
  shows "lex_token (c # cs) = map_option (\<lambda>(t, rest). (TNum t, rest)) (lex_number (c # cs))"
    and "\<not> is_space c"
proof -
  have c: "c \<notin> set (dquote # ''{}[]:,ntf'')"
    using assms by (auto simp: is_digit_def)
  then show "lex_token (c # cs) = map_option (\<lambda>(t, rest). (TNum t, rest)) (lex_number (c # cs))"
    by (simp add: lex_token_def starts_with_def)
  show "\<not> is_space c" using assms by (auto simp: is_digit_def is_space_def)
qed

lemma lex_number_show_int:
  assumes "follows_value rest"
  shows "lex_number (show_int i @ rest) = Some (show_int i, rest)"
proof (cases "i < 0")
  case True
  then show ?thesis using lex_unsigned_show_nat [OF assms] by (simp add: show_int_def lex_number_def)
next
  case False
  obtain c cs where c: "show_nat (nat i) = c # cs" using show_nat_not_Nil by (cases "show_nat (nat i)") auto
  with show_nat_digits [of "nat i"] have "is_digit c" by simp
  then have "c \<noteq> CHR ''-''" by (auto simp: is_digit_def)
  then show ?thesis
    using False lex_unsigned_show_nat [OF assms, of "nat i"] by (simp add: show_int_def lex_number_def c)
qed

lemma encodes_int: "encodes (enc_int i) (JNum (show_int i))"
proof -
  have hd: "\<exists>c cs. show_int i = c # cs \<and> (is_digit c \<or> c = CHR ''-'')"
    using show_nat_digits [of "nat i"] show_nat_not_Nil [of "nat i"]
    by (cases "show_nat (nat i)") (auto simp: show_int_def)
  have "lex (show_int i @ rest) = map_option ((#) (TNum (show_int i))) (lex rest)" if "follows_value rest" for rest
  proof -
    obtain c cs where c: "show_int i = c # cs" "is_digit c \<or> c = CHR ''-''" using hd by blast
    have "lex_token (c # cs @ rest) = Some (TNum (show_int i), rest)"
      using lex_number_show_int [OF that, of i] lex_token_number(1) [OF c(2)] by (simp add: c(1))
    then show ?thesis using lex_token_number(2) [OF c(2)] by (simp add: c(1) lex_step)
  qed
  then show ?thesis by (auto simp: encodes_def lexes_as_def enc_int_def intro!: exI [of _ "TNum (show_int i)"])
qed

text \<open>Reading back a printed struct whose values are scalars gives its members.\<close>

lemma json_run_fields:
  assumes "list_all2 (\<lambda>(k, txt) (k', v). k' = k \<and> valid_utf8 k \<and> encodes txt v) fs ms" and "fs \<noteq> []"
  shows "\<exists>ts. lex (json_fields fs @ ''}'') = Some ts
    \<and> (\<forall>acc. json_run (BeginKey [] acc) ts = Some (Done (JObj (acc @ ms))))
    \<and> json_run (BeginKeyOrEnd []) ts = Some (Done (JObj ms))"
  using assms
proof (induction fs arbitrary: ms)
  case (Cons f fs)
  obtain k x where f: "f = (k, x)" by fastforce
  from Cons.prems(1) obtain v ms' where ms: "ms = (k, v) # ms'" and v: "valid_utf8 k" "encodes x v"
    and rest: "list_all2 (\<lambda>(k, txt) (k', v). k' = k \<and> valid_utf8 k \<and> encodes txt v) fs ms'"
    by (auto simp: f list_all2_Cons1)
  from v(2) obtain t where t: "lexes_as x t" "scalar t = Some v" by (auto simp: encodes_def)
  have bv: "begin_value fr t = Some (complete v fr)" for fr using t(2) by (cases t) auto
  show ?case
  proof (cases fs)
    case Nil
    have "follows_value ''}''" by (simp add: follows_value_def)
    with t(1) have "lex (x @ ''}'') = Some [t, TObjClose]" by (simp add: lexes_as_def)
    with Nil rest v show ?thesis by (simp add: f ms lex_quote_string bv)
  next
    case (Cons f' fs')
    with Cons.IH [OF rest] obtain ts where ts: "lex (json_fields fs @ ''}'') = Some ts"
      "\<And>acc. json_run (BeginKey [] acc) ts = Some (Done (JObj (acc @ ms')))" by auto
    have "follows_value ('','' @ json_fields fs @ ''}'')" by (simp add: follows_value_def)
    with t(1) ts(1) have "lex (x @ '','' @ json_fields fs @ ''}'') = Some (t # TComma # ts)"
      by (simp add: lexes_as_def)
    moreover have "json_fields (f # fs) = quote_string k @ '':'' @ x @ '','' @ json_fields fs"
      by (simp add: f Cons)
    ultimately show ?thesis using v(1) ts(2) by (simp add: ms lex_quote_string bv)
  qed
qed simp

lemma json_parse_object:
  assumes "list_all2 (\<lambda>(k, txt) (k', v). k' = k \<and> valid_utf8 k \<and> encodes txt v) fs ms" and "fs \<noteq> []"
  shows "json_parse (json_object fs) = Some (JObj ms)"
proof -
  obtain ts where "lex (json_fields fs @ ''}'') = Some ts" "json_run (BeginKeyOrEnd []) ts = Some (Done (JObj ms))"
    using json_run_fields [OF assms] by blast
  then show ?thesis by (simp add: json_parse_def json_object_def max_nesting_depth_def)
qed

end
