(* ===== verification/GcsStore.thy ===== *)
theory GcsStore
  imports MemoryStore GoJson
begin

text \<open>
  The store of internal/storage/gcs.go: the same two maps, saved as two JSON objects of a named
  bucket after each creation and loaded from them at the start. The GCS client and
  protojson are outside this repository: the client's answers come from an oracle that may
  let any call fail, and the marshallers are parameters.
\<close>


section \<open>The bucket and its client\<close>

text \<open>
  An object is known by its bucket and its path. A call to the client fails when the oracle
  gives a fault for it: an error, and what an upload of some data that failed left as the
  object, if it changed it. An upload that does not fail replaces the object when its writer is closed.
\<close>

type_synonym object_name = "string \<times> string"

datatype gcs_fault = GcsFault (fault_error: go_error) (fault_left: "bytes \<Rightarrow> bytes option")

record gcs_world = store_world +
  objects :: "(object_name, bytes) gomap"
  gcs_calls :: nat
  gcs_faults :: "nat \<Rightarrow> gcs_fault option"

text \<open>
  The library the store is built on: the error of \<open>NewReader\<close> for an object that does not
  exist, the marshallers of protojson and the conversions of timestamppb.
\<close>

record gcs_lib =
  not_exist :: go_error
  marshal_producers :: "producers_file \<Rightarrow> go_error + bytes"
  unmarshal_producers :: "bytes \<Rightarrow> go_error + producers_file"
  marshal_job_types :: "job_types_file \<Rightarrow> go_error + bytes"
  unmarshal_job_types :: "bytes \<Rightarrow> go_error + job_types_file"
  gcs_pb :: timestamppb

definition gcs_call :: "('a gcs_world_scheme, gcs_fault option) state" where
  "gcs_call = State (\<lambda>w. (gcs_faults w (gcs_calls w), w\<lparr>gcs_calls := Suc (gcs_calls w)\<rparr>))"

definition put_object :: "object_name \<Rightarrow> bytes \<Rightarrow> ('a gcs_world_scheme, unit) state" where
  "put_object path data = State (\<lambda>w. ((), w\<lparr>objects := AList.update path data (objects w)\<rparr>))"

text \<open>\<open>obj.NewReader\<close>, \<open>io.ReadAll\<close>, \<open>writer.Write\<close> and \<open>writer.Close\<close>.\<close>

definition new_reader :: "gcs_lib \<Rightarrow> object_name \<Rightarrow> ('a gcs_world_scheme, go_error + bytes) state" where
  "new_reader lib path = do {
     fault \<leftarrow> gcs_call;
     stored \<leftarrow> read_world objects;
     ret (case fault of Some f \<Rightarrow> Inl (fault_error f)
          | None \<Rightarrow> (case map_of stored path of None \<Rightarrow> Inl (not_exist lib) | Some data \<Rightarrow> Inr data)) }"

definition read_all :: "bytes \<Rightarrow> ('a gcs_world_scheme, go_error + bytes) state" where
  "read_all content = do {
     fault \<leftarrow> gcs_call;
     ret (case fault of Some f \<Rightarrow> Inl (fault_error f) | None \<Rightarrow> Inr content) }"

definition upload_step :: "object_name \<Rightarrow> bytes \<Rightarrow> ('a gcs_world_scheme, go_error option) state" where
  "upload_step path data = do {
     fault \<leftarrow> gcs_call;
     case fault of None \<Rightarrow> ret None
     | Some f \<Rightarrow> do {
         (case fault_left f data of None \<Rightarrow> ret () | Some left \<Rightarrow> put_object path left);
         ret (Some (fault_error f)) } }"

definition writer_write :: "object_name \<Rightarrow> bytes \<Rightarrow> ('a gcs_world_scheme, go_error option) state" where
  "writer_write path data = upload_step path data"

definition writer_close :: "object_name \<Rightarrow> bytes \<Rightarrow> ('a gcs_world_scheme, go_error option) state" where
  "writer_close path data = do {
     e \<leftarrow> upload_step path data;
     case e of Some e \<Rightarrow> ret (Some e)
     | None \<Rightarrow> do { put_object path data; ret None } }"

text \<open>Closing a writer whose \<open>Write\<close> failed; the code drops its error.\<close>

definition writer_close_failed :: "object_name \<Rightarrow> bytes \<Rightarrow> ('a gcs_world_scheme, unit) state" where
  "writer_close_failed path data = do { e \<leftarrow> upload_step path data; ret () }"


section \<open>Loading and saving\<close>

definition producersFile :: string where "producersFile = ''producers.json''"
definition jobTypesFile :: string where "jobTypesFile = ''job_types.json''"

text \<open>Where a store keeps its objects; both fields of \<open>GCSConfig\<close> are kept in the store.\<close>

record gcs_config =
  gcs_Bucket :: string
  gcs_Prefix :: string

definition objectPath :: "gcs_config \<Rightarrow> string \<Rightarrow> string" where
  "objectPath gc name = (if gcs_Prefix gc = '''' then name else gcs_Prefix gc @ ''/'' @ name)"

text \<open>\<open>s.client.Bucket(s.bucket).Object(s.objectPath(name))\<close>\<close>

definition object_handle :: "gcs_config \<Rightarrow> string \<Rightarrow> object_name" where
  "object_handle gc name = (gcs_Bucket gc, objectPath gc name)"

definition loadProducers :: "gcs_lib \<Rightarrow> gcs_config \<Rightarrow> ('a gcs_world_scheme, go_error + producer list) state" where
  "loadProducers lib gc = do {
     reader \<leftarrow> new_reader lib (object_handle gc producersFile);
     case reader of
       Inl e \<Rightarrow> ret (if e = Sentinel ErrObjectNotExist then Inr [] else Inl (wrap_error ''failed to read producers'' e))
     | Inr content \<Rightarrow> do {
         data \<leftarrow> read_all content;
         case data of
           Inl e \<Rightarrow> ret (Inl (wrap_error ''failed to read producers data'' e))
         | Inr data \<Rightarrow>
             ret (case unmarshal_producers lib data of
                Inl e \<Rightarrow> Inl (wrap_error ''failed to parse producers'' e)
              | Inr file \<Rightarrow> Inr (producers_file_Producers file)) } }"

definition loadJobTypes :: "gcs_lib \<Rightarrow> gcs_config \<Rightarrow> ('a gcs_world_scheme, go_error + job_type list) state" where
  "loadJobTypes lib gc = do {
     reader \<leftarrow> new_reader lib (object_handle gc jobTypesFile);
     case reader of
       Inl e \<Rightarrow> ret (if e = Sentinel ErrObjectNotExist then Inr [] else Inl (wrap_error ''failed to read job types'' e))
     | Inr content \<Rightarrow> do {
         data \<leftarrow> read_all content;
         case data of
           Inl e \<Rightarrow> ret (Inl (wrap_error ''failed to read job types data'' e))
         | Inr data \<Rightarrow>
             ret (case unmarshal_job_types lib data of
                Inl e \<Rightarrow> Inl (wrap_error ''failed to parse job types'' e)
              | Inr file \<Rightarrow> Inr (job_types_file_JobTypes file)) } }"

definition index_producers :: "producer list \<Rightarrow> (string, producer) gomap" where
  "index_producers ps = foldl (\<lambda>m p. AList.update (producer_ProducerId p) p m) [] ps"

definition index_job_types :: "job_type list \<Rightarrow> (string, job_type) gomap" where
  "index_job_types js = foldl (\<lambda>m j. AList.update (jobTypeKey (job_type_ProducerId j) (job_type_Name j)) j m) [] js"

definition load :: "gcs_lib \<Rightarrow> gcs_config \<Rightarrow> ('a gcs_world_scheme, go_error option) state" where
  "load lib gc = do {
     prods \<leftarrow> loadProducers lib gc;
     case prods of
       Inl e \<Rightarrow> ret (Some e)
     | Inr ps \<Rightarrow> do {
         types \<leftarrow> loadJobTypes lib gc;
         case types of
           Inl e \<Rightarrow> ret (Some e)
         | Inr js \<Rightarrow> do {
             set_producers (index_producers ps);
             set_jobTypes (index_job_types js);
             ret None } } }"

text \<open>Creating the client may fail; then nothing is loaded.\<close>

definition NewGCSStore :: "gcs_lib \<Rightarrow> gcs_config \<Rightarrow> go_error option \<Rightarrow> ('a gcs_world_scheme, go_error option) state" where
  "NewGCSStore lib gc client_error =
     (case client_error of
        Some e \<Rightarrow> ret (Some (wrap_error ''failed to create GCS client'' e))
      | None \<Rightarrow> do {
          set_producers [];
          set_jobTypes [];
          e \<leftarrow> load lib gc;
          ret (map_option (wrap_error ''failed to load data'') e) })"

definition saveProducers :: "gcs_lib \<Rightarrow> gcs_config \<Rightarrow> ('a gcs_world_scheme, go_error option) state" where
  "saveProducers lib gc = do {
     m \<leftarrow> read_world producers;
     entries \<leftarrow> any_order m;
     case marshal_producers lib \<lparr>producers_file_Producers = map snd entries\<rparr> of
       Inl e \<Rightarrow> ret (Some (wrap_error ''failed to marshal producers'' e))
     | Inr data \<Rightarrow> do {
         let path = object_handle gc producersFile;
         we \<leftarrow> writer_write path data;
         case we of
           Some e \<Rightarrow> do {
             writer_close_failed path data;
             ret (Some (wrap_error ''failed to write producers'' e)) }
         | None \<Rightarrow> do {
             ce \<leftarrow> writer_close path data;
             ret (map_option (wrap_error ''failed to close producers writer'') ce) } } }"

definition saveJobTypes :: "gcs_lib \<Rightarrow> gcs_config \<Rightarrow> ('a gcs_world_scheme, go_error option) state" where
  "saveJobTypes lib gc = do {
     m \<leftarrow> read_world jobTypes;
     entries \<leftarrow> any_order m;
     case marshal_job_types lib \<lparr>job_types_file_JobTypes = map snd entries\<rparr> of
       Inl e \<Rightarrow> ret (Some (wrap_error ''failed to marshal job types'' e))
     | Inr data \<Rightarrow> do {
         let path = object_handle gc jobTypesFile;
         we \<leftarrow> writer_write path data;
         case we of
           Some e \<Rightarrow> do {
             writer_close_failed path data;
             ret (Some (wrap_error ''failed to write job types'' e)) }
         | None \<Rightarrow> do {
             ce \<leftarrow> writer_close path data;
             ret (map_option (wrap_error ''failed to close job types writer'') ce) } } }"


section \<open>Operations\<close>

definition GCSStore_CreateProducer ::
    "gcs_lib \<Rightarrow> gcs_config \<Rightarrow> producer \<Rightarrow> ('a gcs_world_scheme, producer \<times> go_error option) state" where
  "GCSStore_CreateProducer lib gc p = do {
     m \<leftarrow> read_world producers;
     if map_of m (producer_ProducerId p) \<noteq> None
     then ret (p, Some (already_exists_producer (producer_ProducerId p)))
     else do {
       now \<leftarrow> timestamp_now (gcs_pb lib);
       let p' = p\<lparr>producer_CreatedAt := Some now, producer_UpdatedAt := Some now\<rparr>;
       set_producers (AList.update (producer_ProducerId p) p' m);
       e \<leftarrow> saveProducers lib gc;
       case e of
         Some e \<Rightarrow> do {
           m \<leftarrow> read_world producers;
           set_producers (AList.delete (producer_ProducerId p) m);
           ret (p', Some e) }
       | None \<Rightarrow> ret (p', None) } }"

definition GCSStore_GetProducer :: "string \<Rightarrow> ('a gcs_world_scheme, go_error + producer) state" where
  "GCSStore_GetProducer producerID = do {
     m \<leftarrow> read_world producers;
     case map_of m producerID of
       None \<Rightarrow> ret (Inl (not_found_producer producerID))
     | Some p \<Rightarrow> ret (Inr p) }"

definition GCSStore_ListProducers :: "('a gcs_world_scheme, go_error + producer list) state" where
  "GCSStore_ListProducers = do {
     m \<leftarrow> read_world producers;
     entries \<leftarrow> any_order m;
     ret (Inr (map snd entries)) }"

definition GCSStore_CreateJobType ::
    "gcs_lib \<Rightarrow> gcs_config \<Rightarrow> job_type \<Rightarrow> ('a gcs_world_scheme, job_type \<times> go_error option) state" where
  "GCSStore_CreateJobType lib gc j = do {
     ps \<leftarrow> read_world producers;
     if map_of ps (job_type_ProducerId j) = None
     then ret (j, Some (not_found_producer (job_type_ProducerId j)))
     else do {
       let key = jobTypeKey (job_type_ProducerId j) (job_type_Name j);
       m \<leftarrow> read_world jobTypes;
       if map_of m key \<noteq> None
       then ret (j, Some (already_exists_job_type (job_type_Name j) (job_type_ProducerId j)))
       else do {
         now \<leftarrow> timestamp_now (gcs_pb lib);
         let j' = j\<lparr>job_type_CreatedAt := Some now, job_type_UpdatedAt := Some now\<rparr>;
         set_jobTypes (AList.update key j' m);
         e \<leftarrow> saveJobTypes lib gc;
         case e of
           Some e \<Rightarrow> do {
             m \<leftarrow> read_world jobTypes;
             set_jobTypes (AList.delete key m);
             ret (j', Some e) }
         | None \<Rightarrow> ret (j', None) } } }"

definition GCSStore_GetJobType :: "string \<Rightarrow> string \<Rightarrow> ('a gcs_world_scheme, go_error + job_type) state" where
  "GCSStore_GetJobType producerID jobTypeName = do {
     m \<leftarrow> read_world jobTypes;
     case map_of m (jobTypeKey producerID jobTypeName) of
       None \<Rightarrow> ret (Inl (not_found_job_type jobTypeName producerID))
     | Some j \<Rightarrow> ret (Inr j) }"

definition GCSStore_ListJobTypes :: "string \<Rightarrow> ('a gcs_world_scheme, go_error + job_type list) state" where
  "GCSStore_ListJobTypes producerID = do {
     m \<leftarrow> read_world jobTypes;
     entries \<leftarrow> any_order m;
     ret (Inr (filter (\<lambda>j. job_type_ProducerId j = producerID) (map snd entries))) }"

text \<open>\<open>client.Close\<close>: its error, if the oracle gives one.\<close>

definition GCSStore_Close :: "('a gcs_world_scheme, go_error option) state" where
  "GCSStore_Close = do { fault \<leftarrow> gcs_call; ret (map_option fault_error fault) }"

definition gcs_store :: "gcs_lib \<Rightarrow> gcs_config \<Rightarrow> 'a gcs_world_scheme store" where
  "gcs_store lib gc = \<lparr>
     store_CreateProducer = GCSStore_CreateProducer lib gc,
     store_GetProducer = GCSStore_GetProducer,
     store_ListProducers = GCSStore_ListProducers,
     store_CreateJobType = GCSStore_CreateJobType lib gc,
     store_GetJobType = GCSStore_GetJobType,
     store_ListJobTypes = GCSStore_ListJobTypes,
     store_Close = GCSStore_Close\<rparr>"

section \<open>What a save does\<close>

definition no_faults :: "'a gcs_world_scheme \<Rightarrow> bool" where
  "no_faults w \<longleftrightarrow> (\<forall>n. gcs_faults w n = None)"

text \<open>Every fault leaves the object as it was.\<close>

definition clean_faults :: "'a gcs_world_scheme \<Rightarrow> bool" where
  "clean_faults w \<longleftrightarrow> (\<forall>n f data. gcs_faults w n = Some f \<longrightarrow> fault_left f data = None)"

text \<open>
  Cloud Storage replaces an object as a whole or not at all: an upload whose error the
  client reports has left the object as it was, or has replaced it by the new data, since
  the answer may have been lost on its way back.
\<close>

definition atomic_faults :: "'a gcs_world_scheme \<Rightarrow> bool" where
  "atomic_faults w \<longleftrightarrow> (\<forall>n f data. gcs_faults w n = Some f \<longrightarrow> fault_left f data \<in> {None, Some data})"

text \<open>No error of the client or of protojson is one of the service's own sentinels.\<close>

definition foreign_error :: "go_error \<Rightarrow> bool" where
  "foreign_error e \<longleftrightarrow> \<not> errors_is e ErrNotFound \<and> \<not> errors_is e ErrAlreadyExists"

definition foreign_errors :: "gcs_lib \<Rightarrow> 'a gcs_world_scheme \<Rightarrow> bool" where
  "foreign_errors lib w \<longleftrightarrow> (\<forall>n f. gcs_faults w n = Some f \<longrightarrow> foreign_error (fault_error f))
     \<and> (\<forall>f e. marshal_producers lib f = Inl e \<longrightarrow> foreign_error e)
     \<and> (\<forall>f e. marshal_job_types lib f = Inl e \<longrightarrow> foreign_error e)"

lemma faults_upd [simp]:
  "no_faults (w\<lparr>ticks := n\<rparr>) = no_faults w" "no_faults (w\<lparr>choice_pos := n\<rparr>) = no_faults w"
  "no_faults (w\<lparr>producers := ps\<rparr>) = no_faults w" "no_faults (w\<lparr>jobTypes := js\<rparr>) = no_faults w"
  "no_faults (w\<lparr>objects := b\<rparr>) = no_faults w" "no_faults (w\<lparr>gcs_calls := n\<rparr>) = no_faults w"
  "clean_faults (w\<lparr>ticks := n\<rparr>) = clean_faults w" "clean_faults (w\<lparr>choice_pos := n\<rparr>) = clean_faults w"
  "clean_faults (w\<lparr>producers := ps\<rparr>) = clean_faults w" "clean_faults (w\<lparr>jobTypes := js\<rparr>) = clean_faults w"
  "clean_faults (w\<lparr>objects := b\<rparr>) = clean_faults w" "clean_faults (w\<lparr>gcs_calls := n\<rparr>) = clean_faults w"
  "atomic_faults (w\<lparr>ticks := n\<rparr>) = atomic_faults w" "atomic_faults (w\<lparr>choice_pos := n\<rparr>) = atomic_faults w"
  "atomic_faults (w\<lparr>producers := ps\<rparr>) = atomic_faults w" "atomic_faults (w\<lparr>jobTypes := js\<rparr>) = atomic_faults w"
  "atomic_faults (w\<lparr>objects := b\<rparr>) = atomic_faults w" "atomic_faults (w\<lparr>gcs_calls := n\<rparr>) = atomic_faults w"
  "foreign_errors lib (w\<lparr>ticks := n\<rparr>) = foreign_errors lib w"
  "foreign_errors lib (w\<lparr>choice_pos := n\<rparr>) = foreign_errors lib w"
  "foreign_errors lib (w\<lparr>producers := ps\<rparr>) = foreign_errors lib w"
  "foreign_errors lib (w\<lparr>jobTypes := js\<rparr>) = foreign_errors lib w"
  "foreign_errors lib (w\<lparr>objects := b\<rparr>) = foreign_errors lib w"
  "foreign_errors lib (w\<lparr>gcs_calls := n\<rparr>) = foreign_errors lib w"
  by (simp_all add: no_faults_def clean_faults_def atomic_faults_def foreign_errors_def)

lemma no_faults_clean: "no_faults w \<Longrightarrow> clean_faults w"
  by (simp add: no_faults_def clean_faults_def)

lemma run_gcs_ops [simp, go_ops]:
  "run_state gcs_call w = (gcs_faults w (gcs_calls w), w\<lparr>gcs_calls := Suc (gcs_calls w)\<rparr>)"
  "run_state (put_object path data) w = ((), w\<lparr>objects := AList.update path data (objects w)\<rparr>)"
  by (simp_all add: gcs_call_def put_object_def)

lemma store_inv_gcs_upd [simp]:
  "store_inv (w\<lparr>gcs_calls := n\<rparr>) = store_inv w"
  "store_inv (w\<lparr>objects := b\<rparr>) = store_inv w"
  by (simp_all add: store_inv_def)

lemma foreign_error_wrap [simp]: "foreign_error (wrap_error t e) = foreign_error e"
  by (simp add: foreign_error_def)

text \<open>
  The outcome of a save: it touches the object, the call counter and the order it chose,
  nothing else. On success the object holds the marshalled entries in some order; on a
  failure whose faults are clean it is as it was, and on one whose faults are atomic it is
  as it was or holds the marshalled entries.
\<close>

definition saved :: "(('k \<times> 'v) list \<Rightarrow> go_error + bytes) \<Rightarrow> object_name \<Rightarrow> ('k, 'v) gomap \<Rightarrow> gcs_lib \<Rightarrow>
    'a gcs_world_scheme \<Rightarrow> go_error option \<Rightarrow> 'a gcs_world_scheme \<Rightarrow> bool" where
  "saved enc path m lib w e w' \<longleftrightarrow> (\<exists>c g b. w' = w\<lparr>choice_pos := c, gcs_calls := g, objects := b\<rparr>
     \<and> (e = None \<longrightarrow> (\<exists>s data. enc (permute s m) = Inr data \<and> b = AList.update path data (objects w)))
     \<and> (e \<noteq> None \<longrightarrow> clean_faults w \<longrightarrow> b = objects w)
     \<and> (e \<noteq> None \<longrightarrow> atomic_faults w \<longrightarrow> map_of b = map_of (objects w)
          \<or> (\<exists>s data. enc (permute s m) = Inr data \<and> map_of b = (map_of (objects w))(path \<mapsto> data)))
     \<and> (\<forall>e'. e = Some e' \<longrightarrow> foreign_errors lib w \<longrightarrow> foreign_error e')
     \<and> (no_faults w \<longrightarrow> (\<forall>s. \<exists>data. enc (permute s m) = Inr data) \<longrightarrow> e = None))"

definition left_objects :: "gcs_fault \<Rightarrow> object_name \<Rightarrow> bytes \<Rightarrow> (object_name, bytes) gomap \<Rightarrow> (object_name, bytes) gomap" where
  "left_objects f path data b = (case fault_left f data of None \<Rightarrow> b | Some left \<Rightarrow> AList.update path left b)"

lemma run_upload_step [simp]:
  "run_state (upload_step path data) w =
     (case gcs_faults w (gcs_calls w) of
        None \<Rightarrow> (None, w\<lparr>gcs_calls := Suc (gcs_calls w)\<rparr>)
      | Some f \<Rightarrow> (Some (fault_error f), w\<lparr>gcs_calls := Suc (gcs_calls w), objects := left_objects f path data (objects w)\<rparr>))"
  by (simp add: upload_step_def left_objects_def split: option.split)

lemma left_clean: "clean_faults w \<Longrightarrow> gcs_faults w n = Some f \<Longrightarrow> left_objects f path data b = b"
  by (simp add: clean_faults_def left_objects_def)

lemma left_atomic:
  assumes "atomic_faults w" and "gcs_faults w n = Some f"
  shows "map_of (left_objects f path data b) = map_of b \<or> map_of (left_objects f path data b) = (map_of b)(path \<mapsto> data)"
proof -
  have "fault_left f data = None \<or> fault_left f data = Some data" using assms by (auto simp: atomic_faults_def)
  then show ?thesis by (elim disjE) (simp_all add: left_objects_def update_conv')
qed

lemma uploaded:
  assumes "run_state (do {
      we \<leftarrow> writer_write path data;
      case we of
        Some e \<Rightarrow> do { writer_close_failed path data; ret (Some (wrap_error m1 e)) }
      | None \<Rightarrow> do { ce \<leftarrow> writer_close path data; ret (map_option (wrap_error m2) ce) } }) w = (e, w')"
  obtains g b where "w' = w\<lparr>gcs_calls := g, objects := b\<rparr>"
    and "e = None \<Longrightarrow> b = AList.update path data (objects w)"
    and "e \<noteq> None \<Longrightarrow> clean_faults w \<Longrightarrow> b = objects w"
    and "e \<noteq> None \<Longrightarrow> atomic_faults w \<Longrightarrow> map_of b = map_of (objects w) \<or> map_of b = (map_of (objects w))(path \<mapsto> data)"
    and "\<And>e'. e = Some e' \<Longrightarrow> foreign_errors lib w \<Longrightarrow> foreign_error e'"
    and "no_faults w \<Longrightarrow> e = None"
proof (cases "gcs_faults w (gcs_calls w)")
  case None
  show ?thesis
  proof (cases "gcs_faults w (Suc (gcs_calls w))")
    case n: None
    have "e = None" "w' = w\<lparr>gcs_calls := Suc (Suc (gcs_calls w)), objects := AList.update path data (objects w)\<rparr>"
      using assms None n by (auto simp: writer_write_def writer_close_def)
    then show ?thesis by (intro that) simp_all
  next
    case (Some f)
    have "e = Some (wrap_error m2 (fault_error f))"
      "w' = w\<lparr>gcs_calls := Suc (Suc (gcs_calls w)), objects := left_objects f path data (objects w)\<rparr>"
      using assms None Some by (auto simp: writer_write_def writer_close_def)
    then show ?thesis using Some left_clean [OF _ Some] left_atomic [OF _ Some]
      by (intro that [where g = "Suc (Suc (gcs_calls w))" and b = "left_objects f path data (objects w)"])
        (auto simp: foreign_errors_def no_faults_def)
  qed
next
  case (Some f)
  let ?b = "left_objects f path data (objects w)"
  let ?b' = "case gcs_faults w (Suc (gcs_calls w)) of None \<Rightarrow> ?b | Some f \<Rightarrow> left_objects f path data ?b"
  have run: "e = Some (wrap_error m1 (fault_error f))" "w' = w\<lparr>gcs_calls := Suc (Suc (gcs_calls w)), objects := ?b'\<rparr>"
    using assms Some by (auto simp: writer_write_def writer_close_failed_def split: option.splits)
  have "clean_faults w \<Longrightarrow> ?b' = objects w"
    using left_clean [OF _ Some, of path data "objects w"] left_clean [of w "Suc (gcs_calls w)" _ path data "?b"]
    by (simp split: option.split)
  moreover have "map_of ?b' = map_of (objects w) \<or> map_of ?b' = (map_of (objects w))(path \<mapsto> data)" if "atomic_faults w"
    using left_atomic [OF that Some, of path data "objects w"] left_atomic [OF that, of "Suc (gcs_calls w)" _ path data ?b]
    by (auto split: option.split)
  ultimately show ?thesis using Some run
    by (intro that [where g = "Suc (Suc (gcs_calls w))" and b = ?b']) (simp_all add: foreign_errors_def no_faults_def)
qed

lemma saved_saveProducers:
  assumes "run_state (saveProducers lib gc) w = (e, w')"
  shows "saved (\<lambda>es. marshal_producers lib \<lparr>producers_file_Producers = map snd es\<rparr>)
    (object_handle gc producersFile) (producers w) lib w e w'"
proof (cases "marshal_producers lib \<lparr>producers_file_Producers = map snd (permute (choice w (choice_pos w)) (producers w))\<rparr>")
  case (Inl err)
  let ?w = "w\<lparr>choice_pos := Suc (choice_pos w)\<rparr>"
  have "e = Some (wrap_error ''failed to marshal producers'' err)" "w' = ?w\<lparr>gcs_calls := gcs_calls w, objects := objects w\<rparr>"
    using assms Inl by (auto simp: saveProducers_def)
  then show ?thesis unfolding saved_def using Inl
    by (intro exI [of _ "Suc (choice_pos w)"] exI [of _ "gcs_calls w"] exI [of _ "objects w"] conjI)
      (auto simp: foreign_errors_def intro!: exI [of _ "choice w (choice_pos w)"])
next
  case (Inr data)
  let ?w = "w\<lparr>choice_pos := Suc (choice_pos w)\<rparr>"
  have run: "run_state (do {
      we \<leftarrow> writer_write (object_handle gc producersFile) data;
      case we of
        Some e \<Rightarrow> do { writer_close_failed (object_handle gc producersFile) data;
          ret (Some (wrap_error ''failed to write producers'' e)) }
      | None \<Rightarrow> do { ce \<leftarrow> writer_close (object_handle gc producersFile) data;
          ret (map_option (wrap_error ''failed to close producers writer'') ce) } }) ?w = (e, w')"
    using assms Inr by (simp add: saveProducers_def Let_def)
  show ?thesis
    by (rule uploaded [OF run, where lib = lib], unfold saved_def,
        intro exI [of _ "Suc (choice_pos w)"] exI conjI, assumption)
      (use Inr in auto)
qed

lemma saved_saveJobTypes:
  assumes "run_state (saveJobTypes lib gc) w = (e, w')"
  shows "saved (\<lambda>es. marshal_job_types lib \<lparr>job_types_file_JobTypes = map snd es\<rparr>)
    (object_handle gc jobTypesFile) (jobTypes w) lib w e w'"
proof (cases "marshal_job_types lib \<lparr>job_types_file_JobTypes = map snd (permute (choice w (choice_pos w)) (jobTypes w))\<rparr>")
  case (Inl err)
  let ?w = "w\<lparr>choice_pos := Suc (choice_pos w)\<rparr>"
  have "e = Some (wrap_error ''failed to marshal job types'' err)" "w' = ?w\<lparr>gcs_calls := gcs_calls w, objects := objects w\<rparr>"
    using assms Inl by (auto simp: saveJobTypes_def)
  then show ?thesis unfolding saved_def using Inl
    by (intro exI [of _ "Suc (choice_pos w)"] exI [of _ "gcs_calls w"] exI [of _ "objects w"] conjI)
      (auto simp: foreign_errors_def intro!: exI [of _ "choice w (choice_pos w)"])
next
  case (Inr data)
  let ?w = "w\<lparr>choice_pos := Suc (choice_pos w)\<rparr>"
  have run: "run_state (do {
      we \<leftarrow> writer_write (object_handle gc jobTypesFile) data;
      case we of
        Some e \<Rightarrow> do { writer_close_failed (object_handle gc jobTypesFile) data;
          ret (Some (wrap_error ''failed to write job types'' e)) }
      | None \<Rightarrow> do { ce \<leftarrow> writer_close (object_handle gc jobTypesFile) data;
          ret (map_option (wrap_error ''failed to close job types writer'') ce) } }) ?w = (e, w')"
    using assms Inr by (simp add: saveJobTypes_def Let_def)
  show ?thesis
    by (rule uploaded [OF run, where lib = lib], unfold saved_def,
        intro exI [of _ "Suc (choice_pos w)"] exI conjI, assumption)
      (use Inr in auto)
qed

section \<open>Outcomes of a creation\<close>

text \<open>
  A creation under a free key saves the extended map and, when that fails, ends with
  exactly the map it started from.
\<close>

lemma GCSStore_CreateProducer_outcome:
  assumes "run_state (GCSStore_CreateProducer lib gc p) w = ((p', e), w')"
    and "map_of (producers w) (producer_ProducerId p) = None"
  obtains w1 w2 where "p' = stamped_producer p (ts_new (gcs_pb lib) (clock w (ticks w)))"
    and "w1 = w\<lparr>ticks := Suc (ticks w), producers := AList.update (producer_ProducerId p) p' (producers w)\<rparr>"
    and "saved (\<lambda>es. marshal_producers lib \<lparr>producers_file_Producers = map snd es\<rparr>)
      (object_handle gc producersFile) (producers w1) lib w1 e w2"
    and "w' = (if e = None then w2 else w2\<lparr>producers := producers w\<rparr>)"
proof -
  define q where "q = stamped_producer p (ts_new (gcs_pb lib) (clock w (ticks w)))"
  define w1 where "w1 = w\<lparr>ticks := Suc (ticks w), producers := AList.update (producer_ProducerId p) q (producers w)\<rparr>"
  obtain e2 w2 where s: "run_state (saveProducers lib gc) w1 = (e2, w2)" by fastforce
  note sv = saved_saveProducers [OF s]
  then have "producers w2 = producers w1" by (auto simp: saved_def)
  then have "AList.delete (producer_ProducerId p) (producers w2) = producers w"
    using assms(2) by (simp add: w1_def delete_update_new)
  with assms s have "p' = q \<and> e = e2 \<and> w' = (if e2 = None then w2 else w2\<lparr>producers := producers w\<rparr>)"
    by (cases e2) (auto simp: GCSStore_CreateProducer_def timestamp_now_def Let_def q_def stamped_producer_def w1_def)
  with sv show ?thesis by (intro that [of w1 w2]) (auto simp: q_def w1_def)
qed

lemma GCSStore_CreateJobType_outcome:
  assumes "run_state (GCSStore_CreateJobType lib gc j) w = ((j', e), w')"
    and "map_of (producers w) (job_type_ProducerId j) \<noteq> None"
    and "map_of (jobTypes w) (job_type_key j) = None"
  obtains w1 w2 where "j' = stamped_job_type j (ts_new (gcs_pb lib) (clock w (ticks w)))"
    and "w1 = w\<lparr>ticks := Suc (ticks w), jobTypes := AList.update (job_type_key j) j' (jobTypes w)\<rparr>"
    and "saved (\<lambda>es. marshal_job_types lib \<lparr>job_types_file_JobTypes = map snd es\<rparr>)
      (object_handle gc jobTypesFile) (jobTypes w1) lib w1 e w2"
    and "w' = (if e = None then w2 else w2\<lparr>jobTypes := jobTypes w\<rparr>)"
proof -
  define q where "q = stamped_job_type j (ts_new (gcs_pb lib) (clock w (ticks w)))"
  define w1 where "w1 = w\<lparr>ticks := Suc (ticks w), jobTypes := AList.update (job_type_key j) q (jobTypes w)\<rparr>"
  obtain e2 w2 where s: "run_state (saveJobTypes lib gc) w1 = (e2, w2)" by fastforce
  note sv = saved_saveJobTypes [OF s]
  then have "jobTypes w2 = jobTypes w1" by (auto simp: saved_def)
  then have "AList.delete (job_type_key j) (jobTypes w2) = jobTypes w"
    using assms(3) by (simp add: w1_def delete_update_new)
  with assms s have "j' = q \<and> e = e2 \<and> w' = (if e2 = None then w2 else w2\<lparr>jobTypes := jobTypes w\<rparr>)"
    by (cases e2) (auto simp: GCSStore_CreateJobType_def timestamp_now_def Let_def q_def stamped_job_type_def w1_def job_type_key_def)
  with sv show ?thesis by (intro that [of w1 w2]) (auto simp: q_def w1_def)
qed

lemma run_GCSStore_taken:
  "map_of (producers w) (producer_ProducerId p) \<noteq> None \<Longrightarrow>
     run_state (GCSStore_CreateProducer lib gc p) w = ((p, Some (already_exists_producer (producer_ProducerId p))), w)"
  "map_of (producers w) (job_type_ProducerId j) = None \<Longrightarrow>
     run_state (GCSStore_CreateJobType lib gc j) w = ((j, Some (not_found_producer (job_type_ProducerId j))), w)"
  "map_of (producers w) (job_type_ProducerId j) \<noteq> None \<Longrightarrow> map_of (jobTypes w) (job_type_key j) \<noteq> None \<Longrightarrow>
     run_state (GCSStore_CreateJobType lib gc j) w
       = ((j, Some (already_exists_job_type (job_type_Name j) (job_type_ProducerId j))), w)"
  by (auto simp: GCSStore_CreateProducer_def GCSStore_CreateJobType_def job_type_key_def Let_def)

text \<open>The operations that only read are those of the in-memory store.\<close>

lemma run_GCSStore_reads:
  "run_state (GCSStore_GetProducer i) w = run_state (MemoryStore_GetProducer i) w"
  "run_state GCSStore_ListProducers w = run_state MemoryStore_ListProducers w"
  "run_state (GCSStore_GetJobType i n) w = run_state (MemoryStore_GetJobType i n) w"
  "run_state (GCSStore_ListJobTypes i) w = run_state (MemoryStore_ListJobTypes i) w"
  by (simp_all add: GCSStore_GetProducer_def GCSStore_ListProducers_def GCSStore_GetJobType_def GCSStore_ListJobTypes_def
      MemoryStore_GetProducer_def MemoryStore_ListProducers_def MemoryStore_GetJobType_def MemoryStore_ListJobTypes_def)


section \<open>The contract\<close>

definition gcs_inv :: "gcs_lib \<Rightarrow> 'a gcs_world_scheme \<Rightarrow> bool" where
  "gcs_inv lib w \<longleftrightarrow> store_inv w \<and> foreign_errors lib w"

lemma gcs_inv_upd [simp]:
  "gcs_inv lib (w\<lparr>choice_pos := n\<rparr>) = gcs_inv lib w"
  by (simp add: gcs_inv_def)

lemma gcs_create_producer:
  assumes inv: "gcs_inv lib w" and run: "run_state (GCSStore_CreateProducer lib gc p) w = ((p', e), w')"
  shows "gcs_inv lib w' \<and> map_of (jobTypes w') = map_of (jobTypes w) \<and>
      (case e of
         None \<Rightarrow> map_of (producers w) (producer_ProducerId p) = None \<and> (\<exists>t. p' = stamped_producer p t)
           \<and> map_of (producers w') = (map_of (producers w))(producer_ProducerId p \<mapsto> p')
       | Some e \<Rightarrow> map_of (producers w') = map_of (producers w) \<and> \<not> errors_is e ErrNotFound
           \<and> (errors_is e ErrAlreadyExists \<longleftrightarrow> map_of (producers w) (producer_ProducerId p) \<noteq> None))"
proof (cases "map_of (producers w) (producer_ProducerId p)")
  case None
  from GCSStore_CreateProducer_outcome [OF run None] obtain w1 w2
    where p': "p' = stamped_producer p (ts_new (gcs_pb lib) (clock w (ticks w)))"
      and w1: "w1 = w\<lparr>ticks := Suc (ticks w), producers := AList.update (producer_ProducerId p) p' (producers w)\<rparr>"
      and sv: "saved (\<lambda>es. marshal_producers lib \<lparr>producers_file_Producers = map snd es\<rparr>)
        (object_handle gc producersFile) (producers w1) lib w1 e w2"
      and w': "w' = (if e = None then w2 else w2\<lparr>producers := producers w\<rparr>)" .
  have i1: "store_inv w1"
    using store_inv_add_producer [of "w\<lparr>ticks := Suc (ticks w)\<rparr>" p'] inv None by (simp add: w1 p' gcs_inv_def)
  have f1: "foreign_errors lib w1" using inv by (simp add: w1 gcs_inv_def)
  obtain c g b where w2: "w2 = w1\<lparr>choice_pos := c, gcs_calls := g, objects := b\<rparr>" using sv by (auto simp: saved_def)
  have fe: "foreign_error e'" if "e = Some e'" for e' using sv f1 that by (auto simp: saved_def)
  have i2: "store_inv (w2\<lparr>producers := producers w\<rparr>)" using inv by (simp add: store_inv_def gcs_inv_def w2 w1)
  show ?thesis
  proof (cases e)
    case N: None
    then show ?thesis using i1 f1 None by (simp add: w' w2 gcs_inv_def) (auto simp: w1 p' update_conv')
  next
    case (Some e')
    then show ?thesis using i2 f1 None fe [OF Some] by (auto simp: w' w2 w1 gcs_inv_def foreign_error_def)
  qed
next
  case (Some q)
  then have "map_of (producers w) (producer_ProducerId p) \<noteq> None" by simp
  from run_GCSStore_taken(1) [OF this] run Some inv show ?thesis by auto
qed

lemma gcs_create_job_type:
  assumes inv: "gcs_inv lib w" and run: "run_state (GCSStore_CreateJobType lib gc j) w = ((j', e), w')"
  shows "gcs_inv lib w' \<and> map_of (producers w') = map_of (producers w) \<and>
      (case e of
         None \<Rightarrow> map_of (producers w) (job_type_ProducerId j) \<noteq> None \<and> map_of (jobTypes w) (job_type_key j) = None
           \<and> (\<exists>t. j' = stamped_job_type j t) \<and> map_of (jobTypes w') = (map_of (jobTypes w))(job_type_key j \<mapsto> j')
       | Some e \<Rightarrow> map_of (jobTypes w') = map_of (jobTypes w)
           \<and> (errors_is e ErrNotFound \<longleftrightarrow> map_of (producers w) (job_type_ProducerId j) = None)
           \<and> (errors_is e ErrAlreadyExists \<longleftrightarrow>
                map_of (producers w) (job_type_ProducerId j) \<noteq> None \<and> map_of (jobTypes w) (job_type_key j) \<noteq> None))"
proof -
  consider (no) "map_of (producers w) (job_type_ProducerId j) = None"
    | (taken) "map_of (producers w) (job_type_ProducerId j) \<noteq> None" "map_of (jobTypes w) (job_type_key j) \<noteq> None"
    | (free) "map_of (producers w) (job_type_ProducerId j) \<noteq> None" "map_of (jobTypes w) (job_type_key j) = None"
    by blast
  then show ?thesis
  proof cases
    case no
    from run_GCSStore_taken(2) [OF no] run no inv show ?thesis by auto
  next
    case taken
    from run_GCSStore_taken(3) [OF taken] run taken inv show ?thesis by auto
  next
    case free
    from GCSStore_CreateJobType_outcome [OF run free] obtain w1 w2
      where j': "j' = stamped_job_type j (ts_new (gcs_pb lib) (clock w (ticks w)))"
        and w1: "w1 = w\<lparr>ticks := Suc (ticks w), jobTypes := AList.update (job_type_key j) j' (jobTypes w)\<rparr>"
        and sv: "saved (\<lambda>es. marshal_job_types lib \<lparr>job_types_file_JobTypes = map snd es\<rparr>)
          (object_handle gc jobTypesFile) (jobTypes w1) lib w1 e w2"
        and w': "w' = (if e = None then w2 else w2\<lparr>jobTypes := jobTypes w\<rparr>)" .
    have i1: "store_inv w1"
      using store_inv_add_job_type [of "w\<lparr>ticks := Suc (ticks w)\<rparr>" j'] inv free by (simp add: w1 j' gcs_inv_def)
    have f1: "foreign_errors lib w1" using inv by (simp add: w1 gcs_inv_def)
    obtain c g b where w2: "w2 = w1\<lparr>choice_pos := c, gcs_calls := g, objects := b\<rparr>" using sv by (auto simp: saved_def)
    have fe: "foreign_error e'" if "e = Some e'" for e' using sv f1 that by (auto simp: saved_def)
    have i2: "store_inv (w2\<lparr>jobTypes := jobTypes w\<rparr>)" using inv by (simp add: store_inv_def gcs_inv_def w2 w1)
    show ?thesis
    proof (cases e)
      case N: None
      then show ?thesis using i1 f1 free by (simp add: w' w2 gcs_inv_def) (auto simp: w1 j' update_conv')
    next
      case (Some e')
      then show ?thesis using i2 f1 free fe [OF Some] by (auto simp: w' w2 w1 gcs_inv_def foreign_error_def)
    qed
  qed
qed

interpretation gcs: store_contract "gcs_store lib gc" "gcs_inv lib" "\<lambda>w. map_of (producers w)" "\<lambda>w. map_of (jobTypes w)"
proof (unfold_locales, goal_cases)
  case (1 w p p' e w')
  then show ?case by (intro gcs_create_producer) (simp_all add: gcs_store_def)
next
  case (2 w i r w')
  then show ?case by (auto simp: gcs_store_def run_GCSStore_reads run_MemoryStore_reads split: option.splits)
next
  case (3 w rs w')
  then have "run_state (store_ListProducers (memory_store (gcs_pb lib))) w = (rs, w')"
    by (simp add: gcs_store_def memory_store_def run_GCSStore_reads)
  from mem.list_producers [OF _ this] 3 show ?case
    by (auto simp: gcs_inv_def gcs_store_def run_GCSStore_reads run_MemoryStore_reads)
next
  case (4 w j j' e w')
  then show ?case by (intro gcs_create_job_type) (simp_all add: gcs_store_def)
next
  case (5 w i n rj w')
  then show ?case by (auto simp: gcs_store_def run_GCSStore_reads run_MemoryStore_reads split: option.splits)
next
  case (6 w i rjs w')
  then have "run_state (store_ListJobTypes (memory_store (gcs_pb lib)) i) w = (rjs, w')"
    by (simp add: gcs_store_def memory_store_def run_GCSStore_reads)
  from mem.list_job_types [OF _ this] 6 show ?case
    by (auto simp: gcs_inv_def gcs_store_def run_GCSStore_reads run_MemoryStore_reads)
next
  case 7
  then show ?case using mem.prods_keyed by (auto simp: gcs_inv_def)
next
  case 8
  then show ?case using mem.types_keyed by (auto simp: gcs_inv_def)
next
  case 9
  then show ?case using mem.types_owned by (force simp: gcs_inv_def)
qed

section \<open>Simulation by the in-memory store\<close>

text \<open>
  With a client that does not fail, a history gives the same results on both stores, lists
  up to their order, which Go leaves open.
\<close>

fun same_result :: "store_result \<Rightarrow> store_result \<Rightarrow> bool" where
  "same_result (RListProducers (Inr ps)) r = (case r of RListProducers (Inr qs) \<Rightarrow> mset ps = mset qs | _ \<Rightarrow> False)"
| "same_result (RListJobTypes (Inr js)) r = (case r of RListJobTypes (Inr ks) \<Rightarrow> mset js = mset ks | _ \<Rightarrow> False)"
| "same_result r r' = (r = r')"

text \<open>
  What protojson writes: messages whose texts are UTF-8 and whose timestamps lie between
  the years 1 and 9999.
\<close>

definition timestamp_ok :: "timestamp \<Rightarrow> bool" where
  "timestamp_ok t \<longleftrightarrow> - 62135596800 \<le> sint (ts_seconds t) \<and> sint (ts_seconds t) \<le> 253402300799
     \<and> 0 \<le> sint (ts_nanos t) \<and> sint (ts_nanos t) \<le> 999999999"

definition producer_ok :: "producer \<Rightarrow> bool" where
  "producer_ok p \<longleftrightarrow> valid_utf8 (producer_ProducerId p) \<and> valid_utf8 (producer_Name p) \<and> valid_utf8 (producer_Description p)
     \<and> pred_option timestamp_ok (producer_CreatedAt p) \<and> pred_option timestamp_ok (producer_UpdatedAt p)"

definition job_type_ok :: "job_type \<Rightarrow> bool" where
  "job_type_ok j \<longleftrightarrow> valid_utf8 (job_type_ProducerId j) \<and> valid_utf8 (job_type_Name j) \<and> valid_utf8 (job_type_Description j)
     \<and> pred_option timestamp_ok (job_type_CreatedAt j) \<and> pred_option timestamp_ok (job_type_UpdatedAt j)"

definition marshals :: "gcs_lib \<Rightarrow> bool" where
  "marshals lib \<longleftrightarrow>
     (\<forall>f. list_all producer_ok (producers_file_Producers f) \<longrightarrow> (\<exists>data. marshal_producers lib f = Inr data))
     \<and> (\<forall>f. list_all job_type_ok (job_types_file_JobTypes f) \<longrightarrow> (\<exists>data. marshal_job_types lib f = Inr data))"

text \<open>A history of such messages, and a clock within these years.\<close>

fun op_ok :: "store_op \<Rightarrow> bool" where
  "op_ok (OpCreateProducer p) = producer_ok p"
| "op_ok (OpCreateJobType j) = job_type_ok j"
| "op_ok _ = True"

definition encodable_world :: "gcs_lib \<Rightarrow> 'a gcs_world_scheme \<Rightarrow> bool" where
  "encodable_world lib w \<longleftrightarrow> (\<forall>p \<in> snd ` set (producers w). producer_ok p) \<and> (\<forall>j \<in> snd ` set (jobTypes w). job_type_ok j)
     \<and> (\<forall>n. timestamp_ok (ts_new (gcs_pb lib) (clock w n)))"

lemma update_entries: "set (AList.update k v m) \<subseteq> insert (k, v) (set m)"
  by (induction m) auto

lemma encodable_add:
  assumes "encodable_world lib w"
  shows "producer_ok p \<Longrightarrow> encodable_world lib (w\<lparr>ticks := n,
      producers := AList.update i (stamped_producer p (ts_new (gcs_pb lib) (clock w k))) (producers w)\<rparr>)"
    and "job_type_ok j \<Longrightarrow> encodable_world lib (w\<lparr>ticks := n,
      jobTypes := AList.update i (stamped_job_type j (ts_new (gcs_pb lib) (clock w k))) (jobTypes w)\<rparr>)"
  using assms update_entries [of i "stamped_producer p (ts_new (gcs_pb lib) (clock w k))" "producers w"]
    update_entries [of i "stamped_job_type j (ts_new (gcs_pb lib) (clock w k))" "jobTypes w"]
  by (fastforce simp: encodable_world_def producer_ok_def job_type_ok_def stamped_producer_def stamped_job_type_def)+

lemma encodable_upd [simp]:
  "encodable_world lib (w\<lparr>choice_pos := c\<rparr>) = encodable_world lib w" "encodable_world lib (w\<lparr>gcs_calls := n\<rparr>) = encodable_world lib w"
  "encodable_world lib (w\<lparr>objects := b\<rparr>) = encodable_world lib w"
  by (simp_all add: encodable_world_def)

lemma encodable_marshals:
  assumes "marshals lib" and "encodable_world lib w"
  shows "\<exists>data. marshal_producers lib \<lparr>producers_file_Producers = map snd (permute s (producers w))\<rparr> = Inr data"
    and "\<exists>data. marshal_job_types lib \<lparr>job_types_file_JobTypes = map snd (permute s (jobTypes w))\<rparr> = Inr data"
  using assms by (auto simp: marshals_def encodable_world_def list_all_iff)

definition same_maps :: "'a gcs_world_scheme \<Rightarrow> 'a gcs_world_scheme \<Rightarrow> bool" where
  "same_maps w v \<longleftrightarrow> producers w = producers v \<and> jobTypes w = jobTypes v \<and> clock w = clock v \<and> ticks w = ticks v"

lemma sim_create_producer:
  assumes "no_faults w" and "marshals lib" and "same_maps w v" and enc: "encodable_world lib w" and ok: "producer_ok p"
    and g: "run_state (GCSStore_CreateProducer lib gc p) w = ((p', e), w')"
    and m: "run_state (MemoryStore_CreateProducer (gcs_pb lib) p) v = ((q', d), v')"
  shows "p' = q' \<and> e = d \<and> no_faults w' \<and> same_maps w' v' \<and> encodable_world lib w'"
proof (cases "map_of (producers w) (producer_ProducerId p)")
  case None
  from GCSStore_CreateProducer_outcome [OF g None] obtain w1 w2
    where p': "p' = stamped_producer p (ts_new (gcs_pb lib) (clock w (ticks w)))"
      and w1: "w1 = w\<lparr>ticks := Suc (ticks w), producers := AList.update (producer_ProducerId p) p' (producers w)\<rparr>"
      and sv: "saved (\<lambda>es. marshal_producers lib \<lparr>producers_file_Producers = map snd es\<rparr>)
        (object_handle gc producersFile) (producers w1) lib w1 e w2"
      and w': "w' = (if e = None then w2 else w2\<lparr>producers := producers w\<rparr>)" .
  have enc1: "encodable_world lib w1" unfolding w1 p' by (rule encodable_add(1) [OF enc ok])
  have "e = None" using sv assms(1) encodable_marshals(1) [OF assms(2) enc1] by (auto simp: saved_def w1)
  moreover obtain c h b where "w2 = w1\<lparr>choice_pos := c, gcs_calls := h, objects := b\<rparr>" using sv by (auto simp: saved_def)
  ultimately show ?thesis using None assms(1,3) m enc1
    by (auto simp: run_MemoryStore_CreateProducer same_maps_def w' w1 p' Let_def)
next
  case (Some q)
  then have "map_of (producers w) (producer_ProducerId p) \<noteq> None" by simp
  from run_GCSStore_taken(1) [OF this] Some assms show ?thesis
    by (auto simp: run_MemoryStore_CreateProducer same_maps_def)
qed

lemma sim_create_job_type:
  assumes "no_faults w" and "marshals lib" and "same_maps w v" and enc: "encodable_world lib w" and ok: "job_type_ok j"
    and g: "run_state (GCSStore_CreateJobType lib gc j) w = ((j', e), w')"
    and m: "run_state (MemoryStore_CreateJobType (gcs_pb lib) j) v = ((k', d), v')"
  shows "j' = k' \<and> e = d \<and> no_faults w' \<and> same_maps w' v' \<and> encodable_world lib w'"
proof (cases "map_of (producers w) (job_type_ProducerId j) \<noteq> None \<and> map_of (jobTypes w) (job_type_key j) = None")
  case True
  then have t: "map_of (producers w) (job_type_ProducerId j) \<noteq> None" "map_of (jobTypes w) (job_type_key j) = None" by auto
  from GCSStore_CreateJobType_outcome [OF g t] obtain w1 w2
    where j': "j' = stamped_job_type j (ts_new (gcs_pb lib) (clock w (ticks w)))"
      and w1: "w1 = w\<lparr>ticks := Suc (ticks w), jobTypes := AList.update (job_type_key j) j' (jobTypes w)\<rparr>"
      and sv: "saved (\<lambda>es. marshal_job_types lib \<lparr>job_types_file_JobTypes = map snd es\<rparr>)
        (object_handle gc jobTypesFile) (jobTypes w1) lib w1 e w2"
      and w': "w' = (if e = None then w2 else w2\<lparr>jobTypes := jobTypes w\<rparr>)" .
  have enc1: "encodable_world lib w1" unfolding w1 j' by (rule encodable_add(2) [OF enc ok])
  have "e = None" using sv assms(1) encodable_marshals(2) [OF assms(2) enc1] by (auto simp: saved_def w1)
  moreover obtain c h b where "w2 = w1\<lparr>choice_pos := c, gcs_calls := h, objects := b\<rparr>" using sv by (auto simp: saved_def)
  ultimately show ?thesis using t assms(1,3) m enc1
    by (auto simp: run_MemoryStore_CreateJobType same_maps_def w' w1 j' Let_def)
next
  case False
  then consider "map_of (producers w) (job_type_ProducerId j) = None"
    | "map_of (producers w) (job_type_ProducerId j) \<noteq> None" "map_of (jobTypes w) (job_type_key j) \<noteq> None" by fastforce
  then show ?thesis
  proof cases
    case 1
    from run_GCSStore_taken(2) [OF this] 1 assms show ?thesis
      by (auto simp: run_MemoryStore_CreateJobType same_maps_def)
  next
    case 2
    from run_GCSStore_taken(3) [OF this] 2 assms show ?thesis
      by (auto simp: run_MemoryStore_CreateJobType same_maps_def)
  qed
qed

lemma GCSStore_CreateJobType_succeeds:
  assumes "no_faults w" and "marshals lib" and "encodable_world lib w" and "job_type_ok j"
    and "map_of (producers w) (job_type_ProducerId j) \<noteq> None" and "map_of (jobTypes w) (job_type_key j) = None"
    and "run_state (GCSStore_CreateJobType lib gc j) w = ((j', e), w')"
  shows "e = None"
proof -
  obtain k' d v' where m: "run_state (MemoryStore_CreateJobType (gcs_pb lib) j) w = ((k', d), v')" by (metis prod.exhaust)
  have "same_maps w w" by (simp add: same_maps_def)
  from sim_create_job_type [OF assms(1,2) this assms(3,4,7) m] m assms(5,6) show ?thesis
    by (auto simp: run_MemoryStore_CreateJobType Let_def)
qed

lemma sim_op:
  assumes "no_faults w" and "marshals lib" and "same_maps w v" and "encodable_world lib w" and "op_ok op"
    and "run_state (exec_op (gcs_store lib gc) op) w = (r, w')"
    and "run_state (exec_op (memory_store (gcs_pb lib)) op) v = (s, v')"
  shows "same_result r s \<and> no_faults w' \<and> same_maps w' v' \<and> encodable_world lib w'"
proof (cases op)
  case (OpCreateProducer p)
  obtain p' e w1 where g: "run_state (GCSStore_CreateProducer lib gc p) w = ((p', e), w1)" by (metis prod.exhaust)
  obtain q' d v1 where m: "run_state (MemoryStore_CreateProducer (gcs_pb lib) p) v = ((q', d), v1)" by (metis prod.exhaust)
  from sim_create_producer [OF assms(1-4) _ g m] assms(5-7) g m show ?thesis
    by (auto simp: OpCreateProducer gcs_store_def memory_store_def)
next
  case (OpCreateJobType j)
  obtain p' e w1 where g: "run_state (GCSStore_CreateJobType lib gc j) w = ((p', e), w1)" by (metis prod.exhaust)
  obtain q' d v1 where m: "run_state (MemoryStore_CreateJobType (gcs_pb lib) j) v = ((q', d), v1)" by (metis prod.exhaust)
  from sim_create_job_type [OF assms(1-4) _ g m] assms(5-7) g m show ?thesis
    by (auto simp: OpCreateJobType gcs_store_def memory_store_def)
qed (use assms in \<open>auto simp: gcs_store_def memory_store_def run_GCSStore_reads run_MemoryStore_reads same_maps_def\<close>)

lemma sim_ops:
  assumes "no_faults w" and "marshals lib" and "same_maps w v" and "encodable_world lib w" and "list_all op_ok ops"
    and "run_state (exec_ops (gcs_store lib gc) ops) w = (rs, w')"
    and "run_state (exec_ops (memory_store (gcs_pb lib)) ops) v = (ss, v')"
  shows "list_all2 same_result rs ss \<and> same_maps w' v'"
  using assms unfolding exec_ops_def
proof (induction ops arbitrary: w v rs ss)
  case (Cons op ops)
  obtain r w1 where g: "run_state (exec_op (gcs_store lib gc) op) w = (r, w1)" by fastforce
  obtain s v1 where m: "run_state (exec_op (memory_store (gcs_pb lib)) op) v = (s, v1)" by fastforce
  obtain rs' where gs: "run_state (State_Monad.traverse_list (exec_op (gcs_store lib gc)) ops) w1 = (rs', w')" "rs = r # rs'"
    using Cons.prems(6) g by (auto split: prod.splits)
  obtain ss' where ms: "run_state (State_Monad.traverse_list (exec_op (memory_store (gcs_pb lib))) ops) v1 = (ss', v')" "ss = s # ss'"
    using Cons.prems(7) m by (auto split: prod.splits)
  have ok: "op_ok op" "list_all op_ok ops" using Cons.prems(5) by simp_all
  note h = sim_op [OF Cons.prems(1-4) ok(1) g m]
  from Cons.IH [OF _ Cons.prems(2) _ _ ok(2) gs(1) ms(1)] h show ?case by (simp add: gs(2) ms(2))
qed simp


section \<open>Restarts\<close>

text \<open>
  The bucket holds at least the maps: each object, when it exists, is read back as a map that has
  every entry, and exactly these when no fault changes an object; when it does not exist, the map is empty.
\<close>

definition decodes :: "bool \<Rightarrow> (bytes \<Rightarrow> go_error + 'f) \<Rightarrow> ('f \<Rightarrow> (string, 'v) gomap) \<Rightarrow> (object_name, bytes) gomap \<Rightarrow> object_name
    \<Rightarrow> (string, 'v) gomap \<Rightarrow> bool" where
  "decodes exact dec index b path m \<longleftrightarrow> (case map_of b path of
     None \<Rightarrow> m = []
   | Some data \<Rightarrow> (\<exists>f. dec data = Inr f \<and> map_of m \<subseteq>\<^sub>m map_of (index f) \<and> (exact \<longrightarrow> map_of (index f) = map_of m)))"

definition synced :: "gcs_lib \<Rightarrow> gcs_config \<Rightarrow> 'a gcs_world_scheme \<Rightarrow> bool" where
  "synced lib gc w \<longleftrightarrow>
     decodes (clean_faults w) (unmarshal_producers lib) (\<lambda>f. index_producers (producers_file_Producers f))
       (objects w) (object_handle gc producersFile) (producers w)
     \<and> decodes (clean_faults w) (unmarshal_job_types lib) (\<lambda>f. index_job_types (job_types_file_JobTypes f))
       (objects w) (object_handle gc jobTypesFile) (jobTypes w)"

text \<open>protojson reads back what it wrote.\<close>

definition codec_ok :: "gcs_lib \<Rightarrow> bool" where
  "codec_ok lib \<longleftrightarrow> (\<forall>f data. marshal_producers lib f = Inr data \<longrightarrow> unmarshal_producers lib data = Inr f)
     \<and> (\<forall>f data. marshal_job_types lib f = Inr data \<longrightarrow> unmarshal_job_types lib data = Inr f)"

lemma foldl_update_map_of:
  "distinct (map key vs) \<Longrightarrow>
     map_of (foldl (\<lambda>m v. AList.update (key v) v m) acc vs) = map_of acc ++ map_of (map (\<lambda>v. (key v, v)) vs)"
proof (induction vs arbitrary: acc)
  case (Cons v vs)
  have "map_of (map (\<lambda>v. (key v, v)) vs) (key v) = None" using Cons.prems by (auto simp: map_of_eq_None_iff)
  then show ?case using Cons by (auto simp: update_conv' map_add_def fun_eq_iff split: option.split)
qed simp

lemma index_permute:
  assumes "gomap_ok m" and "\<forall>(k, v) \<in> set m. key v = k"
  shows "map_of (foldl (\<lambda>m v. AList.update (key v) v m) [] (map snd (permute s m))) = map_of m"
proof -
  have "map (\<lambda>v. (key v, v)) (map snd (permute s m)) = permute s m"
    unfolding map_map by (rule map_idI) (use assms(2) in auto)
  moreover have "distinct (map fst (permute s m))"
    using assms(1) by (metis gomap_ok_def mset_permute mset_map mset_eq_imp_distinct_iff)
  then have "map_of (permute s m) = map_of m"
    using assms(1) by (subst map_of_inject_set) (auto simp: gomap_ok_def)
  ultimately show ?thesis
    unfolding foldl_update_map_of [OF keyed_list(1) [OF assms]] by simp
qed

lemma object_handle_distinct [simp]:
  "object_handle gc producersFile \<noteq> object_handle gc jobTypesFile"
  "object_handle gc jobTypesFile \<noteq> object_handle gc producersFile"
  by (simp_all add: object_handle_def objectPath_def producersFile_def jobTypesFile_def)

lemma decodes_written:
  assumes "map_of b' = (map_of b)(path \<mapsto> data)" and "dec data = Inr f" and "map_of (index f) = map_of m'"
    and "map_of m \<subseteq>\<^sub>m map_of m'" and "exact \<Longrightarrow> map_of m' = map_of m"
  shows "decodes exact dec index b' path m"
  using assms by (simp add: decodes_def)

lemma decodes_same: "map_of b' path = map_of b path \<Longrightarrow> decodes exact dec index b' path m = decodes exact dec index b path m"
  by (simp add: decodes_def)

lemma synced_upd [simp]:
  "synced lib gc (w\<lparr>choice_pos := n\<rparr>) = synced lib gc w"
  by (simp add: synced_def)

lemma savedE:
  assumes "saved enc path m lib w e w'" and "atomic_faults w"
  obtains c g b where "w' = w\<lparr>choice_pos := c, gcs_calls := g, objects := b\<rparr>"
    and "map_of b = map_of (objects w) \<and> e \<noteq> None
      \<or> (e = None \<or> \<not> clean_faults w) \<and> (\<exists>s data. enc (permute s m) = Inr data \<and> map_of b = (map_of (objects w))(path \<mapsto> data))"
proof -
  obtain c g b where w': "w' = w\<lparr>choice_pos := c, gcs_calls := g, objects := b\<rparr>"
    and ok: "e = None \<Longrightarrow> \<exists>s data. enc (permute s m) = Inr data \<and> b = AList.update path data (objects w)"
    and clean: "e \<noteq> None \<Longrightarrow> clean_faults w \<Longrightarrow> b = objects w"
    and atomic: "e \<noteq> None \<Longrightarrow> map_of b = map_of (objects w)
          \<or> (\<exists>s data. enc (permute s m) = Inr data \<and> map_of b = (map_of (objects w))(path \<mapsto> data))"
    using assms unfolding saved_def by blast
  have saves: "\<exists>s data. enc (permute s m) = Inr data \<and> map_of b = (map_of (objects w))(path \<mapsto> data)" if "e = None"
  proof -
    obtain s data where "enc (permute s m) = Inr data" "b = AList.update path data (objects w)" using ok \<open>e = None\<close> by blast
    then show ?thesis by (intro exI [of _ s] exI [of _ data]) (simp add: update_conv')
  qed
  show ?thesis
  proof (rule that [OF w'])
    show "map_of b = map_of (objects w) \<and> e \<noteq> None
      \<or> (e = None \<or> \<not> clean_faults w) \<and> (\<exists>s data. enc (permute s m) = Inr data \<and> map_of b = (map_of (objects w))(path \<mapsto> data))"
      using saves clean atomic by (cases e; cases "clean_faults w") auto
  qed
qed

text \<open>
  A save under a new key: afterwards the object holds the extended map, or the call failed and
  it holds at least the old one.
\<close>

lemma saved_decodes:
  assumes sv: "saved (\<lambda>es. enc (wrap (map snd es))) path (AList.update k v m) lib w e w2" and "atomic_faults w"
    and old: "decodes (clean_faults w) dec index (objects w) path m" and new: "map_of m k = None"
    and codec: "\<And>s data. enc (wrap (map snd (permute s (AList.update k v m)))) = Inr data \<Longrightarrow>
      \<exists>f. dec data = Inr f \<and> map_of (index f) = map_of (AList.update k v m)"
  obtains c g b where "w2 = w\<lparr>choice_pos := c, gcs_calls := g, objects := b\<rparr>"
    and "decodes (clean_faults w) dec index b path (if e = None then AList.update k v m else m)"
    and "\<And>path'. path' \<noteq> path \<Longrightarrow> map_of b path' = map_of (objects w) path'"
proof -
  obtain c g b where w2: "w2 = w\<lparr>choice_pos := c, gcs_calls := g, objects := b\<rparr>"
    and b: "map_of b = map_of (objects w) \<and> e \<noteq> None
      \<or> (e = None \<or> \<not> clean_faults w)
        \<and> (\<exists>s data. enc (wrap (map snd (permute s (AList.update k v m)))) = Inr data \<and> map_of b = (map_of (objects w))(path \<mapsto> data))"
    using savedE [OF sv assms(2)] by metis
  have le: "map_of m \<subseteq>\<^sub>m map_of (AList.update k v m)" using new by (auto simp: map_le_def update_conv')
  from b show ?thesis
  proof (elim disjE conjE exE)
    assume same: "map_of b = map_of (objects w)" and e: "e \<noteq> None"
    show ?thesis by (rule that [OF w2]) (use old e in \<open>auto simp: same decodes_same [of b path "objects w"]\<close>)
  next
    fix s data assume e: "e = None" and d: "enc (wrap (map snd (permute s (AList.update k v m)))) = Inr data"
      and wr: "map_of b = (map_of (objects w))(path \<mapsto> data)"
    obtain f where f: "dec data = Inr f" "map_of (index f) = map_of (AList.update k v m)" using codec [OF d] by blast
    have "decodes (clean_faults w) dec index b path (if e = None then AList.update k v m else m)"
      using decodes_written [where dec = dec and index = index, OF wr f, of "AList.update k v m"] e by simp
    then show ?thesis by (rule that [OF w2]) (simp add: wr)
  next
    fix s data assume nc: "\<not> clean_faults w" and d: "enc (wrap (map snd (permute s (AList.update k v m)))) = Inr data"
      and wr: "map_of b = (map_of (objects w))(path \<mapsto> data)"
    obtain f where f: "dec data = Inr f" "map_of (index f) = map_of (AList.update k v m)" using codec [OF d] by blast
    have "decodes (clean_faults w) dec index b path (if e = None then AList.update k v m else m)"
      using decodes_written [where dec = dec and index = index, OF wr f, of "AList.update k v m"] decodes_written [where dec = dec and index = index, OF wr f le] nc by simp
    then show ?thesis by (rule that [OF w2]) (simp add: wr)
  qed
qed

lemma synced_create_producer:
  assumes "codec_ok lib" and "atomic_faults w" and "store_inv w" and "synced lib gc w"
    and run: "run_state (GCSStore_CreateProducer lib gc p) w = ((p', e), w')"
  shows "store_inv w' \<and> synced lib gc w' \<and> gcs_faults w' = gcs_faults w"
proof (cases "map_of (producers w) (producer_ProducerId p)")
  case None
  from GCSStore_CreateProducer_outcome [OF run None] obtain w1 w2
    where p': "p' = stamped_producer p (ts_new (gcs_pb lib) (clock w (ticks w)))"
      and w1: "w1 = w\<lparr>ticks := Suc (ticks w), producers := AList.update (producer_ProducerId p) p' (producers w)\<rparr>"
      and sv: "saved (\<lambda>es. marshal_producers lib \<lparr>producers_file_Producers = map snd es\<rparr>)
        (object_handle gc producersFile) (producers w1) lib w1 e w2"
      and w': "w' = (if e = None then w2 else w2\<lparr>producers := producers w\<rparr>)" .
  have i1: "store_inv w1"
    using store_inv_add_producer [of "w\<lparr>ticks := Suc (ticks w)\<rparr>" p'] assms(3) None by (simp add: w1 p')
  then have k: "gomap_ok (producers w1)" "\<forall>(k, v) \<in> set (producers w1). producer_ProducerId v = k"
    by (auto simp: store_inv_def)
  have m1: "producers w1 = AList.update (producer_ProducerId p) p' (producers w)" by (simp add: w1)
  obtain c g b where w2: "w2 = w1\<lparr>choice_pos := c, gcs_calls := g, objects := b\<rparr>"
    and d: "decodes (clean_faults w1) (unmarshal_producers lib) (\<lambda>f. index_producers (producers_file_Producers f)) b
      (object_handle gc producersFile) (if e = None then producers w1 else producers w)"
    and other: "decodes (clean_faults w1) (unmarshal_job_types lib) (\<lambda>f. index_job_types (job_types_file_JobTypes f)) b
      (object_handle gc jobTypesFile) (jobTypes w)"
  proof (rule saved_decodes [where enc = "marshal_producers lib" and wrap = "\<lambda>ps. \<lparr>producers_file_Producers = ps\<rparr>"
        and dec = "unmarshal_producers lib" and index = "\<lambda>f. index_producers (producers_file_Producers f)", OF sv [unfolded m1]])
    fix s data assume "marshal_producers lib \<lparr>producers_file_Producers =
      map snd (permute s (AList.update (producer_ProducerId p) p' (producers w)))\<rparr> = Inr data"
    then show "\<exists>f. unmarshal_producers lib data = Inr f \<and> map_of (index_producers (producers_file_Producers f))
        = map_of (AList.update (producer_ProducerId p) p' (producers w))"
      using assms(1) index_permute [OF k, of s] by (auto simp: codec_ok_def index_producers_def m1)
  next
    fix c g b assume w2: "w2 = w1\<lparr>choice_pos := c, gcs_calls := g, objects := b\<rparr>"
      and d: "decodes (clean_faults w1) (unmarshal_producers lib) (\<lambda>f. index_producers (producers_file_Producers f)) b
        (object_handle gc producersFile) (if e = None then AList.update (producer_ProducerId p) p' (producers w) else producers w)"
      and other: "\<And>path'. path' \<noteq> object_handle gc producersFile \<Longrightarrow> map_of b path' = map_of (objects w1) path'"
    have same: "map_of b (object_handle gc jobTypesFile) = map_of (objects w) (object_handle gc jobTypesFile)" using other by (simp add: w1)
    have "decodes (clean_faults w1) (unmarshal_job_types lib) (\<lambda>f. index_job_types (job_types_file_JobTypes f)) b
        (object_handle gc jobTypesFile) (jobTypes w)"
      using assms(4) by (simp add: synced_def decodes_same [OF same] w1)
    then show ?thesis by (rule that [OF w2 d [folded m1]])
  qed (use assms(2,4) None in \<open>simp_all add: w1 synced_def\<close>)
  show ?thesis using d other i1 assms(3)
    by (cases e) (simp_all add: w' w2 w1 synced_def store_inv_def)
next
  case (Some q)
  then have "map_of (producers w) (producer_ProducerId p) \<noteq> None" by simp
  from run_GCSStore_taken(1) [OF this] run assms show ?thesis by auto
qed

lemma synced_create_job_type:
  assumes "codec_ok lib" and "atomic_faults w" and "store_inv w" and "synced lib gc w"
    and run: "run_state (GCSStore_CreateJobType lib gc j) w = ((j', e), w')"
  shows "store_inv w' \<and> synced lib gc w' \<and> gcs_faults w' = gcs_faults w"
proof (cases "map_of (producers w) (job_type_ProducerId j) \<noteq> None \<and> map_of (jobTypes w) (job_type_key j) = None")
  case True
  then have t: "map_of (producers w) (job_type_ProducerId j) \<noteq> None" "map_of (jobTypes w) (job_type_key j) = None" by auto
  from GCSStore_CreateJobType_outcome [OF run t] obtain w1 w2
    where j': "j' = stamped_job_type j (ts_new (gcs_pb lib) (clock w (ticks w)))"
      and w1: "w1 = w\<lparr>ticks := Suc (ticks w), jobTypes := AList.update (job_type_key j) j' (jobTypes w)\<rparr>"
      and sv: "saved (\<lambda>es. marshal_job_types lib \<lparr>job_types_file_JobTypes = map snd es\<rparr>)
        (object_handle gc jobTypesFile) (jobTypes w1) lib w1 e w2"
      and w': "w' = (if e = None then w2 else w2\<lparr>jobTypes := jobTypes w\<rparr>)" .
  have i1: "store_inv w1"
    using store_inv_add_job_type [of "w\<lparr>ticks := Suc (ticks w)\<rparr>" j'] assms(3) t by (simp add: w1 j')
  then have k: "gomap_ok (jobTypes w1)" "\<forall>(k, v) \<in> set (jobTypes w1). job_type_key v = k"
    by (auto simp: store_inv_def)
  have m1: "jobTypes w1 = AList.update (job_type_key j) j' (jobTypes w)" by (simp add: w1)
  obtain c g b where w2: "w2 = w1\<lparr>choice_pos := c, gcs_calls := g, objects := b\<rparr>"
    and d: "decodes (clean_faults w1) (unmarshal_job_types lib) (\<lambda>f. index_job_types (job_types_file_JobTypes f)) b
      (object_handle gc jobTypesFile) (if e = None then jobTypes w1 else jobTypes w)"
    and other: "decodes (clean_faults w1) (unmarshal_producers lib) (\<lambda>f. index_producers (producers_file_Producers f)) b
      (object_handle gc producersFile) (producers w)"
  proof (rule saved_decodes [where enc = "marshal_job_types lib" and wrap = "\<lambda>js. \<lparr>job_types_file_JobTypes = js\<rparr>"
        and dec = "unmarshal_job_types lib" and index = "\<lambda>f. index_job_types (job_types_file_JobTypes f)", OF sv [unfolded m1]])
    fix s data assume "marshal_job_types lib \<lparr>job_types_file_JobTypes =
      map snd (permute s (AList.update (job_type_key j) j' (jobTypes w)))\<rparr> = Inr data"
    then show "\<exists>f. unmarshal_job_types lib data = Inr f \<and> map_of (index_job_types (job_types_file_JobTypes f))
        = map_of (AList.update (job_type_key j) j' (jobTypes w))"
      using assms(1) index_permute [OF k, of s] by (auto simp: codec_ok_def index_job_types_def job_type_key_def m1)
  next
    fix c g b assume w2: "w2 = w1\<lparr>choice_pos := c, gcs_calls := g, objects := b\<rparr>"
      and d: "decodes (clean_faults w1) (unmarshal_job_types lib) (\<lambda>f. index_job_types (job_types_file_JobTypes f)) b
        (object_handle gc jobTypesFile) (if e = None then AList.update (job_type_key j) j' (jobTypes w) else jobTypes w)"
      and other: "\<And>path'. path' \<noteq> object_handle gc jobTypesFile \<Longrightarrow> map_of b path' = map_of (objects w1) path'"
    have same: "map_of b (object_handle gc producersFile) = map_of (objects w) (object_handle gc producersFile)" using other by (simp add: w1)
    have "decodes (clean_faults w1) (unmarshal_producers lib) (\<lambda>f. index_producers (producers_file_Producers f)) b
        (object_handle gc producersFile) (producers w)"
      using assms(4) by (simp add: synced_def decodes_same [OF same] w1)
    then show ?thesis by (rule that [OF w2 d [folded m1]])
  qed (use assms(2,4) t in \<open>simp_all add: w1 synced_def\<close>)
  show ?thesis using d other i1 assms(3)
    by (cases e) (simp_all add: w' w2 w1 synced_def store_inv_def)
next
  case False
  then consider "map_of (producers w) (job_type_ProducerId j) = None"
    | "map_of (producers w) (job_type_ProducerId j) \<noteq> None" "map_of (jobTypes w) (job_type_key j) \<noteq> None" by fastforce
  then show ?thesis
    by cases (use run_GCSStore_taken(2,3) [of w j lib gc] run assms in auto)
qed

lemma synced_ops:
  assumes "codec_ok lib" and "atomic_faults w" and "store_inv w" and "synced lib gc w"
    and run: "run_state (exec_ops (gcs_store lib gc) ops) w = (rs, w')"
  shows "store_inv w' \<and> synced lib gc w' \<and> gcs_faults w' = gcs_faults w"
proof -
  let ?I = "\<lambda>v. atomic_faults v \<and> store_inv v \<and> synced lib gc v \<and> gcs_faults v = gcs_faults w"
  have "triple ?I (exec_op (gcs_store lib gc) op) (\<lambda>_. ?I)" for op
  proof (rule tripleI)
    fix v r v' assume I: "?I v" and r: "run_state (exec_op (gcs_store lib gc) op) v = (r, v')"
    show "?I v'"
    proof (cases op)
      case (OpCreateProducer p)
      obtain p' e v1 where g: "run_state (GCSStore_CreateProducer lib gc p) v = ((p', e), v1)" by (metis prod.exhaust)
      from synced_create_producer [OF assms(1) _ _ _ g] I r g show ?thesis
        by (auto simp: OpCreateProducer gcs_store_def atomic_faults_def)
    next
      case (OpCreateJobType j)
      obtain j' e v1 where g: "run_state (GCSStore_CreateJobType lib gc j) v = ((j', e), v1)" by (metis prod.exhaust)
      from synced_create_job_type [OF assms(1) _ _ _ g] I r g show ?thesis
        by (auto simp: OpCreateJobType gcs_store_def atomic_faults_def)
    qed (use I r in \<open>auto simp: gcs_store_def run_GCSStore_reads run_MemoryStore_reads\<close>)
  qed
  then have "triple ?I (exec_ops (gcs_store lib gc) ops) (\<lambda>rs v. ?I v \<and> list_all2 (\<lambda>_ _. True) ops rs)"
    unfolding exec_ops_def by (intro traverse_list_inv) (auto intro: triple_conseq)
  from tripleD [OF this _ run] assms show ?thesis by auto
qed

text \<open>No fault claims that an object does not exist.\<close>

definition truthful_faults :: "'a gcs_world_scheme \<Rightarrow> bool" where
  "truthful_faults w \<longleftrightarrow> (\<forall>n f. gcs_faults w n = Some f \<longrightarrow> fault_error f \<noteq> Sentinel ErrObjectNotExist)"

lemma index_Nil [simp]: "index_producers [] = []" "index_job_types [] = []"
  by (simp_all add: index_producers_def index_job_types_def)

lemma loadProducers_decodes:
  assumes "truthful_faults w" and run: "run_state (loadProducers lib gc) w = (Inr ps, w')"
    and "decodes exact (unmarshal_producers lib) (\<lambda>f. index_producers (producers_file_Producers f))
      (objects w) (object_handle gc producersFile) m"
  shows "map_of m \<subseteq>\<^sub>m map_of (index_producers ps) \<and> (exact \<longrightarrow> map_of (index_producers ps) = map_of m) \<and> (\<exists>g. w' = w\<lparr>gcs_calls := g\<rparr>)"
proof (cases "gcs_faults w (gcs_calls w)")
  case (Some f)
  then show ?thesis using assms
    by (auto simp: loadProducers_def new_reader_def truthful_faults_def split: if_splits)
next
  case None
  show ?thesis
  proof (cases "map_of (objects w) (object_handle gc producersFile)")
    case n: None
    then show ?thesis using assms None
      by (auto simp: loadProducers_def new_reader_def decodes_def split: if_splits)
  next
    case (Some data)
    then show ?thesis using assms None
      by (auto simp: loadProducers_def new_reader_def read_all_def decodes_def split: option.splits sum.splits)
  qed
qed

lemma loadJobTypes_decodes:
  assumes "truthful_faults w" and run: "run_state (loadJobTypes lib gc) w = (Inr js, w')"
    and "decodes exact (unmarshal_job_types lib) (\<lambda>f. index_job_types (job_types_file_JobTypes f))
      (objects w) (object_handle gc jobTypesFile) m"
  shows "map_of m \<subseteq>\<^sub>m map_of (index_job_types js) \<and> (exact \<longrightarrow> map_of (index_job_types js) = map_of m) \<and> (\<exists>g. w' = w\<lparr>gcs_calls := g\<rparr>)"
proof (cases "gcs_faults w (gcs_calls w)")
  case (Some f)
  then show ?thesis using assms
    by (auto simp: loadJobTypes_def new_reader_def truthful_faults_def split: if_splits)
next
  case None
  show ?thesis
  proof (cases "map_of (objects w) (object_handle gc jobTypesFile)")
    case n: None
    then show ?thesis using assms None
      by (auto simp: loadJobTypes_def new_reader_def decodes_def split: if_splits)
  next
    case (Some data)
    then show ?thesis using assms None
      by (auto simp: loadJobTypes_def new_reader_def read_all_def decodes_def split: option.splits sum.splits)
  qed
qed

lemma run_load:
  assumes "run_state (loadProducers lib gc) w = (Inr ps, w1)" and "run_state (loadJobTypes lib gc) w1 = (Inr js, w2)"
  shows "run_state (load lib gc) w = (None, w2\<lparr>producers := index_producers ps, jobTypes := index_job_types js\<rparr>)"
  using assms by (simp add: load_def)

lemma run_load_fails:
  assumes "run_state (load lib gc) w = (None, w')"
  obtains ps w1 js w2 where "run_state (loadProducers lib gc) w = (Inr ps, w1)"
    and "run_state (loadJobTypes lib gc) w1 = (Inr js, w2)"
proof -
  obtain rp w1 where lp: "run_state (loadProducers lib gc) w = (rp, w1)" by fastforce
  obtain rj w2 where lj: "run_state (loadJobTypes lib gc) w1 = (rj, w2)" by fastforce
  from assms lp lj show ?thesis by (cases rp; cases rj) (auto simp: load_def intro: that)
qed

lemma run_NewGCSStore:
  "run_state (NewGCSStore lib gc None) w =
     (case run_state (load lib gc) (w\<lparr>producers := [], jobTypes := []\<rparr>) of
        (e, w') \<Rightarrow> (map_option (wrap_error ''failed to load data'') e, w'))"
  by (simp add: NewGCSStore_def split: prod.split)

lemma NewGCSStore_reloads:
  assumes t: "truthful_faults w" and s: "synced lib gc w"
    and run: "run_state (NewGCSStore lib gc None) w = (None, w')"
  shows "map_of (producers w) \<subseteq>\<^sub>m map_of (producers w') \<and> map_of (jobTypes w) \<subseteq>\<^sub>m map_of (jobTypes w')
    \<and> (clean_faults w \<longrightarrow> map_of (producers w') = map_of (producers w) \<and> map_of (jobTypes w') = map_of (jobTypes w))"
proof -
  define w0 where "w0 = w\<lparr>producers := [], jobTypes := []\<rparr>"
  from run have ld: "run_state (load lib gc) w0 = (None, w')"
    by (auto simp: run_NewGCSStore w0_def split: prod.splits)
  then obtain ps w1 js w2 where lp: "run_state (loadProducers lib gc) w0 = (Inr ps, w1)"
    and lj: "run_state (loadJobTypes lib gc) w1 = (Inr js, w2)" by (rule run_load_fails)
  have t0: "truthful_faults w0" using t by (simp add: truthful_faults_def w0_def)
  have m1: "map_of (producers w) \<subseteq>\<^sub>m map_of (index_producers ps)
      \<and> (clean_faults w \<longrightarrow> map_of (index_producers ps) = map_of (producers w)) \<and> (\<exists>g. w1 = w0\<lparr>gcs_calls := g\<rparr>)"
    using s by (intro loadProducers_decodes [OF t0 lp]) (simp add: synced_def w0_def)
  then have t1: "truthful_faults w1" "objects w1 = objects w" using t0 by (auto simp: truthful_faults_def w0_def)
  have m2: "map_of (jobTypes w) \<subseteq>\<^sub>m map_of (index_job_types js)
      \<and> (clean_faults w \<longrightarrow> map_of (index_job_types js) = map_of (jobTypes w)) \<and> (\<exists>g. w2 = w1\<lparr>gcs_calls := g\<rparr>)"
    using s by (intro loadJobTypes_decodes [OF t1(1) lj]) (simp add: synced_def t1(2))
  have "w' = w2\<lparr>producers := index_producers ps, jobTypes := index_job_types js\<rparr>"
    using ld run_load [OF lp lj] by simp
  with m1 m2 show ?thesis by simp
qed

section \<open>Properties\<close>

text \<open>
  C23. Whatever calls fail, a history on the bucket-backed store keeps the invariant of its
  maps (every message under its own key, every job type owned by a registered producer)
  and never loses or changes a registered producer or job type.
\<close>

lemma gcs_registrations_persist:
  assumes "store_inv w" and "foreign_errors lib w"
    and "run_state (exec_ops (gcs_store lib gc) ops) w = (rs, w')"
  shows "store_inv w' \<and> map_of (producers w) \<subseteq>\<^sub>m map_of (producers w') \<and> map_of (jobTypes w) \<subseteq>\<^sub>m map_of (jobTypes w')"
  using gcs.exec_ops_extends [OF _ assms(3)] assms(1,2) by (simp add: gcs_inv_def)

lemma exec_op_creates:
  "run_state (exec_op S (OpCreateProducer q)) w = (r, w') \<Longrightarrow>
     \<exists>q' e. run_state (store_CreateProducer S q) w = ((q', e), w') \<and> r = RCreateProducer q' e"
  "run_state (exec_op S (OpCreateJobType k)) w = (r, w') \<Longrightarrow>
     \<exists>k' e. run_state (store_CreateJobType S k) w = ((k', e), w') \<and> r = RCreateJobType k' e"
  by (auto split: prod.splits)

lemma saved_frame: "saved enc path m lib w e w' \<Longrightarrow> \<exists>c g b. w' = w\<lparr>choice_pos := c, gcs_calls := g, objects := b\<rparr>"
  unfolding saved_def by blast

lemma GCSStore_CreateProducer_fails:
  assumes run: "run_state (GCSStore_CreateProducer lib gc q) w = ((p, Some e), w')"
  shows "producers w' = producers w \<and> jobTypes w' = jobTypes w"
proof (cases "map_of (producers w) (producer_ProducerId q)")
  case None
  show ?thesis
    by (rule GCSStore_CreateProducer_outcome [OF run None], drule saved_frame, elim exE) simp
next
  case (Some x)
  then show ?thesis using run run_GCSStore_taken(1) [of w q lib gc] by simp
qed

lemma GCSStore_CreateJobType_fails:
  assumes run: "run_state (GCSStore_CreateJobType lib gc k) w = ((j, Some e), w')"
  shows "producers w' = producers w \<and> jobTypes w' = jobTypes w"
proof -
  consider "map_of (producers w) (job_type_ProducerId k) = None"
    | "map_of (producers w) (job_type_ProducerId k) \<noteq> None" "map_of (jobTypes w) (job_type_key k) \<noteq> None"
    | (free) "map_of (producers w) (job_type_ProducerId k) \<noteq> None" "map_of (jobTypes w) (job_type_key k) = None"
    by fastforce
  then show ?thesis
  proof cases
    case free
    show ?thesis
      by (rule GCSStore_CreateJobType_outcome [OF run free], drule saved_frame, elim exE) simp
  qed (use run run_GCSStore_taken(2,3) [of w k lib gc] in simp_all)
qed

text \<open>
  C15. A creation that fails because the bucket could not be written leaves both maps
  exactly as they were: the entry added before the save is taken out again.
\<close>

lemma gcs_failed_creation_rolls_back:
  assumes "run_state (exec_op (gcs_store lib gc) op) w = (r, w')"
    and "r = RCreateProducer p (Some e) \<or> r = RCreateJobType j (Some e)"
  shows "producers w' = producers w \<and> jobTypes w' = jobTypes w"
proof (cases op)
  case (OpCreateProducer q)
  from exec_op_creates(1) [OF assms(1) [unfolded OpCreateProducer]] assms(2) show ?thesis
    by (auto simp: gcs_store_def dest: GCSStore_CreateProducer_fails)
next
  case (OpCreateJobType k)
  from exec_op_creates(2) [OF assms(1) [unfolded OpCreateJobType]] assms(2) show ?thesis
    by (auto simp: gcs_store_def dest: GCSStore_CreateJobType_fails)
qed (use assms in \<open>auto simp: gcs_store_def run_GCSStore_reads run_MemoryStore_reads\<close>)

text \<open>
  C8. With a client that does not fail, a protojson that writes valid messages, and a history of
  such messages, the bucket-backed store refines the in-memory store: the history gives the
  same results, lists up to their order, and the same maps.
\<close>

lemma gcs_refines_memory:
  assumes "no_faults w" and "marshals lib" and "encodable_world lib w" and "list_all op_ok ops"
    and "run_state (exec_ops (gcs_store lib gc) ops) w = (rs, w')"
    and "run_state (exec_ops (memory_store (gcs_pb lib)) ops) w = (ss, v')"
  shows "list_all2 same_result rs ss \<and> producers w' = producers v' \<and> jobTypes w' = jobTypes v'"
  using sim_ops [OF assms(1,2) _ assms(3,4,5,6)] by (simp add: same_maps_def)

text \<open>
  A restart loses no registration: after any history whose failed uploads leave the object old
  or new, a store loaded from the bucket has every entry of the old one's maps, and no others when
  failed uploads change nothing.
\<close>

lemma gcs_restart_recovers:
  assumes "codec_ok lib" and "atomic_faults w" and "truthful_faults w" and "store_inv w" and "synced lib gc w"
    and "run_state (exec_ops (gcs_store lib gc) ops) w = (rs, w1)"
    and "run_state (NewGCSStore lib gc None) w1 = (None, w2)"
  shows "map_of (producers w1) \<subseteq>\<^sub>m map_of (producers w2) \<and> map_of (jobTypes w1) \<subseteq>\<^sub>m map_of (jobTypes w2)
    \<and> (clean_faults w \<longrightarrow> map_of (producers w2) = map_of (producers w1) \<and> map_of (jobTypes w2) = map_of (jobTypes w1))"
proof -
  have s: "synced lib gc w1" "gcs_faults w1 = gcs_faults w" using synced_ops [OF assms(1,2,4,5,6)] by auto
  then have "truthful_faults w1" "clean_faults w1 = clean_faults w" using assms(3) by (simp_all add: truthful_faults_def clean_faults_def)
  with NewGCSStore_reloads [OF _ s(1) assms(7)] show ?thesis by simp
qed

text \<open>
  C35. Starting on a bucket that has neither object succeeds exactly when the client
  reports the missing object by the bare sentinel \<open>ErrObjectNotExist\<close>: the code compares
  with \<open>==\<close>, so a client that wraps the sentinel makes the first start fail.
\<close>

lemma gcs_first_start:
  assumes "no_faults w" and "map_of (objects w) (object_handle gc producersFile) = None"
    and "map_of (objects w) (object_handle gc jobTypesFile) = None"
  shows "fst (run_state (NewGCSStore lib gc None) w) = None \<longleftrightarrow> not_exist lib = Sentinel ErrObjectNotExist"
  using assms
  by (simp add: run_NewGCSStore load_def loadProducers_def loadJobTypes_def new_reader_def no_faults_def split: prod.split)


section \<open>Witnesses\<close>

definition sample_gcs_world :: "(nat \<Rightarrow> gcs_fault option) \<Rightarrow> gcs_world" where
  "sample_gcs_world faults = \<lparr>clock = (\<lambda>_. 0), ticks = 0, entropy = (\<lambda>_. 0), entropy_pos = 0,
     choice = (\<lambda>_. 0), choice_pos = 0, metrics = [], producers = [], jobTypes = [],
     objects = [], gcs_calls = 0, gcs_faults = faults\<rparr>"

definition sample_pb :: timestamppb where
  "sample_pb = \<lparr>ts_new = (\<lambda>t. \<lparr>ts_seconds = word_of_int (t div 1000000000), ts_nanos = word_of_int (t mod 1000000000)\<rparr>),
     as_time = (\<lambda>t. sint (ts_seconds t) * 1000000000 + sint (ts_nanos t))\<rparr>"

definition sample_producer :: producer where
  "sample_producer = \<lparr>producer_ProducerId = ''prod_1'', producer_Name = ''billing'', producer_Description = [],
     producer_RateLimitRps = 1000, producer_CreatedAt = None, producer_UpdatedAt = None\<rparr>"

definition sample_file :: producers_file where
  "sample_file = \<lparr>producers_file_Producers = [stamped_producer sample_producer (ts_new sample_pb 0)]\<rparr>"

definition sample_gc :: gcs_config where
  "sample_gc = \<lparr>gcs_Bucket = ''b'', gcs_Prefix = []\<rparr>"

text \<open>A marshaller that knows one file, and one that writes every file but reads none back.\<close>

definition sample_lib :: "go_error \<Rightarrow> gcs_lib" where
  "sample_lib missing = \<lparr>not_exist = missing,
     marshal_producers = (\<lambda>f. if f = sample_file then Inr [1] else Inl (Opaque ''cannot marshal'')),
     unmarshal_producers = (\<lambda>d. Inr sample_file),
     marshal_job_types = (\<lambda>f. Inl (Opaque ''cannot marshal'')),
     unmarshal_job_types = (\<lambda>d. Inl (Opaque ''cannot unmarshal'')),
     gcs_pb = sample_pb\<rparr>"

definition sample_total_lib :: gcs_lib where
  "sample_total_lib = (sample_lib (Sentinel ErrObjectNotExist))
     \<lparr>marshal_producers := (\<lambda>f. Inr [word_of_nat (length (producers_file_Producers f))]),
      marshal_job_types := (\<lambda>f. Inr [word_of_nat (length (job_types_file_JobTypes f))])\<rparr>"

lemmas sample_defs = sample_gcs_world_def sample_lib_def sample_file_def sample_producer_def stamped_producer_def
  gcs_store_def GCSStore_CreateProducer_def saveProducers_def writer_write_def writer_close_def exec_ops_def
  timestamp_now_def objectPath_def object_handle_def sample_gc_def producersFile_def permute.simps left_objects_def

abbreviation sample_failing :: "nat \<Rightarrow> gcs_fault option" where
  "sample_failing \<equiv> \<lambda>_. Some (GcsFault (Opaque ''timeout'') (\<lambda>_. None))"

lemma sample_failing_run:
  "run_state (exec_op (gcs_store (sample_lib m) sample_gc) (OpCreateProducer sample_producer)) (sample_gcs_world sample_failing)
     = (RCreateProducer (stamped_producer sample_producer (ts_new sample_pb 0))
          (Some (wrap_error ''failed to write producers'' (Opaque ''timeout''))),
        (sample_gcs_world sample_failing)\<lparr>ticks := 1, choice_pos := 1, gcs_calls := 2\<rparr>)"
  by (simp add: sample_defs writer_close_failed_def Let_def)

lemma sample_run:
  "run_state (exec_op (gcs_store (sample_lib m) sample_gc) (OpCreateProducer sample_producer)) (sample_gcs_world (\<lambda>_. None))
     = (RCreateProducer (stamped_producer sample_producer (ts_new sample_pb 0)) None,
        (sample_gcs_world (\<lambda>_. None))\<lparr>ticks := 1, choice_pos := 1, gcs_calls := 2,
          producers := [(''prod_1'', stamped_producer sample_producer (ts_new sample_pb 0))],
          objects := [((''b'', ''producers.json''), [1])]\<rparr>)"
  by (simp add: sample_defs Let_def)

lemma gcs_failed_creation_rolls_back_witness:
  "producers (snd (run_state (exec_op (gcs_store (sample_lib (Sentinel ErrObjectNotExist)) sample_gc) (OpCreateProducer sample_producer))
     (sample_gcs_world sample_failing))) = []"
  using gcs_failed_creation_rolls_back [OF sample_failing_run disjI1 [OF refl]]
  unfolding sample_failing_run by (simp add: sample_gcs_world_def)

lemma sample_world_facts:
  "store_inv (sample_gcs_world faults)" "synced lib gc (sample_gcs_world faults)"
  "no_faults (sample_gcs_world (\<lambda>_. None))" "atomic_faults (sample_gcs_world (\<lambda>_. None))"
  "truthful_faults (sample_gcs_world (\<lambda>_. None))" "objects (sample_gcs_world faults) = []"
  "codec_ok (sample_lib m)" "marshals sample_total_lib"
  "foreign_errors (sample_lib m) (sample_gcs_world sample_failing)"
  by (auto simp: sample_gcs_world_def store_inv_def synced_def decodes_def no_faults_def atomic_faults_def truthful_faults_def
      codec_ok_def sample_lib_def marshals_def sample_total_lib_def foreign_errors_def foreign_error_def split: if_splits)

lemma gcs_registrations_persist_witness:
  "store_inv (snd (run_state (exec_ops (gcs_store (sample_lib (Sentinel ErrObjectNotExist)) sample_gc)
     [OpCreateProducer sample_producer, OpListProducers]) (sample_gcs_world sample_failing)))"
  using gcs_registrations_persist [OF sample_world_facts(1,9) prod.collapse [symmetric]] by blast

lemma sample_encodable:
  "encodable_world sample_total_lib (sample_gcs_world (\<lambda>_. None))" "list_all op_ok [OpCreateProducer sample_producer, OpListProducers]"
  by (simp_all add: encodable_world_def sample_gcs_world_def sample_total_lib_def sample_lib_def sample_pb_def timestamp_ok_def
      producer_ok_def sample_producer_def valid_utf8_ascii)

lemma gcs_refines_memory_witness:
  "producers (snd (run_state (exec_ops (gcs_store sample_total_lib sample_gc) [OpCreateProducer sample_producer, OpListProducers])
       (sample_gcs_world (\<lambda>_. None))))
   = producers (snd (run_state (exec_ops (memory_store (gcs_pb sample_total_lib)) [OpCreateProducer sample_producer, OpListProducers])
       (sample_gcs_world (\<lambda>_. None))))"
  using gcs_refines_memory [OF sample_world_facts(3,8) sample_encodable prod.collapse [symmetric] prod.collapse [symmetric]] by blast

lemma sample_reload:
  "fst (run_state (NewGCSStore (sample_lib (Sentinel ErrObjectNotExist)) sample_gc None)
     (snd (run_state (exec_ops (gcs_store (sample_lib (Sentinel ErrObjectNotExist)) sample_gc) [OpCreateProducer sample_producer])
        (sample_gcs_world (\<lambda>_. None))))) = None"
  by (simp add: exec_ops_def sample_run del: exec_op.simps)
    (simp add: run_NewGCSStore load_def loadProducers_def loadJobTypes_def new_reader_def read_all_def sample_defs Let_def jobTypesFile_def)

lemma gcs_restart_recovers_witness:
  "map_of (producers (snd (run_state (NewGCSStore (sample_lib (Sentinel ErrObjectNotExist)) sample_gc None)
     (snd (run_state (exec_ops (gcs_store (sample_lib (Sentinel ErrObjectNotExist)) sample_gc) [OpCreateProducer sample_producer])
        (sample_gcs_world (\<lambda>_. None))))))) ''prod_1'' = Some (stamped_producer sample_producer (ts_new sample_pb 0))"
proof -
  let ?w1 = "snd (run_state (exec_ops (gcs_store (sample_lib (Sentinel ErrObjectNotExist)) sample_gc) [OpCreateProducer sample_producer])
    (sample_gcs_world (\<lambda>_. None)))"
  have "run_state (NewGCSStore (sample_lib (Sentinel ErrObjectNotExist)) sample_gc None) ?w1
      = (None, snd (run_state (NewGCSStore (sample_lib (Sentinel ErrObjectNotExist)) sample_gc None) ?w1))"
    using sample_reload by (metis prod.collapse)
  from gcs_restart_recovers [OF sample_world_facts(7,4,5,1,2) prod.collapse [symmetric] this] no_faults_clean [OF sample_world_facts(3)]
  have "map_of (producers (snd (run_state (NewGCSStore (sample_lib (Sentinel ErrObjectNotExist)) sample_gc None) ?w1)))
      = map_of (producers ?w1)" by blast
  moreover have "map_of (producers ?w1) ''prod_1'' = Some (stamped_producer sample_producer (ts_new sample_pb 0))"
    by (simp add: exec_ops_def sample_run del: exec_op.simps)
  ultimately show ?thesis by simp
qed

lemma gcs_first_start_witness:
  "fst (run_state (NewGCSStore (sample_lib (wrap_error ''googleapi: Error 404'' (Sentinel ErrObjectNotExist))) sample_gc None)
     (sample_gcs_world (\<lambda>_. None))) \<noteq> None"
  using gcs_first_start [OF sample_world_facts(3)] by (simp add: sample_lib_def wrap_error_def sample_gcs_world_def)

end
