(* ===== verification/Queue.thy ===== *)
theory Queue
  imports GoBase
begin

text \<open>
  internal/queue/queue.go and internal/queue/noop.go: jobs, their validation, the interface
  \<open>Backend\<close> with its contract, and the backend that accepts every valid job and drops it.
\<close>


section \<open>Priorities\<close>

text \<open>A priority is an integer type of its own; five of its values have names.\<close>

type_synonym priority = int

definition PriorityUnspecified :: priority where "PriorityUnspecified = 0"
definition PriorityImmediate :: priority where "PriorityImmediate = 1"
definition PriorityHigh :: priority where "PriorityHigh = 2"
definition PriorityMedium :: priority where "PriorityMedium = 3"
definition PriorityLow :: priority where "PriorityLow = 4"

lemmas priority_defs =
  PriorityUnspecified_def PriorityImmediate_def PriorityHigh_def PriorityMedium_def PriorityLow_def

definition Priority_String :: "priority \<Rightarrow> string" where
  "Priority_String p =
     (if p = PriorityImmediate then ''immediate''
      else if p = PriorityHigh then ''high''
      else if p = PriorityMedium then ''medium''
      else if p = PriorityLow then ''low''
      else ''unspecified'')"

definition priority_tag :: "priority \<Rightarrow> string" where
  "priority_tag p = ''priority:'' @ Priority_String p"


section \<open>Jobs\<close>

record job =
  job_ID :: string
  job_ProducerID :: string
  job_Type :: string
  job_Priority :: priority
  job_Payload :: byte_slice
  job_RunAt :: instant
  job_TraceID :: string
  job_MaxRetries :: int
  job_CreatedAt :: instant
  job_Shadow :: bool

record enqueue_result =
  result_JobID :: string
  result_Error :: "go_error option"

text \<open>The element a fresh slice of results holds.\<close>

definition zero_result :: enqueue_result where
  "zero_result = \<lparr>result_JobID = [], result_Error = None\<rparr>"

record backend_config =
  MaxPayloadSize :: int
  DefaultMaxRetries :: int
  EnqueueTimeout :: duration

definition DefaultConfig :: backend_config where
  "DefaultConfig = \<lparr>MaxPayloadSize = 1048576, DefaultMaxRetries = 10, EnqueueTimeout = 30 * second\<rparr>"

definition Validate :: "job \<Rightarrow> int \<Rightarrow> go_error option" where
  "Validate j maxPayloadSize =
     (if job_ProducerID j = '''' then Some (Opaque ''producer_id is required'')
      else if job_Type j = '''' then Some (Opaque ''job_type is required'')
      else if 0 < maxPayloadSize \<and> maxPayloadSize < int (slice_len (job_Payload j)) then Some (Sentinel ErrJobTooLarge)
      else None)"


section \<open>The interface and its contract\<close>

record 'w backend =
  backend_Enqueue :: "job \<Rightarrow> ('w, go_error option) state"
  backend_EnqueueBulk :: "job list \<Rightarrow> ('w, enqueue_result list) state"
  backend_Health :: "('w, go_error option) state"
  backend_Close :: "('w, go_error option) state"

text \<open>
  What the callers of a bulk operation rely on, backend or scheduler: one result for each
  job, in order, and the job's own id on a success.
\<close>

definition answers :: "job \<Rightarrow> enqueue_result \<Rightarrow> bool" where
  "answers j r \<longleftrightarrow> result_Error r = None \<longrightarrow> result_JobID r = job_ID j"

locale bulk_contract =
  fixes bulk :: "job list \<Rightarrow> ('w, enqueue_result list) state"
    and I :: "'w \<Rightarrow> bool"
  assumes bulk_inv: "I w \<Longrightarrow> run_state (bulk js) w = (rs, w') \<Longrightarrow> I w'"
    and bulk_answers: "I w \<Longrightarrow> run_state (bulk js) w = (rs, w') \<Longrightarrow> list_all2 answers js rs"
begin

lemma bulk_length: "I w \<Longrightarrow> length (fst (run_state (bulk js) w)) = length js"
  using bulk_answers [OF _ prod.collapse [symmetric], of w js] by (simp add: list_all2_lengthD)

lemma bulk_nth:
  "I w \<Longrightarrow> i < length js \<Longrightarrow> answers (js ! i) (fst (run_state (bulk js) w) ! i)"
  using bulk_answers [OF _ prod.collapse [symmetric], of w js] by (simp add: list_all2_nthD)

end

text \<open>
  A backend keeps the invariant of the world, answers a bulk call job by job, names in
  each result the job it belongs to, and never reports \<open>ErrQueueUnavailable\<close>.
\<close>

locale backend_contract =
  fixes B :: "'w backend"
    and I :: "'w \<Rightarrow> bool"
  assumes enqueue_inv: "I w \<Longrightarrow> run_state (backend_Enqueue B j) w = (e, w') \<Longrightarrow> I w'"
    and enqueue_available: "I w \<Longrightarrow> run_state (backend_Enqueue B j) w = (Some err, w') \<Longrightarrow>
      \<not> errors_is err ErrQueueUnavailable"
    and enqueue_bulk_inv: "I w \<Longrightarrow> run_state (backend_EnqueueBulk B js) w = (rs, w') \<Longrightarrow> I w'"
    and enqueue_bulk_ids: "I w \<Longrightarrow> run_state (backend_EnqueueBulk B js) w = (rs, w') \<Longrightarrow>
      map result_JobID rs = map job_ID js"

sublocale backend_contract \<subseteq> bulk_contract "backend_EnqueueBulk B" I
proof
  fix w js rs w' assume "I w" "run_state (backend_EnqueueBulk B js) w = (rs, w')"
  then have "map result_JobID rs = map job_ID js" by (rule enqueue_bulk_ids)
  then show "list_all2 answers js rs"
    by (auto simp: list_all2_conv_all_nth answers_def list_eq_iff_nth_eq)
qed (rule enqueue_bulk_inv)


section \<open>The no-op backend\<close>

record noop_backend = noop_config :: backend_config

definition NewNoopBackend :: "backend_config \<Rightarrow> noop_backend" where
  "NewNoopBackend config = \<lparr>noop_config = config\<rparr>"

definition NoopBackend_Enqueue :: "noop_backend \<Rightarrow> job \<Rightarrow> ('w, go_error option) state" where
  "NoopBackend_Enqueue n j = ret (Validate j (MaxPayloadSize (noop_config n)))"

definition NoopBackend_EnqueueBulk :: "noop_backend \<Rightarrow> job list \<Rightarrow> ('w, enqueue_result list) state" where
  "NoopBackend_EnqueueBulk n jobs = State_Monad.traverse_list (\<lambda>j. do {
     err \<leftarrow> NoopBackend_Enqueue n j;
     ret \<lparr>result_JobID = job_ID j, result_Error = err\<rparr> }) jobs"

definition NoopBackend_Health :: "('w, go_error option) state" where
  "NoopBackend_Health = ret None"

definition NoopBackend_Close :: "('w, go_error option) state" where
  "NoopBackend_Close = ret None"

definition noop_queue :: "noop_backend \<Rightarrow> 'w backend" where
  "noop_queue n = \<lparr>
     backend_Enqueue = NoopBackend_Enqueue n,
     backend_EnqueueBulk = NoopBackend_EnqueueBulk n,
     backend_Health = NoopBackend_Health,
     backend_Close = NoopBackend_Close\<rparr>"

lemma run_NoopBackend_EnqueueBulk:
  "run_state (NoopBackend_EnqueueBulk n jobs) w =
     (map (\<lambda>j. \<lparr>result_JobID = job_ID j, result_Error = Validate j (MaxPayloadSize (noop_config n))\<rparr>) jobs, w)"
  by (induction jobs) (simp_all add: NoopBackend_EnqueueBulk_def NoopBackend_Enqueue_def)

interpretation noop_backend: backend_contract "noop_queue n" "\<lambda>_. True"
  by unfold_locales
    (auto simp: noop_queue_def run_NoopBackend_EnqueueBulk NoopBackend_Enqueue_def Validate_def split: if_splits)


section \<open>Properties\<close>

text \<open>
  A job is valid exactly when it names its producer and its type and its payload
  fits the limit, which a limit of zero or less switches off; \<open>ErrJobTooLarge\<close> is
  reported for no other reason.
\<close>

lemma Validate_correct:
  "(Validate j m = None \<longleftrightarrow>
     job_ProducerID j \<noteq> [] \<and> job_Type j \<noteq> [] \<and> (m \<le> 0 \<or> int (slice_len (job_Payload j)) \<le> m))
   \<and> (Validate j m = Some (Sentinel ErrJobTooLarge) \<longleftrightarrow>
     job_ProducerID j \<noteq> [] \<and> job_Type j \<noteq> [] \<and> 0 < m \<and> m < int (slice_len (job_Payload j)))"
  by (auto simp: Validate_def)

text \<open>
  A bulk enqueue on the no-op backend is the single enqueue of each job, with the
  results in the order of the jobs and nothing changed.
\<close>

lemma noop_bulk_is_pointwise:
  "run_state (NoopBackend_EnqueueBulk n jobs) w =
     (map (\<lambda>j. \<lparr>result_JobID = job_ID j, result_Error = fst (run_state (NoopBackend_Enqueue n j) w)\<rparr>) jobs, w)"
  unfolding run_NoopBackend_EnqueueBulk by (simp add: NoopBackend_Enqueue_def)

end
