(* ===== verification/GoTime.thy ===== *)
theory GoTime
  imports GoJson
begin

text \<open>
  What the code uses of package time: the civil date of an instant in UTC, the layout
  \<open>time.RFC3339Nano\<close> for printing, and \<open>time.Parse\<close> with that layout. The round trip holds
  for the years 0 to 9999; a later year is printed with five digits and does not parse.
\<close>


section \<open>The civil calendar\<close>

definition is_leap :: "int \<Rightarrow> bool" where
  "is_leap y \<longleftrightarrow> y mod 4 = 0 \<and> (y mod 100 \<noteq> 0 \<or> y mod 400 = 0)"

definition month_lengths :: "int \<Rightarrow> int list" where
  "month_lengths y = [31, if is_leap y then 29 else 28, 31, 30, 31, 30, 31, 31, 30, 31, 30, 31]"

definition days_in :: "int \<Rightarrow> int \<Rightarrow> int" where
  "days_in m y = month_lengths y ! nat (m - 1)"

text \<open>Days are counted from 1 January of the year 1.\<close>

definition days_before_year :: "int \<Rightarrow> int" where
  "days_before_year y = 365 * (y - 1) + (y - 1) div 4 - (y - 1) div 100 + (y - 1) div 400"

definition unix_epoch_day :: int where "unix_epoch_day = 719162"

fun find_month :: "int list \<Rightarrow> int \<Rightarrow> int \<Rightarrow> int \<times> int" where
  "find_month [] m d = (m, d + 1)"
| "find_month (l # ls) m d = (if d < l then (m, d + 1) else find_month ls (m + 1) (d - l))"

text \<open>Year and day of the year from the day number: 400, 100, 4 and 1 year cycles.\<close>

definition year_yday :: "int \<Rightarrow> int \<times> int" where
  "year_yday d =
     (let n400 = d div 146097; d = d mod 146097;
          n100 = min 3 (d div 36524); d = d - n100 * 36524;
          n4 = d div 1461; d = d mod 1461;
          n1 = min 3 (d div 365); d = d - n1 * 365
      in (400 * n400 + 100 * n100 + 4 * n4 + n1 + 1, d))"

definition civil_of_day :: "int \<Rightarrow> int \<times> int \<times> int" where
  "civil_of_day d = (case year_yday d of (y, yday) \<Rightarrow>
     case find_month (month_lengths y) 1 yday of (m, day) \<Rightarrow> (y, m, day))"

definition day_of_civil :: "int \<Rightarrow> int \<Rightarrow> int \<Rightarrow> int" where
  "day_of_civil y m day = days_before_year y + sum_list (take (nat (m - 1)) (month_lengths y)) + day - 1"

lemma div_parts:
  fixes a b c e :: int
  assumes "0 \<le> b" "b \<le> 3" "0 \<le> c" "c \<le> 24" "0 \<le> e" "e \<le> 3"
  defines "n \<equiv> 400 * a + 100 * b + 4 * c + e"
  shows "n div 4 = 100 * a + 25 * b + c" and "n div 100 = 4 * a + b" and "n div 400 = a"
  using assms by (simp_all add: n_def)

lemma leap_parts:
  fixes a b c e :: int
  assumes "0 \<le> b" "b \<le> 3" "0 \<le> c" "c \<le> 24" "0 \<le> e" "e \<le> 3"
  shows "is_leap (400 * a + 100 * b + 4 * c + e + 1) \<longleftrightarrow> e = 3 \<and> (c \<noteq> 24 \<or> b = 3)"
proof -
  define y where "y = 400 * a + 100 * b + 4 * c + e + 1"
  have "y = e + 1 + 4 * (100 * a + 25 * b + c)" by (simp add: y_def)
  then have m4: "y mod 4 = (e + 1) mod 4" by (simp only: mod_mult_self2)
  have "y = 4 * c + e + 1 + 100 * (4 * a + b)" by (simp add: y_def)
  then have m100: "y mod 100 = (4 * c + e + 1) mod 100" by (simp only: mod_mult_self2)
  have "y = 100 * b + 4 * c + e + 1 + 400 * a" by (simp add: y_def)
  then have m400: "y mod 400 = (100 * b + 4 * c + e + 1) mod 400" by (simp only: mod_mult_self2)
  show ?thesis
  proof (cases "e = 3")
    case True
    have "y mod 4 = 0" using True by (simp add: m4)
    moreover have "y mod 100 = 0 \<longleftrightarrow> c = 24"
      using True assms by (cases "c = 24") (simp_all add: m100)
    moreover have "y mod 400 = 0 \<longleftrightarrow> b = 3" if "c = 24"
      using True that assms by (cases "b = 3") (simp_all add: m400)
    ultimately show ?thesis using True unfolding y_def [symmetric] is_leap_def by auto
  next
    case False
    then have "y mod 4 \<noteq> 0" using assms by (simp add: m4)
    with False show ?thesis by (simp add: is_leap_def y_def [symmetric])
  qed
qed

lemma year_yday_correct:
  assumes "year_yday d = (y, yday)"
  shows "days_before_year y + yday = d" and "0 \<le> yday" and "yday < (if is_leap y then 366 else 365)"
proof -
  define a r where "a = d div 146097" and "r = d mod 146097"
  define b r1 where "b = min 3 (r div 36524)" and "r1 = r - b * 36524"
  define c r2 where "c = r1 div 1461" and "r2 = r1 mod 1461"
  define e where "e = min 3 (r2 div 365)"
  have y: "y = 400 * a + 100 * b + 4 * c + e + 1" and yd: "yday = r2 - e * 365"
    using assms [unfolded year_yday_def Let_def, folded a_def r_def, folded b_def, folded r1_def, folded c_def r2_def, folded e_def]
    by simp_all
  have d: "d = 146097 * a + r" and r: "0 \<le> r" "r < 146097" by (auto simp: a_def r_def)
  have b: "0 \<le> b" "b \<le> 3" "0 \<le> r1" "r1 < 36524 \<or> b = 3 \<and> r1 \<le> 36524"
    using r unfolding b_def r1_def min_def by (auto split: if_splits)
  have r1: "r1 = 1461 * c + r2" and r2: "0 \<le> r2" "r2 < 1461" by (auto simp: c_def r2_def)
  have c: "0 \<le> c" "c \<le> 24" using b r1 r2 unfolding c_def by linarith+
  have e: "0 \<le> e" "e \<le> 3" "0 \<le> r2 - e * 365" "r2 - e * 365 < 365 \<or> e = 3 \<and> r2 - e * 365 \<le> 365"
    using r2 unfolding e_def min_def by (auto split: if_splits)
  show "days_before_year y + yday = d"
    using div_parts [OF b(1,2) c e(1,2), of a] unfolding y yd days_before_year_def d
    by (simp add: r1 [symmetric] r1_def)
  show "0 \<le> yday" using e by (simp add: yd)
  show "yday < (if is_leap y then 366 else 365)"
    unfolding y yd leap_parts [OF b(1,2) c e(1,2)] using e b r1 r2 c by auto
qed

lemma find_month_correct:
  assumes "find_month ls m d = (m', day)" and "0 \<le> d" and "d < sum_list ls" and "list_all (\<lambda>l. 0 < l) ls"
  shows "m \<le> m'" and "m' < m + int (length ls)" and "1 \<le> day" and "day \<le> ls ! nat (m' - m)"
    and "sum_list (take (nat (m' - m)) ls) + day = d + 1"
proof -
  have "m \<le> m' \<and> m' < m + int (length ls) \<and> 1 \<le> day \<and> day \<le> ls ! nat (m' - m)
    \<and> sum_list (take (nat (m' - m)) ls) + day = d + 1"
    using assms
  proof (induction ls m d rule: find_month.induct)
    case (2 l ls m d)
    show ?case
    proof (cases "d < l")
      case False
      then have IH: "m + 1 \<le> m' \<and> m' < m + 1 + int (length ls) \<and> 1 \<le> day \<and> day \<le> ls ! nat (m' - (m + 1))
          \<and> sum_list (take (nat (m' - (m + 1))) ls) + day = d - l + 1"
        using 2 by auto
      then have n: "nat (m' - m) = Suc (nat (m' - (m + 1)))" by (simp add: Suc_nat_eq_nat_zadd1)
      from IH show ?thesis by (simp add: n)
    qed (use 2 in auto)
  qed auto
  then show "m \<le> m'" "m' < m + int (length ls)" "1 \<le> day" "day \<le> ls ! nat (m' - m)"
    "sum_list (take (nat (m' - m)) ls) + day = d + 1" by auto
qed

lemma month_lengths_facts:
  "length (month_lengths y) = 12" "list_all (\<lambda>l. 0 < l) (month_lengths y)"
  "sum_list (month_lengths y) = (if is_leap y then 366 else 365)" "\<forall>l \<in> set (month_lengths y). l \<le> 31"
  by (simp_all add: month_lengths_def)

theorem civil_of_day_correct:
  assumes "civil_of_day d = (y, m, day)"
  shows "day_of_civil y m day = d" and "1 \<le> m" and "m \<le> 12" and "1 \<le> day" and "day \<le> days_in m y" and "day \<le> 31"
proof -
  obtain yday where yy: "year_yday d = (y, yday)" and fm: "find_month (month_lengths y) 1 yday = (m, day)"
    using assms by (auto simp: civil_of_day_def split: prod.splits)
  note yc = year_yday_correct [OF yy]
  have "yday < sum_list (month_lengths y)" using yc(3) by (simp add: month_lengths_facts(3))
  note fc = find_month_correct [OF fm yc(2) this month_lengths_facts(2)]
  show "day_of_civil y m day = d" using fc(5) yc(1) by (simp add: day_of_civil_def)
  show "1 \<le> m" "m \<le> 12" "1 \<le> day" "day \<le> days_in m y"
    using fc by (simp_all add: month_lengths_facts(1) days_in_def)
  have "month_lengths y ! nat (m - 1) \<in> set (month_lengths y)"
    using fc by (intro nth_mem) (simp add: month_lengths_facts(1))
  then show "day \<le> 31" using fc(4) month_lengths_facts(4) [of y] by force
qed


section \<open>Printing with RFC3339Nano\<close>

definition pad_nat :: "nat \<Rightarrow> nat \<Rightarrow> string" where
  "pad_nat w n = (let s = show_nat n in replicate (w - length s) CHR ''0'' @ s)"

definition append_int :: "int \<Rightarrow> nat \<Rightarrow> string" where
  "append_int x w = (if x < 0 then CHR ''-'' # pad_nat w (nat (- x)) else pad_nat w (nat x))"

definition strip_zeros :: "string \<Rightarrow> string" where
  "strip_zeros s = rev (dropWhile (\<lambda>c. c = CHR ''0'') (rev s))"

definition frac_text :: "int \<Rightarrow> string" where
  "frac_text ns = (if ns = 0 then [] else CHR ''.'' # strip_zeros (pad_nat 9 (nat ns)))"

definition nanos_per_second :: int where "nanos_per_second = 1000000000"

definition year_of :: "instant \<Rightarrow> int" where
  "year_of t = fst (civil_of_day (t div nanos_per_second div 86400 + unix_epoch_day))"

definition format_rfc3339nano :: "instant \<Rightarrow> string" where
  "format_rfc3339nano t =
     (let sec = t div nanos_per_second; ns = t mod nanos_per_second; sod = sec mod 86400
      in case civil_of_day (sec div 86400 + unix_epoch_day) of (y, m, d) \<Rightarrow>
        append_int y 4 @ ''-'' @ append_int m 2 @ ''-'' @ append_int d 2 @ ''T''
        @ append_int (sod div 3600) 2 @ '':'' @ append_int (sod mod 3600 div 60) 2 @ '':'' @ append_int (sod mod 60) 2
        @ frac_text ns @ ''Z'')"


section \<open>Parsing with RFC3339Nano\<close>

text \<open>
  The general parser of the library, specialised to the layout: each element takes its
  text off the front of the value, and a failure anywhere is an error.
\<close>

definition expect :: "char \<Rightarrow> string \<Rightarrow> string option" where
  "expect c s = (case s of x # xs \<Rightarrow> (if x = c then Some xs else None) | [] \<Rightarrow> None)"

definition getnum :: "bool \<Rightarrow> string \<Rightarrow> (int \<times> string) option" where
  "getnum fixed s =
     (case s of [] \<Rightarrow> None
      | a # rest \<Rightarrow>
        if \<not> is_digit a then None
        else (case rest of
            b # rest' \<Rightarrow>
              if is_digit b then Some (int (digit_val a * 10 + digit_val b), rest')
              else if fixed then None else Some (int (digit_val a), rest)
          | [] \<Rightarrow> if fixed then None else Some (int (digit_val a), rest)))"

definition get_year :: "string \<Rightarrow> (int \<times> string) option" where
  "get_year s = (if length s < 4 \<or> \<not> list_all is_digit (take 4 s) then None
     else Some (int (read_nat (take 4 s)), drop 4 s))"

definition get_in :: "bool \<Rightarrow> int \<Rightarrow> int \<Rightarrow> string \<Rightarrow> (int \<times> string) option" where
  "get_in fixed lo hi s = (case getnum fixed s of None \<Rightarrow> None
     | Some (n, rest) \<Rightarrow> if lo \<le> n \<and> n \<le> hi then Some (n, rest) else None)"

text \<open>The optional fraction: digits after the ninth are dropped.\<close>

definition get_frac :: "string \<Rightarrow> int \<times> string" where
  "get_frac s =
     (case s of c # d # rest \<Rightarrow>
        if (c = CHR ''.'' \<or> c = CHR '','') \<and> is_digit d then
          (let ds = takeWhile is_digit (d # rest); n = min 9 (length ds)
           in (int (read_nat (take n ds) * 10 ^ (9 - n)), dropWhile is_digit (d # rest)))
        else (0, s)
      | _ \<Rightarrow> (0, s))"

text \<open>The zone: \<open>Z\<close>, or a signed offset in hours and minutes; the result is in seconds.\<close>

definition get_zone :: "string \<Rightarrow> (int \<times> string) option" where
  "get_zone s =
     (case s of [] \<Rightarrow> None
      | c # rest \<Rightarrow>
        if c = CHR ''Z'' then Some (0, rest)
        else if length s < 6 \<or> s ! 3 \<noteq> CHR '':'' then None
        else (case (getnum True (take 2 (drop 1 s)), getnum True (take 2 (drop 4 s))) of
            (Some (h, _), Some (m, _)) \<Rightarrow>
              if h > 24 \<or> m > 60 then None
              else if c = CHR ''+'' then Some ((h * 60 + m) * 60, drop 6 s)
              else if c = CHR ''-'' then Some (- ((h * 60 + m) * 60), drop 6 s)
              else None
          | _ \<Rightarrow> None))"

definition parse_rfc3339nano :: "string \<Rightarrow> instant option" where
  "parse_rfc3339nano s0 = do {
     (y, s) \<leftarrow> get_year s0;
     s \<leftarrow> expect CHR ''-'' s;
     (m, s) \<leftarrow> get_in True 1 12 s;
     s \<leftarrow> expect CHR ''-'' s;
     (d, s) \<leftarrow> getnum True s;
     s \<leftarrow> expect CHR ''T'' s;
     (hh, s) \<leftarrow> get_in False 0 23 s;
     s \<leftarrow> expect CHR '':'' s;
     (mm, s) \<leftarrow> get_in True 0 59 s;
     s \<leftarrow> expect CHR '':'' s;
     (ss, s) \<leftarrow> get_in True 0 59 s;
     let (ns, s) = get_frac s;
     (offset, s) \<leftarrow> get_zone s;
     if s \<noteq> [] then None
     else if d < 1 \<or> d > days_in m y then None
     else Some ((((day_of_civil y m d - unix_epoch_day) * 86400 + hh * 3600 + mm * 60 + ss) - offset) * nanos_per_second + ns) }"

section \<open>Printing and parsing\<close>

lemma read_nat_append: "read_nat (s @ t) = read_nat s * 10 ^ length t + read_nat t"
proof -
  have "foldl (\<lambda>n c. 10 * n + digit_val c) a t = a * 10 ^ length t + foldl (\<lambda>n c. 10 * n + digit_val c) 0 t" for a
  proof (induction t arbitrary: a)
    case (Cons c t)
    show ?case using Cons [of "10 * a + digit_val c"] Cons [of "digit_val c"] by (simp add: algebra_simps)
  qed simp
  then show ?thesis unfolding read_nat_def foldl_append .
qed

lemma read_nat_zeros: "read_nat (replicate k CHR ''0'') = 0"
  by (induction k) (simp_all add: read_nat_def digit_val_def)

lemma length_show_nat: "n < 10 ^ w \<Longrightarrow> 0 < w \<Longrightarrow> length (show_nat n) \<le> w"
proof (induction n arbitrary: w rule: show_nat.induct)
  case (1 n)
  show ?case
  proof (cases "n < 10")
    case True
    then show ?thesis using 1 by (subst show_nat.simps) simp
  next
    case False
    obtain w' where w: "w = Suc w'" using 1 by (cases w) auto
    have "n div 10 < 10 ^ w'" using 1(2) by (simp add: w div_less_iff_less_mult mult.commute)
    moreover have "0 < w'" using False 1(2) by (cases w') (auto simp: w)
    ultimately show ?thesis using 1(1) False by (subst show_nat.simps) (simp add: w)
  qed
qed

lemma pad_nat_facts:
  assumes "n < 10 ^ w" and "0 < w"
  shows "length (pad_nat w n) = w" and "list_all is_digit (pad_nat w n)" and "read_nat (pad_nat w n) = n"
proof -
  have "length (show_nat n) \<le> w" using length_show_nat assms by blast
  then show "length (pad_nat w n) = w" by (simp add: pad_nat_def Let_def)
  have "is_digit CHR ''0''" by (simp add: is_digit_def)
  then show "list_all is_digit (pad_nat w n)"
    using show_nat_digits [of n] by (auto simp: pad_nat_def Let_def list_all_iff)
  show "read_nat (pad_nat w n) = n" by (simp add: pad_nat_def Let_def read_nat_append read_nat_zeros)
qed

lemma two_digits:
  assumes "0 \<le> x" and "x \<le> 99"
  obtains a b where "append_int x 2 = [a, b]" and "is_digit a" and "is_digit b" and "int (digit_val a * 10 + digit_val b) = x"
proof -
  note p = pad_nat_facts [of "nat x" 2]
  have lt: "nat x < 10 ^ 2" using assms by simp
  then obtain a b where ab: "pad_nat 2 (nat x) = [a, b]"
    using p(1) by (auto simp: numeral_2_eq_2 length_Suc_conv)
  have "is_digit a" "is_digit b" "digit_val a * 10 + digit_val b = nat x"
    using p(2,3) [OF lt] by (simp_all add: ab read_nat_def)
  with assms show ?thesis by (intro that [of a b]) (simp_all add: append_int_def ab)
qed

lemma get_in_append_int:
  assumes "lo \<le> x" and "x \<le> hi" and "0 \<le> x" and "x \<le> 99"
  shows "get_in fixed lo hi (append_int x 2 @ rest) = Some (x, rest)"
    and "getnum fixed (append_int x 2 @ rest) = Some (x, rest)"
proof -
  obtain a b where ab: "append_int x 2 = [a, b]" "is_digit a" "is_digit b" "int (digit_val a * 10 + digit_val b) = x"
    using two_digits assms(3,4) by blast
  then show g: "getnum fixed (append_int x 2 @ rest) = Some (x, rest)" by (simp add: getnum_def)
  then show "get_in fixed lo hi (append_int x 2 @ rest) = Some (x, rest)"
    using assms(1,2) by (simp add: get_in_def)
qed

lemma expect_simps [simp]: "expect c (c # s) = Some s"
  by (simp add: expect_def)

lemma get_year_append_int:
  assumes "0 \<le> y" and "y \<le> 9999"
  shows "get_year (append_int y 4 @ rest) = Some (y, rest)"
proof -
  have "nat y < 10 ^ 4" using assms by simp
  note p = pad_nat_facts [OF this]
  have "append_int y 4 = pad_nat 4 (nat y)" using assms by (simp add: append_int_def)
  then show ?thesis using p assms(1) by (simp add: get_year_def)
qed

lemma takeWhile_eq_replicate: "takeWhile (\<lambda>c. c = z) xs = replicate (length (takeWhile (\<lambda>c. c = z) xs)) z"
  by (induction xs) auto

lemma strip_zeros_decomp: "\<exists>k. s = strip_zeros s @ replicate k CHR ''0''"
proof -
  let ?z = "takeWhile (\<lambda>c. c = CHR ''0'') (rev s)"
  have "rev s = ?z @ rev (strip_zeros s)" by (simp add: strip_zeros_def)
  then have "rev s = replicate (length ?z) CHR ''0'' @ rev (strip_zeros s)"
    using takeWhile_eq_replicate by metis
  then have "rev (rev s) = rev (replicate (length ?z) CHR ''0'' @ rev (strip_zeros s))" by (rule arg_cong)
  then show ?thesis unfolding rev_append rev_replicate rev_rev_ident by blast
qed

lemma get_frac_text:
  assumes "0 \<le> ns" and "ns < nanos_per_second"
  shows "get_frac (frac_text ns @ ''Z'') = (ns, ''Z'')"
proof (cases "ns = 0")
  case True
  then show ?thesis by (simp add: frac_text_def get_frac_def)
next
  case False
  define s where "s = pad_nat 9 (nat ns)"
  have "nat ns < 10 ^ 9" using assms by (simp add: nanos_per_second_def)
  note p = pad_nat_facts [OF this, folded s_def]
  obtain k where k: "s = strip_zeros s @ replicate k CHR ''0''" using strip_zeros_decomp by blast
  define t where "t = strip_zeros s"
  have len: "length t + k = 9" using p(1) k unfolding t_def by (metis length_append length_replicate zero_less_numeral)
  have digs: "list_all is_digit t" using p(2) k unfolding t_def by (metis list_all_append zero_less_numeral)
  have val: "read_nat t * 10 ^ k = nat ns"
    using p(3) read_nat_append [of t "replicate k CHR ''0''"] k unfolding t_def [symmetric]
    by (simp add: read_nat_zeros)
  have "t \<noteq> []" using val False assms(1) by (auto simp: read_nat_def)
  then obtain d ds where t: "t = d # ds" by (cases t) auto
  have tw: "takeWhile is_digit (t @ ''Z'') = t" "dropWhile is_digit (t @ ''Z'') = ''Z''"
    using digs by (simp_all add: list_all_iff takeWhile_append2 dropWhile_append2 is_digit_def)
  have "get_frac (frac_text ns @ ''Z'') = (int (read_nat (take (min 9 (length t)) t) * 10 ^ (9 - min 9 (length t))), ''Z'')"
    using tw digs False by (simp add: frac_text_def s_def [symmetric] t_def [symmetric] get_frac_def t Let_def)
  moreover have "min 9 (length t) = length t" "9 - length t = k" using len by auto
  ultimately show ?thesis using val assms(1) by simp
qed


lemma format_parts:
  assumes "civil_of_day (t div nanos_per_second div 86400 + unix_epoch_day) = (y, m, d)"
  shows "format_rfc3339nano t =
     append_int y 4 @ ''-'' @ append_int m 2 @ ''-'' @ append_int d 2 @ ''T''
     @ append_int (t div nanos_per_second mod 86400 div 3600) 2 @ '':''
     @ append_int (t div nanos_per_second mod 86400 mod 3600 div 60) 2 @ '':''
     @ append_int (t div nanos_per_second mod 86400 mod 60) 2 @ frac_text (t mod nanos_per_second) @ ''Z''"
  using assms by (simp add: format_rfc3339nano_def Let_def)

text \<open>A time whose year has four digits is read back, to the nanosecond.\<close>

lemma parse_format_rfc3339nano:
  assumes "0 \<le> year_of t" and "year_of t \<le> 9999"
  shows "parse_rfc3339nano (format_rfc3339nano t) = Some t"
proof -
  define sec ns where "sec = t div nanos_per_second" and "ns = t mod nanos_per_second"
  define sod where "sod = sec mod 86400"
  obtain y m d where c: "civil_of_day (sec div 86400 + unix_epoch_day) = (y, m, d)"
    by (metis prod_cases3)
  note cc = civil_of_day_correct [OF c]
  have y: "0 \<le> y" "y \<le> 9999" using assms c by (simp_all add: year_of_def sec_def)
  have sod: "0 \<le> sod" "sod < 86400" by (simp_all add: sod_def)
  have hms: "0 \<le> sod div 3600" "sod div 3600 \<le> 23" "0 \<le> sod mod 3600 div 60" "sod mod 3600 div 60 \<le> 59"
      "0 \<le> sod mod 60" "sod mod 60 \<le> 59" using sod by auto
  have ns: "0 \<le> ns" "ns < nanos_per_second" by (simp_all add: ns_def nanos_per_second_def)
  have f: "format_rfc3339nano t =
     append_int y 4 @ ''-'' @ append_int m 2 @ ''-'' @ append_int d 2 @ ''T''
     @ append_int (sod div 3600) 2 @ '':'' @ append_int (sod mod 3600 div 60) 2 @ '':''
     @ append_int (sod mod 60) 2 @ frac_text ns @ ''Z''"
    using format_parts [OF c [unfolded sec_def]] by (simp add: sod_def sec_def ns_def)
  have gets: "get_in True 1 12 (append_int m 2 @ s) = Some (m, s)"
      "getnum True (append_int d 2 @ s) = Some (d, s)"
      "get_in False 0 23 (append_int (sod div 3600) 2 @ s) = Some (sod div 3600, s)"
      "get_in True 0 59 (append_int (sod mod 3600 div 60) 2 @ s) = Some (sod mod 3600 div 60, s)"
      "get_in True 0 59 (append_int (sod mod 60) 2 @ s) = Some (sod mod 60, s)" for s
    using cc hms by (intro get_in_append_int(1) get_in_append_int(2) [where lo = 0 and hi = 99]; linarith)+
  have "sod div 3600 * 3600 + sod mod 3600 div 60 * 60 + sod mod 60 = sod"
  proof -
    have "sod mod 60 = sod mod 3600 mod 60" by (simp add: mod_mod_cancel)
    then show ?thesis using div_mult_mod_eq [of sod 3600] div_mult_mod_eq [of "sod mod 3600" 60] by linarith
  qed
  moreover have "sec div 86400 * 86400 + sod = sec" by (simp add: sod_def)
  moreover have "sec * nanos_per_second + ns = t" by (simp add: sec_def ns_def)
  moreover have "(day_of_civil y m d - unix_epoch_day) * 86400 = sec div 86400 * 86400" by (simp add: cc(1))
  ultimately have "(day_of_civil y m d - unix_epoch_day) * 86400 + sod div 3600 * 3600 + sod mod 3600 div 60 * 60
      + sod mod 60 = sec" and "sec * nanos_per_second + ns = t" by linarith+
  then have t: "((day_of_civil y m d - unix_epoch_day) * 86400 + sod div 3600 * 3600 + sod mod 3600 div 60 * 60
      + sod mod 60) * nanos_per_second + ns = t" by simp
  show ?thesis
    unfolding f parse_rfc3339nano_def using cc(4,5) t
    by (simp add: get_year_append_int [OF y] gets get_frac_text [OF ns] get_zone_def)
qed

text \<open>A year outside 0 to 9999 is printed in a form that is not read back.\<close>

lemma length_show_nat_ge: "10 ^ w \<le> n \<Longrightarrow> w < length (show_nat n)"
proof (induction w arbitrary: n)
  case 0
  then show ?case by (cases "show_nat n") auto
next
  case (Suc w)
  then have "10 ^ w \<le> n div 10" by (simp add: less_eq_div_iff_mult_less_eq mult.commute)
  with Suc.IH have "w < length (show_nat (n div 10))" .
  moreover have "(1 :: nat) \<le> 10 ^ w" by simp
  then have "\<not> n < 10" using Suc.prems unfolding power_Suc by linarith
  ultimately show ?case by (subst show_nat.simps) simp
qed

lemma parse_format_rejects:
  assumes "year_of t < 0 \<or> 9999 < year_of t"
  shows "parse_rfc3339nano (format_rfc3339nano t) = None"
proof -
  obtain y m d where c: "civil_of_day (t div nanos_per_second div 86400 + unix_epoch_day) = (y, m, d)"
    by (metis prod_cases3)
  then have y: "y = year_of t" by (simp add: year_of_def)
  obtain rest where f: "format_rfc3339nano t = append_int y 4 @ rest" using format_parts [OF c] by blast
  have "get_year (append_int y 4 @ rest) \<bind> (\<lambda>(y, s). expect CHR ''-'' s) = None"
  proof (cases "y < 0")
    case True
    then show ?thesis by (simp add: append_int_def get_year_def is_digit_def)
  next
    case False
    then have "10 ^ 4 \<le> nat y" using assms y by simp
    from length_show_nat_ge [OF this] have l: "4 < length (show_nat (nat y))" .
    then have a: "append_int y 4 = show_nat (nat y)" using False by (simp add: append_int_def pad_nat_def)
    have d: "drop 4 (show_nat (nat y) @ rest) = show_nat (nat y) ! 4 # drop 5 (show_nat (nat y)) @ rest"
      using l by (simp add: Cons_nth_drop_Suc [symmetric])
    have "is_digit (show_nat (nat y) ! 4)" using show_nat_digits [of "nat y"] l by (simp add: list_all_iff)
    then have "show_nat (nat y) ! 4 \<noteq> CHR ''-''" by (auto simp: is_digit_def)
    then show ?thesis unfolding a get_year_def d by (simp add: expect_def)
  qed
  then show ?thesis
    unfolding f parse_rfc3339nano_def by (cases "get_year (append_int y 4 @ rest)") (auto split: prod.splits)
qed

lemma digits_of_append_int: "0 \<le> x \<Longrightarrow> list_all is_digit (append_int x w)"
  using show_nat_digits by (auto simp: append_int_def pad_nat_def Let_def list_all_iff is_digit_def)

lemma format_ascii: "list_all (\<lambda>c. ord c < 128) (format_rfc3339nano t)"
proof -
  have dig: "list_all is_digit s \<Longrightarrow> list_all (\<lambda>c. ord c < 128) s" for s
    by (auto simp: list_all_iff is_digit_def)
  have ai: "list_all (\<lambda>c. ord c < 128) (append_int x w)" for x w
    using dig [OF digits_of_append_int, of "\<bar>x\<bar>" w] by (cases "x < 0") (auto simp: append_int_def)
  have sub: "set (strip_zeros s) \<subseteq> set s" for s
    unfolding strip_zeros_def by (metis set_dropWhileD set_rev subsetI)
  have "list_all (\<lambda>c. ord c < 128) (pad_nat 9 n)" for n
    using dig digits_of_append_int [of "int n" 9] by (simp add: append_int_def)
  then have "list_all (\<lambda>c. ord c < 128) (frac_text ns)" for ns
    unfolding frac_text_def list_all_iff using sub by (auto dest: subsetD)
  with ai show ?thesis
    by (simp add: format_rfc3339nano_def Let_def split: prod.split)
qed

text \<open>The years that four digits can write.\<close>

definition year_ok :: "instant \<Rightarrow> bool" where
  "year_ok t \<longleftrightarrow> 0 \<le> year_of t \<and> year_of t \<le> 9999"

lemma year_of_epoch: "year_of 0 = 1970"
  by (simp add: year_of_def nanos_per_second_def civil_of_day_def year_yday_def unix_epoch_day_def Let_def split: prod.split)

end
