(* ===== verification/LegacyAdapter.thy ===== *)
theory LegacyAdapter
  imports Queue GoTime
begin

text \<open>
  internal/queue/adapter.go and adapter_legacy.go: the wire format of the legacy worker, a
  JSON object whose member \<open>args\<close> is the job's payload, embedded as it is after the
  compaction \<open>encoding/json\<close> applies to a \<open>json.RawMessage\<close>. A payload that is not one
  JSON value, or a year that has not four digits, makes the encoder fail.
\<close>


section \<open>Raw messages and times\<close>

text \<open>
  Compaction of a valid text: white space outside strings goes, and inside strings the
  characters the encoder escapes for HTML and JavaScript are escaped.
\<close>

function compact_text :: "bool \<Rightarrow> string \<Rightarrow> string" where
  "compact_text in_string s =
     (case s of [] \<Rightarrow> []
      | c # cs \<Rightarrow>
        (if c \<in> set ''<>&'' then escape_ascii c @ compact_text in_string cs
         else if is_line_sep s then
           bslash # ''u202'' @ [hex_digit (ord (s ! 2) mod 16)] @ compact_text in_string (drop 3 s)
         else if in_string then
           (if c = bslash then (case cs of [] \<Rightarrow> [c] | e # rest \<Rightarrow> c # e # compact_text True rest)
            else c # compact_text (c \<noteq> dquote) cs)
         else if is_space c then compact_text False cs
         else c # compact_text (c = dquote) cs))"
  by pat_completeness auto
termination
  by (relation "measure (\<lambda>(_, s). length s)") (auto simp: is_line_sep_def split: list.splits)

declare compact_text.simps [simp del]

definition enc_raw :: "byte_slice \<Rightarrow> go_error + string" where
  "enc_raw b = (case b of None \<Rightarrow> Inr ''null''
     | Some bs \<Rightarrow>
         (if json_parse (string_of_bytes bs) = None
          then Inl (Opaque ''json: error calling MarshalJSON for type json.RawMessage'')
          else Inr (compact_text False (string_of_bytes bs))))"

definition enc_time :: "instant \<Rightarrow> go_error + string" where
  "enc_time t =
     (if year_of t < 0 \<or> 9999 < year_of t
      then Inl (Opaque ''json: error calling MarshalJSON for type time.Time: Time.MarshalJSON: year outside of range [0,9999]'')
      else Inr (dquote # format_rfc3339nano t @ [dquote]))"


section \<open>The adapter\<close>

text \<open>
  \<open>PublishedAt\<close> is always set; \<open>LastError\<close> and \<open>ParentID\<close> never are, and are left out. The
  fields are encoded in order and the first that fails is the error.
\<close>

record legacyPubsubJob =
  legacy_ID :: string
  legacy_RunAt :: instant
  legacy_Queue :: string
  legacy_Args :: byte_slice
  legacy_Status :: string
  legacy_CreatedAt :: instant
  legacy_UpdatedAt :: instant
  legacy_JobType :: string
  legacy_PublishedAt :: "instant option"
  legacy_LastError :: "string option"
  legacy_ErrorCount :: int
  legacy_ParentID :: "string option"

text \<open>A sequence of encodings, each of which may fail; \<open>omitempty\<close> leaves out a nil pointer.\<close>

fun all_fields :: "(string \<times> (go_error + string)) list \<Rightarrow> go_error + (string \<times> string) list" where
  "all_fields [] = Inr []"
| "all_fields ((k, Inl e) # fs) = Inl e"
| "all_fields ((k, Inr v) # fs) = (case all_fields fs of Inl e \<Rightarrow> Inl e | Inr kvs \<Rightarrow> Inr ((k, v) # kvs))"

definition omit_empty :: "string \<Rightarrow> ('a \<Rightarrow> go_error + string) \<Rightarrow> 'a option \<Rightarrow> (string \<times> (go_error + string)) list" where
  "omit_empty k enc v = (case v of None \<Rightarrow> [] | Some x \<Rightarrow> [(k, enc x)])"

definition legacy_fields :: "legacyPubsubJob \<Rightarrow> (string \<times> (go_error + string)) list" where
  "legacy_fields m =
     [(''id'', Inr (enc_string (legacy_ID m))),
      (''run_at'', enc_time (legacy_RunAt m)),
      (''queue'', Inr (enc_string (legacy_Queue m))),
      (''args'', enc_raw (legacy_Args m)),
      (''status'', Inr (enc_string (legacy_Status m))),
      (''created_at'', enc_time (legacy_CreatedAt m)),
      (''updated_at'', enc_time (legacy_UpdatedAt m)),
      (''job_type'', Inr (enc_string (legacy_JobType m)))]
     @ omit_empty ''published_at'' enc_time (legacy_PublishedAt m)
     @ omit_empty ''last_error'' (\<lambda>t. Inr (enc_string t)) (legacy_LastError m)
     @ [(''error_count'', Inr (enc_int (legacy_ErrorCount m)))]
     @ omit_empty ''parent_id'' (\<lambda>t. Inr (enc_string t)) (legacy_ParentID m)"

definition legacy_message :: "instant \<Rightarrow> job \<Rightarrow> legacyPubsubJob" where
  "legacy_message now j = \<lparr>
     legacy_ID = job_ID j,
     legacy_RunAt = job_RunAt j,
     legacy_Queue = Priority_String (job_Priority j),
     legacy_Args = job_Payload j,
     legacy_Status = ''not_published'',
     legacy_CreatedAt = job_CreatedAt j,
     legacy_UpdatedAt = job_CreatedAt j,
     legacy_JobType = job_Type j,
     legacy_PublishedAt = Some now,
     legacy_LastError = None,
     legacy_ErrorCount = 0,
     legacy_ParentID = None\<rparr>"

type_synonym 'w message_adapter = "job \<Rightarrow> ('w, go_error + bytes) state"

definition LegacyAdapter_Marshal :: "'a env_scheme message_adapter" where
  "LegacyAdapter_Marshal j = do {
     now \<leftarrow> time_now;
     ret (case all_fields (legacy_fields (legacy_message now j)) of
            Inl e \<Rightarrow> Inl e
          | Inr fs \<Rightarrow> Inr (bytes_of_string (json_object fs))) }"


section \<open>When the adapter fails\<close>

definition payload_is_json :: "byte_slice \<Rightarrow> bool" where
  "payload_is_json b \<longleftrightarrow> (case b of None \<Rightarrow> True | Some bs \<Rightarrow> json_parse (string_of_bytes bs) \<noteq> None)"

lemma enc_time_ok: "(\<exists>t'. enc_time t = Inr t') \<longleftrightarrow> year_ok t"
  by (auto simp: enc_time_def year_ok_def)

lemma enc_raw_ok: "(\<exists>t'. enc_raw b = Inr t') \<longleftrightarrow> payload_is_json b"
  by (auto simp: enc_raw_def payload_is_json_def split: option.split)

lemma all_fields_ok: "(\<exists>kvs. all_fields fs = Inr kvs) \<longleftrightarrow> (\<forall>(k, r) \<in> set fs. \<exists>v. r = Inr v)"
proof (induction fs)
  case (Cons f fs)
  obtain k r where f: "f = (k, r)" by fastforce
  show ?case using Cons by (cases r; cases "all_fields fs") (auto simp: f)
qed simp

lemma all_fields_keys: "all_fields fs = Inr kvs \<Longrightarrow> map fst kvs = map fst fs"
proof (induction fs arbitrary: kvs)
  case (Cons f fs)
  obtain k r where f: "f = (k, r)" by fastforce
  show ?case using Cons by (cases r; cases "all_fields fs") (auto simp: f)
qed simp

lemma legacy_encodes_iff:
  "(\<exists>kvs. all_fields (legacy_fields (legacy_message now j)) = Inr kvs) \<longleftrightarrow>
     payload_is_json (job_Payload j) \<and> year_ok (job_RunAt j) \<and> year_ok (job_CreatedAt j) \<and> year_ok now"
  unfolding all_fields_ok enc_time_ok [symmetric] enc_raw_ok [symmetric]
  by (auto simp: legacy_fields_def legacy_message_def omit_empty_def)

text \<open>
  C37. The legacy adapter turns a job into a message exactly when its payload is nil or one
  valid JSON value and its times and the clock lie in the years 0 to 9999: a payload of any
  other bytes, the empty one included, never reaches a topic.
\<close>

lemma legacy_marshal_succeeds_iff:
  "(\<exists>data. fst (run_state (LegacyAdapter_Marshal j) w) = Inr data) \<longleftrightarrow>
     payload_is_json (job_Payload j) \<and> year_ok (job_RunAt j) \<and> year_ok (job_CreatedAt j) \<and> year_ok (clock w (ticks w))"
  using legacy_encodes_iff [of "clock w (ticks w)" j]
  by (cases "all_fields (legacy_fields (legacy_message (clock w (ticks w)) j))") (simp_all add: LegacyAdapter_Marshal_def)

end
