(* ===== verification/PubSub.thy ===== *)
theory PubSub
  imports LegacyAdapter GcsStore
begin

text \<open>
  internal/queue/pubsub.go: the backend that publishes each job to the topic of its
  priority, through a message adapter. The Pub/Sub client is outside this repository: the
  world keeps the messages handed to it, and an oracle gives the answer of the server for
  each. \<open>EnqueueBulk\<close> waits for the answers in goroutines; their order is left open.
\<close>


section \<open>The client\<close>

record message =
  message_topic :: string
  message_Data :: bytes
  message_Attributes :: "(string \<times> string) list"

record pubsub_world = gcs_world +
  published :: "message list"
  publish_errors :: "nat \<Rightarrow> go_error option"
  topic_exists :: "string \<Rightarrow> go_error + bool"

text \<open>A publish result is the position of its message; waiting for it reads the answer.\<close>

definition topic_Publish :: "string \<Rightarrow> bytes \<Rightarrow> (string \<times> string) list \<Rightarrow> ('a pubsub_world_scheme, nat) state" where
  "topic_Publish topic data attrs = State (\<lambda>w. (length (published w),
     w\<lparr>published := published w @ [\<lparr>message_topic = topic, message_Data = data, message_Attributes = attrs\<rparr>]\<rparr>))"

definition result_Get :: "nat \<Rightarrow> ('a pubsub_world_scheme, go_error option) state" where
  "result_Get n = read_world (\<lambda>w. publish_errors w n)"

lemma run_pubsub_ops [simp, go_ops]:
  "run_state (topic_Publish topic data attrs) w = (length (published w),
     w\<lparr>published := published w @ [\<lparr>message_topic = topic, message_Data = data, message_Attributes = attrs\<rparr>]\<rparr>)"
  "run_state (result_Get n) w = (publish_errors w n, w)"
  by (simp_all add: topic_Publish_def result_Get_def)


section \<open>The backend\<close>

record 'w pubsub_config =
  Project :: string
  HighTopic :: string
  MediumTopic :: string
  LowTopic :: string
  ImmediateTopic :: string
  Adapter :: "'w message_adapter option"

record 'w pubsub_backend =
  topics :: "(priority, string) gomap"
  adapter :: "'w message_adapter"

definition add_topic :: "priority \<Rightarrow> string \<Rightarrow> (priority, string) gomap \<Rightarrow> (priority, string) gomap" where
  "add_topic p name m = (if name = '''' then m else AList.update p name m)"

definition NewPubSubBackend :: "go_error option \<Rightarrow> 'w pubsub_config \<Rightarrow> go_error + 'w pubsub_backend" where
  "NewPubSubBackend client_error cfg =
     (if Project cfg = '''' then Inl (Opaque ''pubsub: project is required'')
      else (case Adapter cfg of None \<Rightarrow> Inl (Opaque ''pubsub: adapter is required'')
        | Some a \<Rightarrow>
          (case client_error of Some e \<Rightarrow> Inl (wrap_error ''pubsub: create client'' e)
           | None \<Rightarrow> Inr \<lparr>
               topics = add_topic PriorityImmediate (ImmediateTopic cfg) (add_topic PriorityLow (LowTopic cfg)
                 (add_topic PriorityMedium (MediumTopic cfg) (add_topic PriorityHigh (HighTopic cfg) []))),
               adapter = a\<rparr>)))"

definition topicFor :: "'w pubsub_backend \<Rightarrow> priority \<Rightarrow> go_error + string" where
  "topicFor b p =
     (case map_of (topics b) p of
        Some topic \<Rightarrow> Inr topic
      | None \<Rightarrow> (case map_of (topics b) PriorityMedium of
          Some topic \<Rightarrow> Inr topic
        | None \<Rightarrow> Inl (Opaque (''pubsub: no topic configured for priority '' @ Priority_String p))))"

definition FormatBool :: "bool \<Rightarrow> string" where
  "FormatBool b = (if b then ''true'' else ''false'')"

definition shadow_attrs :: "job \<Rightarrow> (string \<times> string) list" where
  "shadow_attrs j = [(''shadow'', FormatBool (job_Shadow j))]"

definition PubSubBackend_Enqueue ::
    "'a pubsub_world_scheme pubsub_backend \<Rightarrow> job \<Rightarrow> ('a pubsub_world_scheme, go_error option) state" where
  "PubSubBackend_Enqueue b j =
     (case topicFor b (job_Priority j) of
        Inl e \<Rightarrow> ret (Some e)
      | Inr topic \<Rightarrow> do {
          data \<leftarrow> adapter b j;
          case data of
            Inl e \<Rightarrow> ret (Some (wrap_error (''pubsub: marshal job '' @ job_ID j) e))
          | Inr data \<Rightarrow> do {
              let tags = [priority_tag (job_Priority j)];
              publishStart \<leftarrow> time_now;
              result \<leftarrow> topic_Publish topic data (shadow_attrs j);
              err \<leftarrow> result_Get result;
              case err of
                Some e \<Rightarrow> do {
                  emit (Incr ''jack.publish.count'' (tags @ [''status:error'']));
                  ret (Some (wrap_error (''pubsub: publish job '' @ job_ID j) e)) }
              | None \<Rightarrow> do {
                  emit (Incr ''jack.publish.count'' (tags @ [''status:success'']));
                  d \<leftarrow> time_since publishStart;
                  emit (DistSeconds ''jack.publish.duration'' d tags);
                  ret None } } })"

text \<open>A pending publish: it failed before it was sent, or its result is to be waited for.\<close>

datatype pending = Failed go_error | Sent nat

definition publish_one ::
    "'a pubsub_world_scheme pubsub_backend \<Rightarrow> job \<Rightarrow> ('a pubsub_world_scheme, pending) state" where
  "publish_one b j =
     (case topicFor b (job_Priority j) of
        Inl e \<Rightarrow> ret (Failed e)
      | Inr topic \<Rightarrow> do {
          data \<leftarrow> adapter b j;
          case data of
            Inl e \<Rightarrow> ret (Failed (wrap_error ''marshal'' e))
          | Inr data \<Rightarrow> do {
              pr \<leftarrow> topic_Publish topic data (shadow_attrs j);
              ret (Sent pr) } })"

text \<open>
  The second loop: a failed entry is written into its slot of the results at once, the
  others are left to goroutines.
\<close>

fun wait_loop :: "nat \<Rightarrow> job list \<Rightarrow> pending list \<Rightarrow> enqueue_result list \<Rightarrow> enqueue_result list \<times> (nat \<times> nat) list" where
  "wait_loop i jobs [] results = (results, [])"
| "wait_loop i jobs (Failed e # ps) results =
     wait_loop (Suc i) jobs ps (results[i := \<lparr>result_JobID = job_ID (jobs ! i), result_Error = Some e\<rparr>])"
| "wait_loop i jobs (Sent pr # ps) results =
     (case wait_loop (Suc i) jobs ps results of (results, waiting) \<Rightarrow> (results, (i, pr) # waiting))"

text \<open>The goroutine for the slot \<open>idx\<close>, and all of them in some order.\<close>

definition wait_one :: "job list \<Rightarrow> nat \<times> nat \<Rightarrow> enqueue_result list \<Rightarrow> ('a pubsub_world_scheme, enqueue_result list) state" where
  "wait_one jobs task results = (case task of (idx, pr) \<Rightarrow> do {
     err \<leftarrow> result_Get pr;
     ret (results[idx := (case err of
        Some e \<Rightarrow> \<lparr>result_JobID = job_ID (jobs ! idx), result_Error = Some (wrap_error ''pubsub: publish'' e)\<rparr>
      | None \<Rightarrow> \<lparr>result_JobID = job_ID (jobs ! idx), result_Error = None\<rparr>)]) })"

fun wait_all :: "job list \<Rightarrow> (nat \<times> nat) list \<Rightarrow> enqueue_result list \<Rightarrow> ('a pubsub_world_scheme, enqueue_result list) state" where
  "wait_all jobs [] results = ret results"
| "wait_all jobs (t # ts) results = do { results \<leftarrow> wait_one jobs t results; wait_all jobs ts results }"

definition publish_metric :: "job \<times> enqueue_result \<Rightarrow> metric" where
  "publish_metric jr = Incr ''jack.publish.count'' [priority_tag (job_Priority (fst jr)),
     if result_Error (snd jr) \<noteq> None then ''status:error'' else ''status:success'']"

definition PubSubBackend_EnqueueBulk ::
    "'a pubsub_world_scheme pubsub_backend \<Rightarrow> job list \<Rightarrow> ('a pubsub_world_scheme, enqueue_result list) state" where
  "PubSubBackend_EnqueueBulk b jobs = do {
     pending \<leftarrow> State_Monad.traverse_list (publish_one b) jobs;
     let (results, waiting) = wait_loop 0 jobs pending (replicate (length jobs) zero_result);
     order \<leftarrow> any_order waiting;
     results \<leftarrow> wait_all jobs order results;
     foreach (zip jobs results) (\<lambda>jr. emit (publish_metric jr));
     ret results }"

fun check_topics :: "(priority \<times> string) list \<Rightarrow> ('a pubsub_world_scheme, go_error option) state" where
  "check_topics [] = ret None"
| "check_topics ((p, topic) # ts) = do {
     exists \<leftarrow> read_world (\<lambda>w. topic_exists w topic);
     case exists of
       Inl e \<Rightarrow> ret (Some (wrap_error (''pubsub: health check for '' @ Priority_String p @ '' topic'') e))
     | Inr ok \<Rightarrow>
         if \<not> ok then ret (Some (Opaque (''pubsub: topic '' @ topic @ '' for '' @ Priority_String p @ '' does not exist'')))
         else check_topics ts }"

definition PubSubBackend_Health ::
    "'a pubsub_world_scheme pubsub_backend \<Rightarrow> ('a pubsub_world_scheme, go_error option) state" where
  "PubSubBackend_Health b = do { order \<leftarrow> any_order (topics b); check_topics order }"

text \<open>Stopping the topics and closing the client changes nothing the model keeps; the client may report an error.\<close>

definition PubSubBackend_Close :: "go_error option \<Rightarrow> ('w, go_error option) state" where
  "PubSubBackend_Close client_error = ret client_error"

definition pubsub_queue :: "go_error option \<Rightarrow> 'a pubsub_world_scheme pubsub_backend \<Rightarrow> 'a pubsub_world_scheme backend" where
  "pubsub_queue close_error b = \<lparr>
     backend_Enqueue = PubSubBackend_Enqueue b,
     backend_EnqueueBulk = PubSubBackend_EnqueueBulk b,
     backend_Health = PubSubBackend_Health b,
     backend_Close = PubSubBackend_Close close_error\<rparr>"

section \<open>The adapter's contract\<close>

text \<open>An adapter touches neither the messages nor the answers, and its errors are its own.\<close>

locale adapter_contract =
  fixes A :: "'a pubsub_world_scheme message_adapter"
  assumes adapter_frame: "run_state (A j) w = (r, w') \<Longrightarrow>
      published w' = published w \<and> publish_errors w' = publish_errors w"
    and adapter_error: "run_state (A j) w = (Inl e, w') \<Longrightarrow> \<not> errors_is e ErrQueueUnavailable"

lemma all_fields_error: "all_fields fs = Inl e \<Longrightarrow> \<exists>k. (k, Inl e) \<in> set fs"
proof (induction fs)
  case (Cons f fs)
  obtain k r where f: "f = (k, r)" by fastforce
  show ?case using Cons by (cases r; cases "all_fields fs") (auto simp: f)
qed simp

lemma run_LegacyAdapter_Marshal:
  "run_state (LegacyAdapter_Marshal j) w =
     ((case all_fields (legacy_fields (legacy_message (clock w (ticks w)) j)) of
         Inl e \<Rightarrow> Inl e | Inr fs \<Rightarrow> Inr (bytes_of_string (json_object fs))), w\<lparr>ticks := Suc (ticks w)\<rparr>)"
  by (simp add: LegacyAdapter_Marshal_def)

lemma legacy_error:
  assumes "all_fields (legacy_fields m) = Inl e"
  shows "\<not> errors_is e s"
proof -
  obtain k where "(k, Inl e) \<in> set (legacy_fields m)" using all_fields_error [OF assms] by blast
  then show ?thesis
    by (auto simp: legacy_fields_def omit_empty_def enc_time_def enc_raw_def split: option.splits if_splits)
qed

interpretation legacy: adapter_contract LegacyAdapter_Marshal
  proof unfold_locales
  fix j :: job and w w' :: "'a pubsub_world_scheme" and e
  assume "run_state (LegacyAdapter_Marshal j) w = (Inl e, w')"
  then show "\<not> errors_is e ErrQueueUnavailable"
    by (cases "all_fields (legacy_fields (legacy_message (clock w (ticks w)) j))")
      (auto simp: run_LegacyAdapter_Marshal dest: legacy_error)
qed (auto simp: run_LegacyAdapter_Marshal)


section \<open>Goroutines in any order\<close>

definition wait_result :: "(nat \<Rightarrow> go_error option) \<Rightarrow> job \<Rightarrow> pending \<Rightarrow> enqueue_result" where
  "wait_result errs j p =
     (case p of Failed e \<Rightarrow> \<lparr>result_JobID = job_ID j, result_Error = Some e\<rparr>
      | Sent n \<Rightarrow> \<lparr>result_JobID = job_ID j, result_Error = map_option (wrap_error ''pubsub: publish'') (errs n)\<rparr>)"

lemma wait_loop_correct:
  assumes "wait_loop i jobs (drop i ps) results = (results', waiting)" and "length ps = length jobs"
    and "length results = length jobs" and "i \<le> length ps"
  shows "length results' = length jobs \<and> set waiting = {(k, pr). i \<le> k \<and> k < length ps \<and> ps ! k = Sent pr}
     \<and> (\<forall>k < length jobs. results' ! k = (case ps ! k of
          Failed e \<Rightarrow> if i \<le> k then wait_result errs (jobs ! k) (ps ! k) else results ! k
        | Sent _ \<Rightarrow> results ! k))"
  using assms
proof (induction "length ps - i" arbitrary: i results waiting)
  case 0
  then show ?case by (auto split: pending.splits)
next
  case (Suc n)
  then have i: "i < length ps" by simp
  then have d: "drop i ps = ps ! i # drop (Suc i) ps" by (simp add: Cons_nth_drop_Suc)
  have n: "n = length ps - Suc i" and le: "Suc i \<le> length ps" using Suc.hyps(2) by auto
  show ?case
  proof (cases "ps ! i")
    case (Failed e)
    with Suc.prems(1) d have "wait_loop (Suc i) jobs (drop (Suc i) ps)
        (results[i := \<lparr>result_JobID = job_ID (jobs ! i), result_Error = Some e\<rparr>]) = (results', waiting)" by simp
    from Suc.hyps(1) [OF n this Suc.prems(2) _ le] Suc.prems(3)
    have IH: "length results' = length jobs" "set waiting = {(k, pr). Suc i \<le> k \<and> k < length ps \<and> ps ! k = Sent pr}"
      "\<forall>k < length jobs. results' ! k = (case ps ! k of
          Failed e' \<Rightarrow> if Suc i \<le> k then wait_result errs (jobs ! k) (ps ! k)
            else results[i := \<lparr>result_JobID = job_ID (jobs ! i), result_Error = Some e\<rparr>] ! k
        | Sent _ \<Rightarrow> results[i := \<lparr>result_JobID = job_ID (jobs ! i), result_Error = Some e\<rparr>] ! k)" by auto
    have "set waiting = {(k, pr). i \<le> k \<and> k < length ps \<and> ps ! k = Sent pr}"
      unfolding IH(2) using Failed by (auto simp: Suc_le_eq le_less)
    moreover have "results' ! k = (case ps ! k of
          Failed e \<Rightarrow> if i \<le> k then wait_result errs (jobs ! k) (ps ! k) else results ! k
        | Sent _ \<Rightarrow> results ! k)" if "k < length jobs" for k
      using IH(3) that Failed Suc.prems(3)
      by (cases "k = i") (auto simp: wait_result_def nth_list_update split: pending.split)
    ultimately show ?thesis using IH(1) by blast
  next
    case (Sent pr)
    with Suc.prems(1) d obtain waiting' where w: "wait_loop (Suc i) jobs (drop (Suc i) ps) results = (results', waiting')"
      "waiting = (i, pr) # waiting'" by (auto split: prod.splits)
    note IH = Suc.hyps(1) [OF n w(1) Suc.prems(2,3) le]
    have "set waiting = {(k, pr). i \<le> k \<and> k < length ps \<and> ps ! k = Sent pr}"
      using IH i Sent by (auto simp: w(2) Suc_le_eq le_less)
    moreover have "results' ! k = (case ps ! k of
          Failed e \<Rightarrow> if i \<le> k then wait_result errs (jobs ! k) (ps ! k) else results ! k
        | Sent _ \<Rightarrow> results ! k)" if "k < length jobs" for k
      using IH that Sent by (cases "k = i") (auto split: pending.split)
    ultimately show ?thesis using IH by blast
  qed
qed

lemma run_wait_all:
  assumes "\<forall>(idx, pr) \<in> set ts. ps ! idx = Sent pr"
  shows "run_state (wait_all jobs ts results) w =
    (write_each (map fst ts) (\<lambda>k. wait_result (publish_errors w) (jobs ! k) (ps ! k)) results, w)"
  using assms
proof (induction ts arbitrary: results)
  case (Cons t ts)
  obtain idx pr where t: "t = (idx, pr)" by fastforce
  with Cons.prems have "ps ! idx = Sent pr" by simp
  then have "run_state (wait_one jobs t results) w =
      (results[idx := wait_result (publish_errors w) (jobs ! idx) (ps ! idx)], w)"
    by (simp add: t wait_one_def wait_result_def split: option.split)
  with Cons show ?case by (simp add: t)
qed simp

text \<open>Whatever the order, the slots hold the answers of their own jobs.\<close>

lemma wait_correct:
  assumes "wait_loop 0 jobs ps (replicate (length jobs) zero_result) = (results, waiting)"
    and "length ps = length jobs"
  shows "run_state (wait_all jobs (permute s waiting) results) w = (map2 (wait_result (publish_errors w)) jobs ps, w)"
proof -
  note wl = wait_loop_correct [where i = 0 and ps = ps and errs = "publish_errors w", simplified, OF assms(1) assms(2)]
  then have t: "\<forall>(idx, pr) \<in> set (permute s waiting). ps ! idx = Sent pr" by auto
  have "write_each (map fst (permute s waiting)) (\<lambda>k. wait_result (publish_errors w) (jobs ! k) (ps ! k)) results
      = map2 (wait_result (publish_errors w)) jobs ps"
  proof (rule nth_equalityI)
    fix k assume "k < length (write_each (map fst (permute s waiting)) (\<lambda>k. wait_result (publish_errors w) (jobs ! k) (ps ! k)) results)"
    then have k: "k < length jobs" "k < length results" using wl by simp_all
    have "k \<in> fst ` set waiting \<longleftrightarrow> (\<exists>pr. ps ! k = Sent pr)" using wl k assms(2) by force
    then show "write_each (map fst (permute s waiting)) (\<lambda>k. wait_result (publish_errors w) (jobs ! k) (ps ! k)) results ! k
        = map2 (wait_result (publish_errors w)) jobs ps ! k"
      using wl k assms(2) by (cases "ps ! k") (auto simp: write_each_nth)
  qed (use wl assms(2) in simp)
  then show ?thesis unfolding run_wait_all [OF t] by (simp only:)
qed

lemma run_foreach_emit:
  "run_state (foreach xs (\<lambda>x. emit (f x))) w = ((), w\<lparr>metrics := metrics w @ map f xs\<rparr>)"
  by (induction xs arbitrary: w) simp_all

lemma run_PubSubBackend_EnqueueBulk:
  assumes "run_state (State_Monad.traverse_list (publish_one b) jobs) w = (ps, w1)"
  defines "results \<equiv> map2 (wait_result (publish_errors w1)) jobs ps"
  shows "run_state (PubSubBackend_EnqueueBulk b jobs) w =
    (results, w1\<lparr>choice_pos := Suc (choice_pos w1), metrics := metrics w1 @ map publish_metric (zip jobs results)\<rparr>)"
proof -
  have len: "length ps = length jobs" using length_traverse_list [of "publish_one b" jobs w] assms(1) by simp
  obtain rs0 waiting where wl: "wait_loop 0 jobs ps (replicate (length jobs) zero_result) = (rs0, waiting)" by fastforce
  show ?thesis
    using wait_correct [OF wl len, of "choice w1 (choice_pos w1)" "w1\<lparr>choice_pos := Suc (choice_pos w1)\<rparr>"]
    by (simp add: PubSubBackend_EnqueueBulk_def assms(1) wl run_foreach_emit results_def)
qed

section \<open>The backend's contract\<close>

definition publish_foreign :: "'a pubsub_world_scheme \<Rightarrow> bool" where
  "publish_foreign w \<longleftrightarrow> (\<forall>n e. publish_errors w n = Some e \<longrightarrow> \<not> errors_is e ErrQueueUnavailable)"

lemma publish_foreign_cong:
  "publish_errors w' = publish_errors w \<Longrightarrow> publish_foreign w' = publish_foreign w"
  by (simp add: publish_foreign_def)

lemma topicFor_error: "topicFor b p = Inl e \<Longrightarrow> \<not> errors_is e s"
  by (auto simp: topicFor_def split: option.splits)

context adapter_contract begin

lemma publish_one_frame:
  assumes "adapter b = A" and "run_state (publish_one b j) w = (p, w')"
  shows "publish_errors w' = publish_errors w"
proof (cases "topicFor b (job_Priority j)")
  case (Inr topic)
  obtain r w1 where m: "run_state (A j) w = (r, w1)" by fastforce
  from adapter_frame [OF m] assms m Inr show ?thesis by (cases r) (auto simp: publish_one_def)
qed (use assms in \<open>auto simp: publish_one_def\<close>)

lemma publish_all_frame:
  assumes "adapter b = A" and "run_state (State_Monad.traverse_list (publish_one b) jobs) w = (ps, w')"
  shows "publish_errors w' = publish_errors w"
  using assms(2)
proof (induction jobs arbitrary: w ps)
  case (Cons j jobs)
  obtain p w1 where p: "run_state (publish_one b j) w = (p, w1)" by fastforce
  obtain ps' where ps: "run_state (State_Monad.traverse_list (publish_one b) jobs) w1 = (ps', w')"
    using Cons.prems p by (auto split: prod.splits)
  with Cons.IH [OF ps] publish_one_frame [OF assms(1) p] show ?case by simp
qed simp

lemma enqueue_errors:
  assumes "adapter b = A" and "publish_foreign w" and run: "run_state (PubSubBackend_Enqueue b j) w = (e, w')"
  shows "publish_foreign w' \<and> (\<forall>err. e = Some err \<longrightarrow> \<not> errors_is err ErrQueueUnavailable)"
proof (cases "topicFor b (job_Priority j)")
  case (Inl err)
  then show ?thesis using assms by (auto simp: PubSubBackend_Enqueue_def dest: topicFor_error)
next
  case (Inr topic)
  obtain r w1 where m: "run_state (A j) w = (r, w1)" by fastforce
  note f = adapter_frame [OF m]
  show ?thesis
  proof (cases r)
    case (Inl err)
    then show ?thesis using assms Inr m f adapter_error by (auto simp: PubSubBackend_Enqueue_def publish_foreign_def)
  next
    case (Inr data)
    then show ?thesis using assms \<open>topicFor b _ = _\<close> m f
      by (cases "publish_errors w (length (published w))")
        (auto simp: PubSubBackend_Enqueue_def publish_foreign_def Let_def)
  qed
qed

lemma enqueue_bulk_ids:
  assumes "adapter b = A" and "publish_foreign w" and run: "run_state (PubSubBackend_EnqueueBulk b jobs) w = (rs, w')"
  shows "publish_foreign w' \<and> map result_JobID rs = map job_ID jobs"
proof -
  obtain ps w1 where ps: "run_state (State_Monad.traverse_list (publish_one b) jobs) w = (ps, w1)" by fastforce
  have len: "length ps = length jobs" using length_traverse_list [of "publish_one b" jobs w] ps by simp
  have "rs = map2 (wait_result (publish_errors w1)) jobs ps" "publish_errors w' = publish_errors w1"
    using run run_PubSubBackend_EnqueueBulk [OF ps] by auto
  moreover have "map result_JobID (map2 (wait_result (publish_errors w1)) jobs ps) = map job_ID jobs"
    using len by (auto simp: list_eq_iff_nth_eq wait_result_def split: pending.split)
  ultimately show ?thesis using assms(2) publish_all_frame [OF assms(1) ps] by (simp add: publish_foreign_def)
qed

lemma backend:
  assumes b: "adapter b = A"
  shows "backend_contract (pubsub_queue close_error b) publish_foreign"
  by unfold_locales (auto simp: pubsub_queue_def dest: enqueue_errors [OF b] enqueue_bulk_ids [OF b])

end

definition legacy_pubsub :: "(priority, string) gomap \<Rightarrow> 'a pubsub_world_scheme pubsub_backend" where
  "legacy_pubsub ts = \<lparr>topics = ts, adapter = LegacyAdapter_Marshal\<rparr>"

lemma legacy_pubsub_simps [simp]: "topics (legacy_pubsub ts) = ts" "adapter (legacy_pubsub ts) = LegacyAdapter_Marshal"
  by (simp_all add: legacy_pubsub_def)

interpretation pubsub: backend_contract "pubsub_queue close_error (legacy_pubsub ts)" publish_foreign
  by (rule legacy.backend) simp


section \<open>What is published\<close>

text \<open>The message of a job: its topic, its legacy encoding at some instant, its shadow flag.\<close>

definition legacy_data :: "instant \<Rightarrow> job \<Rightarrow> go_error + bytes" where
  "legacy_data now j = (case all_fields (legacy_fields (legacy_message now j)) of
     Inl e \<Rightarrow> Inl e | Inr fs \<Rightarrow> Inr (bytes_of_string (json_object fs)))"

definition message_for :: "'w pubsub_backend \<Rightarrow> job \<Rightarrow> message \<Rightarrow> bool" where
  "message_for b j m \<longleftrightarrow> topicFor b (job_Priority j) = Inr (message_topic m)
     \<and> (\<exists>now. legacy_data now j = Inr (message_Data m)) \<and> message_Attributes m = shadow_attrs j"

lemma run_publish_one:
  assumes b: "adapter b = LegacyAdapter_Marshal"
  shows "run_state (publish_one b j) w =
     (case topicFor b (job_Priority j) of
        Inl e \<Rightarrow> (Failed e, w)
      | Inr topic \<Rightarrow> (case legacy_data (clock w (ticks w)) j of
          Inl e \<Rightarrow> (Failed (wrap_error ''marshal'' e), w\<lparr>ticks := Suc (ticks w)\<rparr>)
        | Inr data \<Rightarrow> (Sent (length (published w)), w\<lparr>ticks := Suc (ticks w),
            published := published w @ [\<lparr>message_topic = topic, message_Data = data, message_Attributes = shadow_attrs j\<rparr>]\<rparr>)))"
  by (cases "topicFor b (job_Priority j)"; cases "all_fields (legacy_fields (legacy_message (clock w (ticks w)) j))")
    (simp_all add: publish_one_def b run_LegacyAdapter_Marshal legacy_data_def)

definition is_sent :: "pending \<Rightarrow> bool" where
  "is_sent p \<longleftrightarrow> (case p of Sent _ \<Rightarrow> True | Failed _ \<Rightarrow> False)"

lemma is_sent_simps [simp]: "is_sent (Sent n)" "\<not> is_sent (Failed e)"
  by (simp_all add: is_sent_def)

lemma publish_one_message:
  assumes b: "adapter b = LegacyAdapter_Marshal" and p: "run_state (publish_one b j) w = (p, v)"
  shows "(\<exists>m. p = Sent (length (published w)) \<and> published v = published w @ [m] \<and> message_for b j m)
    \<or> (\<exists>e. p = Failed e \<and> published v = published w)"
proof (cases "topicFor b (job_Priority j)")
  case (Inr topic)
  then show ?thesis using p
    by (cases "legacy_data (clock w (ticks w)) j") (auto simp: run_publish_one [OF b] message_for_def)
qed (use p in \<open>auto simp: run_publish_one [OF b]\<close>)

lemma publish_all_messages:
  assumes b: "adapter b = LegacyAdapter_Marshal"
    and "run_state (State_Monad.traverse_list (publish_one b) jobs) w = (ps, w1)"
  shows "\<exists>ms. published w1 = published w @ ms \<and> length ms = length (filter is_sent ps)
    \<and> list_all2 (\<lambda>j p. \<forall>n. p = Sent n \<longrightarrow> length (published w) \<le> n \<and> n < length (published w1)
        \<and> message_for b j (published w1 ! n)) jobs ps"
  using assms(2)
proof (induction jobs arbitrary: w ps)
  case (Cons j jobs)
  obtain p v where p: "run_state (publish_one b j) w = (p, v)" by fastforce
  obtain ps' where ps: "run_state (State_Monad.traverse_list (publish_one b) jobs) v = (ps', w1)" "ps = p # ps'"
    using Cons.prems p by (auto split: prod.splits)
  obtain ms where ms: "published w1 = published v @ ms" "length ms = length (filter is_sent ps')"
    "list_all2 (\<lambda>j p. \<forall>n. p = Sent n \<longrightarrow> length (published v) \<le> n \<and> n < length (published w1)
        \<and> message_for b j (published w1 ! n)) jobs ps'"
    using Cons.IH [OF ps(1)] by blast
  have tl: "list_all2 (\<lambda>j p. \<forall>n. p = Sent n \<longrightarrow> length (published w) \<le> n \<and> n < length (published w1)
        \<and> message_for b j (published w1 ! n)) jobs ps'"
    by (rule list_all2_mono [OF ms(3)]) (use publish_one_message [OF b p] in auto)
  from publish_one_message [OF b p] show ?case
  proof (elim disjE exE conjE)
    fix m assume "p = Sent (length (published w))" "published v = published w @ [m]" "message_for b j m"
    then show ?case using ms(1,2) tl by (intro exI [of _ "m # ms"]) (auto simp: ps(2) nth_append)
  next
    fix e assume "p = Failed e" "published v = published w"
    then show ?case using ms(1,2) tl by (intro exI [of _ ms]) (auto simp: ps(2))
  qed
qed simp


section \<open>What a call to the backend changes\<close>

lemma PubSubBackend_Enqueue_effect:
  fixes w :: "'a pubsub_world_scheme"
  assumes b: "adapter b = LegacyAdapter_Marshal" and run: "run_state (PubSubBackend_Enqueue b j) w = (e, w')"
  shows "\<exists>n ms pb. w' = w\<lparr>ticks := n, metrics := ms, published := published w @ pb\<rparr>
    \<and> (\<forall>m \<in> set pb. message_for b j m) \<and> (e = None \<longrightarrow> (\<exists>m. pb = [m]) \<and> publish_errors w (length (published w)) = None)
    \<and> (e \<noteq> None \<longrightarrow> pb = [] \<or> (\<exists>m. pb = [m] \<and> publish_errors w (length (published w)) \<noteq> None))"
proof (cases "topicFor b (job_Priority j)")
  case (Inl err)
  then have "e = Some err" "w' = w" using run by (simp_all add: PubSubBackend_Enqueue_def)
  then show ?thesis by (intro exI [of _ "ticks w"] exI [of _ "metrics w"] exI [of _ "[]"]) simp
next
  case topic: (Inr topic)
  show ?thesis
  proof (cases "legacy_data (clock w (ticks w)) j")
    case (Inl err)
    then have "e \<noteq> None" "w' = w\<lparr>ticks := Suc (ticks w)\<rparr>"
      using run topic b by (auto simp: PubSubBackend_Enqueue_def run_LegacyAdapter_Marshal legacy_data_def split: sum.splits)
    then show ?thesis by (intro exI [of _ "Suc (ticks w)"] exI [of _ "metrics w"] exI [of _ "[]"]) simp
  next
    case (Inr data)
    let ?m = "\<lparr>message_topic = topic, message_Data = data, message_Attributes = shadow_attrs j\<rparr>"
    have "\<exists>n ms. w' = w\<lparr>ticks := n, metrics := ms, published := published w @ [?m]\<rparr>
      \<and> (e = None \<longleftrightarrow> publish_errors w (length (published w)) = None)"
    proof (cases "publish_errors w (length (published w))")
      case None
      then have "w' = w\<lparr>ticks := Suc (Suc (Suc (ticks w))), metrics := metrics w', published := published w @ [?m]\<rparr>" "e = None"
        using run topic b Inr
        by (auto simp: PubSubBackend_Enqueue_def run_LegacyAdapter_Marshal legacy_data_def Let_def split: sum.splits)
      moreover have "(e = None) = (publish_errors w (length (published w)) = None)" unfolding None using \<open>e = None\<close> by blast
      ultimately show ?thesis by (intro exI conjI)
    next
      case (Some err)
      then have "w' = w\<lparr>ticks := Suc (Suc (ticks w)), metrics := metrics w', published := published w @ [?m]\<rparr>" "e \<noteq> None"
        using run topic b Inr
        by (auto simp: PubSubBackend_Enqueue_def run_LegacyAdapter_Marshal legacy_data_def Let_def split: sum.splits)
      moreover have "(e = None) = (publish_errors w (length (published w)) = None)" unfolding Some using \<open>e \<noteq> None\<close> by blast
      ultimately show ?thesis by (intro exI conjI)
    qed
    moreover have "message_for b j ?m" using topic Inr by (auto simp: message_for_def)
    ultimately show ?thesis by (elim exE conjE, intro exI conjI) (assumption, auto)
  qed
qed

lemma publish_all_effect:
  fixes w :: "'a pubsub_world_scheme"
  assumes b: "adapter b = LegacyAdapter_Marshal"
    and "run_state (State_Monad.traverse_list (publish_one b) jobs) w = (ps, w')"
  shows "\<exists>n pb. w' = w\<lparr>ticks := n, published := published w @ pb\<rparr> \<and> (\<forall>m \<in> set pb. \<exists>j \<in> set jobs. message_for b j m)"
  using assms(2)
proof (induction jobs arbitrary: w ps)
  case Nil
  then have "w' = w" by simp
  then show ?case by (intro exI [of _ "ticks w"] exI [of _ "[]"]) simp
next
  case (Cons j jobs)
  obtain p v where p: "run_state (publish_one b j) w = (p, v)" by fastforce
  obtain ps' where ps: "run_state (State_Monad.traverse_list (publish_one b) jobs) v = (ps', w')"
    using Cons.prems p by (auto split: prod.splits)
  have "\<exists>n pb. v = w\<lparr>ticks := n, published := published w @ pb\<rparr> \<and> (\<forall>m \<in> set pb. message_for b j m)"
  proof (cases "topicFor b (job_Priority j)")
    case (Inl e)
    then have "v = w\<lparr>ticks := ticks w, published := published w @ []\<rparr>" using p by (simp add: run_publish_one [OF b])
    then show ?thesis by (metis empty_iff empty_set)
  next
    case (Inr topic)
    show ?thesis
    proof (cases "legacy_data (clock w (ticks w)) j")
      case (Inl e)
      then have "v = w\<lparr>ticks := Suc (ticks w), published := published w @ []\<rparr>"
        using p Inr by (auto simp: run_publish_one [OF b])
      then show ?thesis by (metis empty_iff empty_set)
    next
      case data: (Inr data)
      then have "v = w\<lparr>ticks := Suc (ticks w), published := published w
          @ [\<lparr>message_topic = topic, message_Data = data, message_Attributes = shadow_attrs j\<rparr>]\<rparr>"
        using p Inr by (auto simp: run_publish_one [OF b])
      moreover have "message_for b j \<lparr>message_topic = topic, message_Data = data, message_Attributes = shadow_attrs j\<rparr>"
        using Inr data by (auto simp: message_for_def)
      ultimately show ?thesis by (metis empty_iff empty_set set_ConsD)
    qed
  qed
  then obtain n pb where v: "v = w\<lparr>ticks := n, published := published w @ pb\<rparr>" "\<forall>m \<in> set pb. message_for b j m" by blast
  from Cons.IH [OF ps] obtain n' pb' where
    "w' = v\<lparr>ticks := n', published := published v @ pb'\<rparr>" "\<forall>m \<in> set pb'. \<exists>j \<in> set jobs. message_for b j m" by blast
  with v show ?case by (intro exI [of _ n'] exI [of _ "pb @ pb'"]) auto
qed

lemma PubSubBackend_EnqueueBulk_effect:
  fixes w :: "'a pubsub_world_scheme"
  assumes b: "adapter b = LegacyAdapter_Marshal" and run: "run_state (PubSubBackend_EnqueueBulk b jobs) w = (rs, w')"
  shows "\<exists>n c ms pb. w' = w\<lparr>ticks := n, published := published w @ pb, choice_pos := c, metrics := ms\<rparr>
    \<and> (\<forall>m \<in> set pb. \<exists>j \<in> set jobs. message_for b j m)"
proof -
  obtain ps w1 where ps: "run_state (State_Monad.traverse_list (publish_one b) jobs) w = (ps, w1)" by fastforce
  from publish_all_effect [OF b ps] obtain n pb where
    w1: "w1 = w\<lparr>ticks := n, published := published w @ pb\<rparr>" and m: "\<forall>m \<in> set pb. \<exists>j \<in> set jobs. message_for b j m" by blast
  have "w' = w1\<lparr>choice_pos := Suc (choice_pos w1), metrics := metrics w'\<rparr>"
    using run run_PubSubBackend_EnqueueBulk [OF ps] by auto
  then have "w' = w\<lparr>ticks := n, published := published w @ pb, choice_pos := Suc (choice_pos w1), metrics := metrics w'\<rparr>"
    by (simp add: w1)
  with m show ?thesis by blast
qed

lemma PubSubBackend_EnqueueBulk_answers:
  assumes "run_state (PubSubBackend_EnqueueBulk b jobs) w = (rs, w')"
  shows "list_all2 answers jobs rs"
proof -
  obtain ps w1 where ps: "run_state (State_Monad.traverse_list (publish_one b) jobs) w = (ps, w1)" by fastforce
  have "length ps = length jobs" using length_traverse_list [of "publish_one b" jobs w] ps by simp
  then show ?thesis
    using assms run_PubSubBackend_EnqueueBulk [OF ps]
    by (auto simp: list_all2_conv_all_nth answers_def wait_result_def split: pending.split)
qed

interpretation pubsub_bulk: bulk_contract "PubSubBackend_EnqueueBulk b" "\<lambda>_. True"
  by unfold_locales (auto dest: PubSubBackend_EnqueueBulk_answers)


lemma legacy_bulk_published:
  fixes w :: "'a pubsub_world_scheme"
  assumes "run_state (PubSubBackend_EnqueueBulk (legacy_pubsub ts) jobs) w = (rs, w')"
  shows "map result_JobID rs = map job_ID jobs
    \<and> (\<forall>i < length jobs. result_Error (rs ! i) = None \<longrightarrow>
         (\<exists>n < length (published w'). length (published w) \<le> n \<and> publish_errors w' n = None
            \<and> message_for (legacy_pubsub ts :: 'a pubsub_world_scheme pubsub_backend) (jobs ! i) (published w' ! n)))"
proof -
  let ?b = "legacy_pubsub ts :: 'a pubsub_world_scheme pubsub_backend"
  obtain ps w1 where ps: "run_state (State_Monad.traverse_list (publish_one ?b) jobs) w = (ps, w1)" by fastforce
  have len: "length ps = length jobs" using length_traverse_list [of "publish_one ?b" jobs w] ps by simp
  have rs: "rs = map2 (wait_result (publish_errors w1)) jobs ps" and w': "published w' = published w1" "publish_errors w' = publish_errors w1"
    using assms run_PubSubBackend_EnqueueBulk [OF ps] by auto
  have "\<exists>n < length (published w'). length (published w) \<le> n \<and> publish_errors w' n = None \<and> message_for ?b (jobs ! i) (published w' ! n)"
    if i: "i < length jobs" "result_Error (rs ! i) = None" for i
  proof -
    have "result_Error (wait_result (publish_errors w1) (jobs ! i) (ps ! i)) = None" using i len by (simp add: rs)
    then obtain n where n: "ps ! i = Sent n" "publish_errors w1 n = None"
      by (auto simp: wait_result_def split: pending.splits)
    have "list_all2 (\<lambda>j p. \<forall>n. p = Sent n \<longrightarrow> length (published w) \<le> n \<and> n < length (published w1)
        \<and> message_for ?b j (published w1 ! n)) jobs ps"
      using publish_all_messages [OF _ ps] by auto
    from list_all2_nthD [OF this i(1)] n show ?thesis by (auto simp: w')
  qed
  moreover have "map result_JobID rs = map job_ID jobs"
    using len by (auto simp: rs list_eq_iff_nth_eq wait_result_def split: pending.split)
  ultimately show ?thesis by blast
qed


lemma topicFor_cases:
  "topicFor b p = (case map_of (topics b) p of Some t \<Rightarrow> Inr t
     | None \<Rightarrow> (case map_of (topics b) PriorityMedium of Some t \<Rightarrow> Inr t
       | None \<Rightarrow> Inl (Opaque (''pubsub: no topic configured for priority '' @ Priority_String p))))"
  by (simp add: topicFor_def)

lemma legacy_enqueue_succeeds:
  fixes w :: "'a pubsub_world_scheme"
  shows "fst (run_state (PubSubBackend_Enqueue (legacy_pubsub ts) j) w) = None \<longleftrightarrow>
     (job_Priority j \<in> dom (map_of ts) \<or> PriorityMedium \<in> dom (map_of ts))
     \<and> payload_is_json (job_Payload j) \<and> year_ok (job_RunAt j) \<and> year_ok (job_CreatedAt j) \<and> year_ok (clock w (ticks w))
     \<and> publish_errors w (length (published w)) = None"
proof -
  let ?b = "legacy_pubsub ts :: 'a pubsub_world_scheme pubsub_backend"
  have m: "(\<exists>data. legacy_data (clock w (ticks w)) j = Inr data) \<longleftrightarrow>
      payload_is_json (job_Payload j) \<and> year_ok (job_RunAt j) \<and> year_ok (job_CreatedAt j) \<and> year_ok (clock w (ticks w))"
    using legacy_encodes_iff [of "clock w (ticks w)" j]
    by (cases "all_fields (legacy_fields (legacy_message (clock w (ticks w)) j))") (simp_all add: legacy_data_def)
  have t: "(\<exists>topic. topicFor ?b (job_Priority j) = Inr topic) \<longleftrightarrow>
      (job_Priority j \<in> dom (map_of ts) \<or> PriorityMedium \<in> dom (map_of ts))"
    by (auto simp: topicFor_cases split: option.split)
  have "fst (run_state (PubSubBackend_Enqueue ?b j) w) = None \<longleftrightarrow>
      (\<exists>topic. topicFor ?b (job_Priority j) = Inr topic) \<and> (\<exists>data. legacy_data (clock w (ticks w)) j = Inr data)
      \<and> publish_errors w (length (published w)) = None"
    by (cases "topicFor ?b (job_Priority j)"; cases "all_fields (legacy_fields (legacy_message (clock w (ticks w)) j))";
        cases "publish_errors w (length (published w))")
      (simp_all add: PubSubBackend_Enqueue_def run_LegacyAdapter_Marshal legacy_data_def Let_def)
  then show ?thesis unfolding m t by blast
qed

section \<open>Properties\<close>

text \<open>
  A single publish succeeds exactly when some topic takes the job's priority (its own
  or the medium one), the payload is JSON, the times have four-digit years and the server
  confirms the message.
\<close>

lemma pubsub_enqueue_succeeds_iff:
  fixes w :: "'a pubsub_world_scheme"
  shows "fst (run_state (PubSubBackend_Enqueue (legacy_pubsub ts) j) w) = None \<longleftrightarrow>
     (job_Priority j \<in> dom (map_of ts) \<or> PriorityMedium \<in> dom (map_of ts))
     \<and> payload_is_json (job_Payload j) \<and> year_ok (job_RunAt j) \<and> year_ok (job_CreatedAt j) \<and> year_ok (clock w (ticks w))
     \<and> publish_errors w (length (published w)) = None"
  by (rule legacy_enqueue_succeeds)

text \<open>
  The health check passes exactly when the server confirms that every configured topic
  exists, in whatever order the map of topics is walked.
\<close>

lemma pubsub_health_iff:
  fixes w :: "'a pubsub_world_scheme"
  shows "fst (run_state (PubSubBackend_Health b) w) = None \<longleftrightarrow> list_all (\<lambda>(p, topic). topic_exists w topic = Inr True) (topics b)"
proof -
  have "fst (run_state (check_topics ts) v) = None \<longleftrightarrow> list_all (\<lambda>(p, topic). topic_exists v topic = Inr True) ts"
    for ts :: "(priority \<times> string) list" and v :: "'a pubsub_world_scheme"
    by (induction ts rule: check_topics.induct) (auto split: sum.split)
  then show ?thesis by (simp add: PubSubBackend_Health_def list_all_iff)
qed

text \<open>
  C28. The result of a bulk publish and the messages it sends do not depend on the order
  in which its goroutines run.
\<close>

lemma pubsub_bulk_order_irrelevant:
  fixes w :: "'a pubsub_world_scheme"
  shows "fst (run_state (PubSubBackend_EnqueueBulk (legacy_pubsub ts) jobs) (w\<lparr>choice := c\<rparr>))
     = fst (run_state (PubSubBackend_EnqueueBulk (legacy_pubsub ts) jobs) w)
   \<and> published (snd (run_state (PubSubBackend_EnqueueBulk (legacy_pubsub ts) jobs) (w\<lparr>choice := c\<rparr>)))
     = published (snd (run_state (PubSubBackend_EnqueueBulk (legacy_pubsub ts) jobs) w))"
proof -
  let ?b = "legacy_pubsub ts :: 'a pubsub_world_scheme pubsub_backend"
  have one: "run_state (publish_one ?b j) (v\<lparr>choice := c\<rparr>) = (case run_state (publish_one ?b j) v of (p, v') \<Rightarrow> (p, v'\<lparr>choice := c\<rparr>))"
    for j v
    by (cases "topicFor ?b (job_Priority j)"; cases "legacy_data (clock v (ticks v)) j") (simp_all add: run_publish_one)
  have all: "run_state (State_Monad.traverse_list (publish_one ?b) js) (v\<lparr>choice := c\<rparr>)
      = (case run_state (State_Monad.traverse_list (publish_one ?b) js) v of (ps, v') \<Rightarrow> (ps, v'\<lparr>choice := c\<rparr>))" for js v
    by (induction js arbitrary: v) (simp_all add: one split: prod.split)
  obtain ps w1 where ps: "run_state (State_Monad.traverse_list (publish_one ?b) jobs) w = (ps, w1)" by fastforce
  then have ps': "run_state (State_Monad.traverse_list (publish_one ?b) jobs) (w\<lparr>choice := c\<rparr>) = (ps, w1\<lparr>choice := c\<rparr>)"
    by (simp add: all)
  show ?thesis
    unfolding run_PubSubBackend_EnqueueBulk [OF ps] run_PubSubBackend_EnqueueBulk [OF ps'] by simp
qed

section \<open>Witnesses\<close>

definition sample_pubsub_world :: pubsub_world where
  "sample_pubsub_world = \<lparr>clock = (\<lambda>_. 0), ticks = 0, entropy = (\<lambda>_. 0), entropy_pos = 0,
     choice = (\<lambda>_. 0), choice_pos = 0, metrics = [], producers = [], jobTypes = [],
     objects = [], gcs_calls = 0, gcs_faults = (\<lambda>_. None),
     published = [], publish_errors = (\<lambda>_. None), topic_exists = (\<lambda>_. Inr True)\<rparr>"

definition sample_job :: job where
  "sample_job = \<lparr>job_ID = ''pjob_1'', job_ProducerID = ''prod_1'', job_Type = ''mail'', job_Priority = PriorityHigh,
     job_Payload = None, job_RunAt = 0, job_TraceID = [], job_MaxRetries = 3, job_CreatedAt = 0, job_Shadow = False\<rparr>"

lemma sample_job_encodes: "\<exists>data. legacy_data 0 sample_job = Inr data"
  using legacy_encodes_iff [of 0 sample_job]
  by (cases "all_fields (legacy_fields (legacy_message 0 sample_job))")
    (simp_all add: legacy_data_def sample_job_def year_ok_def year_of_epoch payload_is_json_def)

end
