(* ===== verification/GoBase64.thy ===== *)
theory GoBase64
  imports GoJson
begin

text \<open>
  \<open>base64.StdEncoding\<close>, which \<open>encoding/json\<close> uses for a byte slice: the padded encoder,
  and the decoder, which skips carriage returns and newlines and ignores the bits left
  over in the last group.
\<close>

definition base64_alphabet :: string where
  "base64_alphabet = ''ABCDEFGHIJKLMNOPQRSTUVWXYZabcdefghijklmnopqrstuvwxyz0123456789+/''"

definition b64_char :: "nat \<Rightarrow> char" where
  "b64_char i = base64_alphabet ! i"

definition b64_val :: "char \<Rightarrow> nat option" where
  "b64_val c = (if c \<in> set base64_alphabet
     then Some (length (takeWhile (\<lambda>d. d \<noteq> c) base64_alphabet)) else None)"

fun b64_encode :: "bytes \<Rightarrow> string" where
  "b64_encode [] = []"
| "b64_encode [a] = [b64_char (unat a div 4), b64_char (unat a mod 4 * 16), CHR ''='', CHR ''='']"
| "b64_encode [a, b] =
     [b64_char (unat a div 4), b64_char (unat a mod 4 * 16 + unat b div 16), b64_char (unat b mod 16 * 4), CHR ''='']"
| "b64_encode (a # b # c # bs) =
     [b64_char (unat a div 4), b64_char (unat a mod 4 * 16 + unat b div 16),
      b64_char (unat b mod 16 * 4 + unat c div 64), b64_char (unat c mod 64)] @ b64_encode bs"

text \<open>The three bytes of a group, from its four digit values.\<close>

definition b64_byte1 :: "nat \<Rightarrow> nat \<Rightarrow> byte" where "b64_byte1 v1 v2 = word_of_nat (v1 * 4 + v2 div 16)"
definition b64_byte2 :: "nat \<Rightarrow> nat \<Rightarrow> byte" where "b64_byte2 v2 v3 = word_of_nat (v2 mod 16 * 16 + v3 div 4)"
definition b64_byte3 :: "nat \<Rightarrow> nat \<Rightarrow> byte" where "b64_byte3 v3 v4 = word_of_nat (v3 mod 4 * 64 + v4)"

fun b64_quads :: "string \<Rightarrow> bytes option" where
  "b64_quads [] = Some []"
| "b64_quads (c1 # c2 # c3 # c4 # rest) =
     (case (b64_val c1, b64_val c2) of
        (Some v1, Some v2) \<Rightarrow>
          if c4 = CHR ''='' \<and> rest = [] then
            (if c3 = CHR ''='' then Some [b64_byte1 v1 v2]
             else (case b64_val c3 of None \<Rightarrow> None
                   | Some v3 \<Rightarrow> Some [b64_byte1 v1 v2, b64_byte2 v2 v3]))
          else (case (b64_val c3, b64_val c4) of
              (Some v3, Some v4) \<Rightarrow>
                map_option (\<lambda>bs. b64_byte1 v1 v2 # b64_byte2 v2 v3 # b64_byte3 v3 v4 # bs) (b64_quads rest)
            | _ \<Rightarrow> None)
      | _ \<Rightarrow> None)"
| "b64_quads _ = None"

definition b64_decode :: "string \<Rightarrow> bytes option" where
  "b64_decode s = b64_quads (filter (\<lambda>c. ord c \<noteq> 10 \<and> ord c \<noteq> 13) s)"

text \<open>A byte slice in JSON: null when nil, a base64 string otherwise.\<close>

definition enc_bytes :: "byte_slice \<Rightarrow> string" where
  "enc_bytes b = (case b of None \<Rightarrow> ''null'' | Some bs \<Rightarrow> dquote # b64_encode bs @ [dquote])"

lemma length_base64_alphabet [simp]: "length base64_alphabet = 64"
  by (simp add: base64_alphabet_def)

lemma distinct_base64_alphabet: "distinct base64_alphabet"
  by (simp add: base64_alphabet_def)

lemma takeWhile_index: "distinct xs \<Longrightarrow> i < length xs \<Longrightarrow> length (takeWhile (\<lambda>d. d \<noteq> xs ! i) xs) = i"
proof (induction xs arbitrary: i)
  case (Cons x xs)
  then show ?case by (cases i) (auto simp: nth_mem)
qed simp

lemma b64_val_char [simp]: "i < 64 \<Longrightarrow> b64_val (b64_char i) = Some i"
  by (simp add: b64_val_def b64_char_def takeWhile_index distinct_base64_alphabet)

lemma b64_char_in: "i < 64 \<Longrightarrow> b64_char i \<in> set base64_alphabet"
  by (simp add: b64_char_def)

lemma b64_alphabet_plain:
  "c \<in> set base64_alphabet \<Longrightarrow> c \<noteq> CHR ''='' \<and> ord c \<noteq> 10 \<and> ord c \<noteq> 13 \<and> ord c < 128 \<and> 32 \<le> ord c
     \<and> c \<noteq> dquote \<and> c \<noteq> bslash \<and> c \<notin> set ''<>&''"
proof -
  have "list_all (\<lambda>c. c \<noteq> CHR ''='' \<and> ord c \<noteq> 10 \<and> ord c \<noteq> 13 \<and> ord c < 128 \<and> 32 \<le> ord c
     \<and> c \<noteq> dquote \<and> c \<noteq> bslash \<and> c \<notin> set ''<>&'') base64_alphabet"
    by (simp add: base64_alphabet_def)
  then show "c \<in> set base64_alphabet \<Longrightarrow> ?thesis" by (simp add: list_all_iff)
qed

lemma b64_bounds:
  fixes a b c :: byte
  shows "unat a div 4 < 64" "unat a mod 4 * 16 + unat b div 16 < 64" "unat b mod 16 * 4 + unat c div 64 < 64"
    "unat c mod 64 < 64" "unat a mod 4 * 16 < 64" "unat b mod 16 * 4 < 64"
  using unat_byte_less [of a] unat_byte_less [of b] unat_byte_less [of c] by linarith+

lemma set_b64_encode: "set (b64_encode bs) \<subseteq> set base64_alphabet \<union> {CHR ''=''}"
  by (induction bs rule: b64_encode.induct) (auto intro!: b64_char_in simp: b64_bounds)

lemma b64_filter: "filter (\<lambda>c. ord c \<noteq> 10 \<and> ord c \<noteq> 13) (b64_encode bs) = b64_encode bs"
  using set_b64_encode [of bs] b64_alphabet_plain by (intro filter_True) fastforce

lemma b64_char_not_pad [simp]: "i < 64 \<Longrightarrow> b64_char i \<noteq> CHR ''=''"
  using b64_alphabet_plain b64_char_in by blast

lemma div_mod_parts:
  fixes q h :: nat
  shows "h < 16 \<Longrightarrow> (q * 16 + h) div 16 = q" "h < 16 \<Longrightarrow> (q * 16 + h) mod 16 = h"
    "h < 4 \<Longrightarrow> (q * 4 + h) div 4 = q" "h < 4 \<Longrightarrow> (q * 4 + h) mod 4 = h"
  by auto

lemma b64_bytes_parts [simp]:
  fixes a b c :: byte
  shows "b64_byte1 (unat a div 4) (unat a mod 4 * 16 + unat b div 16) = a"
    and "b64_byte1 (unat a div 4) (unat a mod 4 * 16) = a"
    and "b64_byte2 (unat a mod 4 * 16 + unat b div 16) (unat b mod 16 * 4 + unat c div 64) = b"
    and "b64_byte2 (unat a mod 4 * 16 + unat b div 16) (unat b mod 16 * 4) = b"
    and "b64_byte3 (unat b mod 16 * 4 + unat c div 64) (unat c mod 64) = c"
proof -
  have l: "unat b div 16 < 16" "unat c div 64 < 4"
    using unat_byte_less [of b] unat_byte_less [of c] by auto
  show "b64_byte1 (unat a div 4) (unat a mod 4 * 16 + unat b div 16) = a"
    unfolding b64_byte1_def div_mod_parts(1) [OF l(1)] div_mult_mod_eq by simp
  show "b64_byte1 (unat a div 4) (unat a mod 4 * 16) = a"
  proof -
    have "unat a mod 4 * 16 div 16 = unat a mod 4" by simp
    then show ?thesis unfolding b64_byte1_def by (simp only: div_mult_mod_eq) simp
  qed
  show "b64_byte2 (unat a mod 4 * 16 + unat b div 16) (unat b mod 16 * 4 + unat c div 64) = b"
    unfolding b64_byte2_def div_mod_parts(2) [OF l(1)] div_mod_parts(3) [OF l(2)] div_mult_mod_eq by simp
  show "b64_byte2 (unat a mod 4 * 16 + unat b div 16) (unat b mod 16 * 4) = b"
    unfolding b64_byte2_def div_mod_parts(2) [OF l(1)] using div_mod_parts(3) [of 0 "unat b mod 16"] by simp
  show "b64_byte3 (unat b mod 16 * 4 + unat c div 64) (unat c mod 64) = c"
    unfolding b64_byte3_def div_mod_parts(4) [OF l(2)] div_mult_mod_eq by simp
qed

lemma b64_quads_encode: "b64_quads (b64_encode bs) = Some bs"
  by (induction bs rule: b64_encode.induct) (simp_all add: b64_bounds)

lemma b64_decode_encode: "b64_decode (b64_encode bs) = Some bs"
  by (simp add: b64_decode_def b64_filter b64_quads_encode)

lemma length_b64_encode: "length (b64_encode bs) = 4 * ((length bs + 2) div 3)"
  by (induction bs rule: b64_encode.induct) (simp_all, presburger)

lemma quote_body_plain:
  "\<forall>c \<in> set s. ord c < 128 \<and> 32 \<le> ord c \<and> c \<noteq> dquote \<and> c \<noteq> bslash \<and> c \<notin> set ''<>&'' \<Longrightarrow> quote_body s = s"
proof (induction s)
  case Nil
  show ?case by (subst quote_body.simps) simp
next
  case (Cons c s)
  then have "escape_ascii c = [c]" by (auto simp: escape_ascii_def)
  with Cons show ?case by (subst quote_body.simps) simp
qed

lemma b64_plain: "\<forall>c \<in> set (b64_encode bs). ord c < 128 \<and> 32 \<le> ord c \<and> c \<noteq> dquote \<and> c \<noteq> bslash \<and> c \<notin> set ''<>&''"
  using set_b64_encode [of bs] b64_alphabet_plain by fastforce

lemma encodes_bytes: "encodes (enc_bytes (Some bs)) (JStr (b64_encode bs))"
proof -
  have "valid_utf8 (b64_encode bs)" 
    by (rule valid_utf8_ascii) (use b64_plain [of bs] in \<open>unfold list_all_iff, blast\<close>)
  then have "encodes (quote_string (b64_encode bs)) (JStr (b64_encode bs))"
    using encodes_string by (simp add: enc_string_def)
  then show ?thesis by (simp add: enc_bytes_def quote_string_def quote_body_plain [OF b64_plain])
qed

lemma encodes_bytes_nil: "encodes (enc_bytes None) JNull"
  using encodes_null by (simp add: enc_bytes_def)

end
