(* ===== verification/GoUnmarshal.thy ===== *)
theory GoUnmarshal
  imports GoBase64
begin

text \<open>
  \<open>json.Unmarshal\<close> into a struct: each member of the object is matched with a field by its
  name, up to letter case, and decoded into it; members without a field are skipped, a
  null leaves a field alone, a value of the wrong type is remembered as the error and the
  decoding goes on. The first error remembered is the result.
\<close>


section \<open>Field names\<close>

text \<open>
  Names are compared after folding the case. Two code points outside ASCII fold to ASCII
  letters: U+017F to S and U+212A to K.
\<close>

definition upper :: "char \<Rightarrow> char" where
  "upper c = (if between 97 c 122 then char_of (ord c - 32) else c)"

fun fold_name :: "string \<Rightarrow> string" where
  "fold_name (c # c1 # c2 # cs) =
     (if ord c = 0xC5 \<and> ord c1 = 0xBF then CHR ''S'' # fold_name (c2 # cs)
      else if ord c = 0xE2 \<and> ord c1 = 0x84 \<and> ord c2 = 0xAA then CHR ''K'' # fold_name cs
      else upper c # fold_name (c1 # c2 # cs))"
| "fold_name [c, c1] = (if ord c = 0xC5 \<and> ord c1 = 0xBF then ''S'' else [upper c, upper c1])"
| "fold_name [c] = [upper c]"
| "fold_name [] = []"

definition same_field :: "string \<Rightarrow> string \<Rightarrow> bool" where
  "same_field key name \<longleftrightarrow> fold_name key = fold_name name"


section \<open>Values\<close>

definition type_error :: go_error where
  "type_error = Opaque ''json: cannot unmarshal value into Go struct field''"

definition is_int64 :: "int \<Rightarrow> bool" where
  "is_int64 i \<longleftrightarrow> - (2 ^ 63) \<le> i \<and> i < 2 ^ 63"

text \<open>\<open>strconv.ParseInt(s, 10, 64)\<close> and \<open>strconv.ParseUint(s, 10, 8)\<close> on a number literal.\<close>

definition parse_int64 :: "string \<Rightarrow> int option" where
  "parse_int64 s = (case s of [] \<Rightarrow> None
     | c # cs \<Rightarrow>
       (let ds = (if c = CHR ''-'' then cs else s);
            i = (if c = CHR ''-'' then - int (read_nat ds) else int (read_nat ds))
        in if ds \<noteq> [] \<and> list_all is_digit ds \<and> is_int64 i then Some i else None))"

definition parse_uint8 :: "string \<Rightarrow> byte option" where
  "parse_uint8 s = (if s \<noteq> [] \<and> list_all is_digit s \<and> read_nat s < 256 then Some (word_of_nat (read_nat s)) else None)"

text \<open>A decoder takes the value and what the field holds, and gives what it holds then and an error to remember.\<close>

type_synonym 'a decoder = "json \<Rightarrow> 'a \<Rightarrow> 'a \<times> go_error option"

definition dec_string :: "string decoder" where
  "dec_string v old = (case v of JNull \<Rightarrow> (old, None) | JStr s \<Rightarrow> (s, None) | _ \<Rightarrow> (old, Some type_error))"

definition dec_bool :: "bool decoder" where
  "dec_bool v old = (case v of JNull \<Rightarrow> (old, None) | JBool b \<Rightarrow> (b, None) | _ \<Rightarrow> (old, Some type_error))"

definition dec_int :: "int decoder" where
  "dec_int v old = (case v of JNull \<Rightarrow> (old, None)
     | JNum t \<Rightarrow> (case parse_int64 t of Some i \<Rightarrow> (i, None) | None \<Rightarrow> (old, Some type_error))
     | _ \<Rightarrow> (old, Some type_error))"

definition dec_uint8 :: "byte decoder" where
  "dec_uint8 v old = (case v of JNull \<Rightarrow> (old, None)
     | JNum t \<Rightarrow> (case parse_uint8 t of Some b \<Rightarrow> (b, None) | None \<Rightarrow> (old, Some type_error))
     | _ \<Rightarrow> (old, Some type_error))"

definition first_error :: "go_error option \<Rightarrow> go_error option \<Rightarrow> go_error option" where
  "first_error e e' = (case e of None \<Rightarrow> e' | Some _ \<Rightarrow> e)"

text \<open>
  An array of numbers is written into the slice element by element; a null keeps what
  the slice holds there.
\<close>

fun dec_elements :: "json list \<Rightarrow> bytes \<Rightarrow> bytes \<times> go_error option" where
  "dec_elements [] old = ([], None)"
| "dec_elements (v # vs) old =
     (case dec_uint8 v (case old of [] \<Rightarrow> 0 | b # _ \<Rightarrow> b) of
        (b, e) \<Rightarrow> (case dec_elements vs (tl old) of (bs, e') \<Rightarrow> (b # bs, first_error e e')))"

definition dec_bytes :: "byte_slice decoder" where
  "dec_bytes v old = (case v of JNull \<Rightarrow> (None, None)
     | JStr s \<Rightarrow> (case b64_decode s of Some bs \<Rightarrow> (Some bs, None) | None \<Rightarrow> (old, Some (Opaque ''illegal base64 data'')))
     | JArr vs \<Rightarrow> (case dec_elements vs (slice_bytes old) of (bs, e) \<Rightarrow> (Some bs, e))
     | _ \<Rightarrow> (old, Some type_error))"


section \<open>Structs\<close>

text \<open>The fields of a struct type: names with the decoding of a value into the struct.\<close>

type_synonym 's fields = "(string \<times> 's decoder) list"

definition field :: "('s \<Rightarrow> 'a) \<Rightarrow> ('a \<Rightarrow> 's \<Rightarrow> 's) \<Rightarrow> 'a decoder \<Rightarrow> 's decoder" where
  "field get put dec v s = (case dec v (get s) of (x, e) \<Rightarrow> (put x s, e))"

fun decode_member :: "'s fields \<Rightarrow> string \<times> json \<Rightarrow> 's \<Rightarrow> 's \<times> go_error option" where
  "decode_member [] m s = (s, None)"
| "decode_member ((name, dec) # fs) (key, v) s =
     (if same_field key name then dec v s else decode_member fs (key, v) s)"

fun decode_members :: "'s fields \<Rightarrow> (string \<times> json) list \<Rightarrow> 's \<Rightarrow> 's \<times> go_error option" where
  "decode_members fs [] s = (s, None)"
| "decode_members fs (m # ms) s =
     (case decode_member fs m s of (s, e) \<Rightarrow>
        (case decode_members fs ms s of (s, e') \<Rightarrow> (s, first_error e e')))"

definition unmarshal_struct :: "'s fields \<Rightarrow> 's \<Rightarrow> string \<Rightarrow> go_error + 's" where
  "unmarshal_struct fs zero s =
     (case json_parse s of
        None \<Rightarrow> Inl (Opaque ''json: syntax error'')
      | Some JNull \<Rightarrow> Inr zero
      | Some (JObj ms) \<Rightarrow> (case decode_members fs ms zero of
          (x, None) \<Rightarrow> Inr x
        | (x, Some e) \<Rightarrow> Inl e)
      | Some _ \<Rightarrow> Inl type_error)"

lemma first_error_simps [simp]: "first_error None e = e" "first_error (Some x) e = Some x"
  by (simp_all add: first_error_def)

lemma decode_values [simp]:
  "dec_string (JStr s) old = (s, None)" "dec_bool (JBool b) was = (b, None)" "dec_bytes JNull held = (None, None)"
  by (simp_all add: dec_string_def dec_bool_def dec_bytes_def)

lemma parse_show_int: "is_int64 i \<Longrightarrow> parse_int64 (show_int i) = Some i"
proof -
  assume i: "is_int64 i"
  obtain c cs where c: "show_nat (nat \<bar>i\<bar>) = c # cs" using show_nat_not_Nil by (cases "show_nat (nat \<bar>i\<bar>)") auto
  with show_nat_digits [of "nat \<bar>i\<bar>"] have d: "is_digit c" "list_all is_digit cs" by simp_all
  then have "c \<noteq> CHR ''-''" by (auto simp: is_digit_def)
  moreover have "read_nat (c # cs) = nat \<bar>i\<bar>" unfolding c [symmetric] by simp
  ultimately show ?thesis using i c d by (cases "i < 0") (auto simp: show_int_def parse_int64_def)
qed

lemma dec_int_show [simp]: "is_int64 i \<Longrightarrow> dec_int (JNum (show_int i)) old = (i, None)"
  by (simp add: dec_int_def parse_show_int)

lemma dec_bytes_b64 [simp]: "dec_bytes (JStr (b64_encode bs)) old = (Some bs, None)"
  by (simp add: dec_bytes_def b64_decode_encode)

end
