(* ===== verification/Scheduler.thy ===== *)
theory Scheduler
  imports Queue GoUnmarshal GoTime
begin

text \<open>
  internal/scheduler/scheduler.go and noop.go: the JSON form a job takes in a task's body,
  the interface \<open>Scheduler\<close> with its contract, and the scheduler that only logs.
\<close>


section \<open>The body of a task\<close>

record scheduledJob =
  sj_ID :: string
  sj_ProducerID :: string
  sj_Type :: string
  sj_Priority :: int
  sj_Payload :: byte_slice
  sj_RunAt :: string
  sj_TraceID :: string
  sj_MaxRetries :: int
  sj_CreatedAt :: string
  sj_Shadow :: bool

definition zero_scheduledJob :: scheduledJob where
  "zero_scheduledJob = \<lparr>sj_ID = [], sj_ProducerID = [], sj_Type = [], sj_Priority = 0, sj_Payload = None,
     sj_RunAt = [], sj_TraceID = [], sj_MaxRetries = 0, sj_CreatedAt = [], sj_Shadow = False\<rparr>"

definition encode_scheduledJob :: "scheduledJob \<Rightarrow> string" where
  "encode_scheduledJob s = json_object
     [(''id'', enc_string (sj_ID s)),
      (''producer_id'', enc_string (sj_ProducerID s)),
      (''type'', enc_string (sj_Type s)),
      (''priority'', enc_int (sj_Priority s)),
      (''payload'', enc_bytes (sj_Payload s)),
      (''run_at'', enc_string (sj_RunAt s)),
      (''trace_id'', enc_string (sj_TraceID s)),
      (''max_retries'', enc_int (sj_MaxRetries s)),
      (''created_at'', enc_string (sj_CreatedAt s)),
      (''shadow'', enc_bool (sj_Shadow s))]"

definition scheduledJob_fields :: "scheduledJob fields" where
  "scheduledJob_fields =
     [(''id'', field sj_ID (\<lambda>x s. s\<lparr>sj_ID := x\<rparr>) dec_string),
      (''producer_id'', field sj_ProducerID (\<lambda>x s. s\<lparr>sj_ProducerID := x\<rparr>) dec_string),
      (''type'', field sj_Type (\<lambda>x s. s\<lparr>sj_Type := x\<rparr>) dec_string),
      (''priority'', field sj_Priority (\<lambda>x s. s\<lparr>sj_Priority := x\<rparr>) dec_int),
      (''payload'', field sj_Payload (\<lambda>x s. s\<lparr>sj_Payload := x\<rparr>) dec_bytes),
      (''run_at'', field sj_RunAt (\<lambda>x s. s\<lparr>sj_RunAt := x\<rparr>) dec_string),
      (''trace_id'', field sj_TraceID (\<lambda>x s. s\<lparr>sj_TraceID := x\<rparr>) dec_string),
      (''max_retries'', field sj_MaxRetries (\<lambda>x s. s\<lparr>sj_MaxRetries := x\<rparr>) dec_int),
      (''created_at'', field sj_CreatedAt (\<lambda>x s. s\<lparr>sj_CreatedAt := x\<rparr>) dec_string),
      (''shadow'', field sj_Shadow (\<lambda>x s. s\<lparr>sj_Shadow := x\<rparr>) dec_bool)]"

text \<open>
  \<open>json.Marshal\<close> of this struct has no case that fails; the error in the result is the one
  of the code's signature.
\<close>

definition marshalJob :: "job \<Rightarrow> go_error + bytes" where
  "marshalJob j = Inr (bytes_of_string (encode_scheduledJob \<lparr>
     sj_ID = job_ID j,
     sj_ProducerID = job_ProducerID j,
     sj_Type = job_Type j,
     sj_Priority = job_Priority j,
     sj_Payload = job_Payload j,
     sj_RunAt = format_rfc3339nano (job_RunAt j),
     sj_TraceID = job_TraceID j,
     sj_MaxRetries = job_MaxRetries j,
     sj_CreatedAt = format_rfc3339nano (job_CreatedAt j),
     sj_Shadow = job_Shadow j\<rparr>))"

definition time_parse_error :: "string \<Rightarrow> go_error" where
  "time_parse_error s = Opaque (''parsing time '' @ s)"

definition UnmarshalJob :: "bytes \<Rightarrow> go_error + job" where
  "UnmarshalJob data =
     (case unmarshal_struct scheduledJob_fields zero_scheduledJob (string_of_bytes data) of
        Inl e \<Rightarrow> Inl e
      | Inr sj \<Rightarrow>
        (case parse_rfc3339nano (sj_RunAt sj) of
           None \<Rightarrow> Inl (time_parse_error (sj_RunAt sj))
         | Some runAt \<Rightarrow>
           (case parse_rfc3339nano (sj_CreatedAt sj) of
              None \<Rightarrow> Inl (time_parse_error (sj_CreatedAt sj))
            | Some createdAt \<Rightarrow> Inr \<lparr>
                job_ID = sj_ID sj,
                job_ProducerID = sj_ProducerID sj,
                job_Type = sj_Type sj,
                job_Priority = sj_Priority sj,
                job_Payload = sj_Payload sj,
                job_RunAt = runAt,
                job_TraceID = sj_TraceID sj,
                job_MaxRetries = sj_MaxRetries sj,
                job_CreatedAt = createdAt,
                job_Shadow = sj_Shadow sj\<rparr>)))"


section \<open>The interface and its contract\<close>

record 'w scheduler =
  scheduler_Schedule :: "job \<Rightarrow> ('w, go_error option) state"
  scheduler_ScheduleBulk :: "job list \<Rightarrow> ('w, enqueue_result list) state"
  scheduler_Close :: "('w, go_error option) state"

text \<open>Unlike a backend, a scheduler need not name the job in the result of a failure.\<close>

locale scheduler_contract =
  fixes S :: "'w scheduler"
    and I :: "'w \<Rightarrow> bool"
  assumes schedule_inv: "I w \<Longrightarrow> run_state (scheduler_Schedule S j) w = (e, w') \<Longrightarrow> I w'"
    and schedule_bulk_inv: "I w \<Longrightarrow> run_state (scheduler_ScheduleBulk S js) w = (rs, w') \<Longrightarrow> I w'"
    and schedule_bulk_answers: "I w \<Longrightarrow> run_state (scheduler_ScheduleBulk S js) w = (rs, w') \<Longrightarrow>
      list_all2 answers js rs"

sublocale scheduler_contract \<subseteq> bulk_contract "scheduler_ScheduleBulk S" I
  by unfold_locales (rule schedule_bulk_inv schedule_bulk_answers; assumption)+


section \<open>The no-op scheduler\<close>

definition NoopScheduler_Schedule :: "job \<Rightarrow> ('w, go_error option) state" where
  "NoopScheduler_Schedule j = ret None"

definition NoopScheduler_ScheduleBulk :: "job list \<Rightarrow> ('w, enqueue_result list) state" where
  "NoopScheduler_ScheduleBulk jobs =
     State_Monad.traverse_list (\<lambda>j. ret \<lparr>result_JobID = job_ID j, result_Error = None\<rparr>) jobs"

definition NoopScheduler_Close :: "('w, go_error option) state" where
  "NoopScheduler_Close = ret None"

definition NewNoopScheduler :: "'w scheduler" where
  "NewNoopScheduler = \<lparr>
     scheduler_Schedule = NoopScheduler_Schedule,
     scheduler_ScheduleBulk = NoopScheduler_ScheduleBulk,
     scheduler_Close = NoopScheduler_Close\<rparr>"

lemma run_NoopScheduler_ScheduleBulk:
  "run_state (NoopScheduler_ScheduleBulk jobs) w = (map (\<lambda>j. \<lparr>result_JobID = job_ID j, result_Error = None\<rparr>) jobs, w)"
  by (induction jobs) (simp_all add: NoopScheduler_ScheduleBulk_def)

interpretation noop_scheduler: scheduler_contract NewNoopScheduler "\<lambda>_. True"
  by unfold_locales
    (auto simp: NewNoopScheduler_def run_NoopScheduler_ScheduleBulk list_all2_conv_all_nth answers_def)


section \<open>Round trip\<close>

definition scheduled_members :: "job \<Rightarrow> (string \<times> json) list" where
  "scheduled_members j =
     [(''id'', JStr (job_ID j)),
      (''producer_id'', JStr (job_ProducerID j)),
      (''type'', JStr (job_Type j)),
      (''priority'', JNum (show_int (job_Priority j))),
      (''payload'', case job_Payload j of None \<Rightarrow> JNull | Some bs \<Rightarrow> JStr (b64_encode bs)),
      (''run_at'', JStr (format_rfc3339nano (job_RunAt j))),
      (''trace_id'', JStr (job_TraceID j)),
      (''max_retries'', JNum (show_int (job_MaxRetries j))),
      (''created_at'', JStr (format_rfc3339nano (job_CreatedAt j))),
      (''shadow'', JBool (job_Shadow j))]"

text \<open>A job as the service makes it: its texts are UTF-8 and its integers fit 64 bits.\<close>

definition encodable :: "job \<Rightarrow> bool" where
  "encodable j \<longleftrightarrow> valid_utf8 (job_ID j) \<and> valid_utf8 (job_ProducerID j) \<and> valid_utf8 (job_Type j)
     \<and> valid_utf8 (job_TraceID j) \<and> is_int64 (job_Priority j) \<and> is_int64 (job_MaxRetries j)"

lemma valid_utf8_format: "valid_utf8 (format_rfc3339nano t)"
  by (rule valid_utf8_ascii) (rule format_ascii)

lemma encodes_payload: "encodes (enc_bytes b) (case b of None \<Rightarrow> JNull | Some bs \<Rightarrow> JStr (b64_encode bs))"
  by (cases b) (simp_all add: encodes_bytes encodes_bytes_nil)

lemma parse_marshalled:
  assumes "encodable j" and "marshalJob j = Inr data"
  shows "json_parse (string_of_bytes data) = Some (JObj (scheduled_members j))"
proof -
  have k: "valid_utf8 ''id''" "valid_utf8 ''producer_id''" "valid_utf8 ''type''" "valid_utf8 ''priority''"
    "valid_utf8 ''payload''" "valid_utf8 ''run_at''" "valid_utf8 ''trace_id''" "valid_utf8 ''max_retries''"
    "valid_utf8 ''created_at''" "valid_utf8 ''shadow''"
    by (rule valid_utf8_ascii; simp)+
  have "string_of_bytes data = encode_scheduledJob \<lparr>
     sj_ID = job_ID j, sj_ProducerID = job_ProducerID j, sj_Type = job_Type j, sj_Priority = job_Priority j,
     sj_Payload = job_Payload j, sj_RunAt = format_rfc3339nano (job_RunAt j), sj_TraceID = job_TraceID j,
     sj_MaxRetries = job_MaxRetries j, sj_CreatedAt = format_rfc3339nano (job_CreatedAt j), sj_Shadow = job_Shadow j\<rparr>"
    using assms(2) by (auto simp: marshalJob_def)
  then show ?thesis
    unfolding encode_scheduledJob_def using assms(1) k
    by (simp only:) (rule json_parse_object;
        simp add: scheduled_members_def encodes_string encodes_int encodes_bool encodes_payload encodable_def valid_utf8_format)
qed

text \<open>Each of the ten names folds to itself in capitals, and no two are the same.\<close>

lemma decode_scheduled:
  assumes "is_int64 (job_Priority j)" and "is_int64 (job_MaxRetries j)"
  shows "decode_members scheduledJob_fields (scheduled_members j) zero_scheduledJob =
    (\<lparr>sj_ID = job_ID j, sj_ProducerID = job_ProducerID j, sj_Type = job_Type j, sj_Priority = job_Priority j,
     sj_Payload = job_Payload j, sj_RunAt = format_rfc3339nano (job_RunAt j), sj_TraceID = job_TraceID j,
     sj_MaxRetries = job_MaxRetries j, sj_CreatedAt = format_rfc3339nano (job_CreatedAt j), sj_Shadow = job_Shadow j\<rparr>, None)"
proof -
  have f: "fold_name ''id'' = ''ID''" "fold_name ''producer_id'' = ''PRODUCER_ID''" "fold_name ''type'' = ''TYPE''"
    "fold_name ''priority'' = ''PRIORITY''" "fold_name ''payload'' = ''PAYLOAD''" "fold_name ''run_at'' = ''RUN_AT''"
    "fold_name ''trace_id'' = ''TRACE_ID''" "fold_name ''max_retries'' = ''MAX_RETRIES''"
    "fold_name ''created_at'' = ''CREATED_AT''" "fold_name ''shadow'' = ''SHADOW''"
    by (simp_all add: upper_def between_def char_of_eq_iff)
  have p: "dec_bytes (case job_Payload j of None \<Rightarrow> JNull | Some bs \<Rightarrow> JStr (b64_encode bs)) old = (job_Payload j, None)" for old
    by (cases "job_Payload j") simp_all
  show ?thesis
    using assms unfolding scheduledJob_fields_def scheduled_members_def zero_scheduledJob_def
    by (simp add: same_field_def f field_def p del: fold_name.simps)
qed

lemma unmarshal_marshalled:
  assumes "encodable j" and "marshalJob j = Inr data"
  shows "UnmarshalJob data =
    (case parse_rfc3339nano (format_rfc3339nano (job_RunAt j)) of
       None \<Rightarrow> Inl (time_parse_error (format_rfc3339nano (job_RunAt j)))
     | Some r \<Rightarrow> (case parse_rfc3339nano (format_rfc3339nano (job_CreatedAt j)) of
         None \<Rightarrow> Inl (time_parse_error (format_rfc3339nano (job_CreatedAt j)))
       | Some c \<Rightarrow> Inr (j\<lparr>job_RunAt := r, job_CreatedAt := c\<rparr>)))"
proof -
  have "is_int64 (job_Priority j)" "is_int64 (job_MaxRetries j)" using assms(1) by (simp_all add: encodable_def)
  note dec = decode_scheduled [OF this]
  show ?thesis
    unfolding UnmarshalJob_def unmarshal_struct_def parse_marshalled [OF assms]
    by (simp add: dec split: option.split)
qed


lemma unmarshal_marshal:
  assumes "encodable j" and "year_ok (job_RunAt j)" and "year_ok (job_CreatedAt j)" and "marshalJob j = Inr data"
  shows "UnmarshalJob data = Inr j"
  using assms(2,3) unfolding unmarshal_marshalled [OF assms(1,4)]
  by (simp add: year_ok_def parse_format_rfc3339nano)

lemma length_json_fields_member: "(k, v) \<in> set fs \<Longrightarrow> length v \<le> length (json_fields fs)"
  by (induction fs rule: json_fields.induct) auto

lemma body_length_at_least:
  assumes "marshalJob j = Inr data"
  shows "4 * ((slice_len (job_Payload j) + 2) div 3) \<le> length data"
proof -
  have "length (enc_bytes (sj_Payload sj)) \<le> length (encode_scheduledJob sj)" for sj
    unfolding encode_scheduledJob_def json_object_def length_append
    by (intro trans_le_add2 trans_le_add1 length_json_fields_member [where k = "''payload''"]) simp
  moreover have "\<exists>sj. sj_Payload sj = job_Payload j \<and> data = bytes_of_string (encode_scheduledJob sj)"
    using assms unfolding marshalJob_def sum.inject by (metis scheduledJob.select_convs(5))
  ultimately have "length (enc_bytes (job_Payload j)) \<le> length data" by (metis length_string_bytes(1))
  moreover have "4 * ((slice_len (job_Payload j) + 2) div 3) \<le> length (enc_bytes (job_Payload j))"
    by (cases "job_Payload j") (simp_all add: enc_bytes_def length_b64_encode)
  ultimately show ?thesis by simp
qed

section \<open>Properties\<close>


text \<open>
  C34. A run time past the year 9999 is written into the body without complaint but the
  body is then rejected: the task can be created and can never be delivered.
\<close>

lemma far_future_is_undeliverable:
  assumes "encodable j" and "9999 < year_of (job_RunAt j)"
  shows "\<exists>data e. marshalJob j = Inr data \<and> UnmarshalJob data = Inl e"
proof -
  obtain data where d: "marshalJob j = Inr data" by (simp add: marshalJob_def)
  then show ?thesis
    using unmarshal_marshalled [OF assms(1) d] assms(2) by (simp add: parse_format_rejects)
qed

text \<open>
  The body of a job is at least as long as the base64 text of its payload: four bytes
  for every three, rounded up.
\<close>

lemma body_length_bound:
  assumes "marshalJob j = Inr data"
  shows "4 * ((slice_len (job_Payload j) + 2) div 3) \<le> length data"
  using assms by (rule body_length_at_least)

definition sample_scheduled :: job where
  "sample_scheduled = \<lparr>job_ID = ''pjob_1'', job_ProducerID = ''prod_1'', job_Type = ''mail'', job_Priority = PriorityHigh,
     job_Payload = Some [123, 125], job_RunAt = 0, job_TraceID = [], job_MaxRetries = 3, job_CreatedAt = 0, job_Shadow = False\<rparr>"

lemma encodable_sample: "encodable sample_scheduled"
  by (simp add: encodable_def sample_scheduled_def valid_utf8_ascii is_int64_def priority_defs)


lemma far_future_is_undeliverable_witness:
  "\<exists>data e. marshalJob (sample_scheduled\<lparr>job_RunAt := 253402300800000000000\<rparr>) = Inr data \<and> UnmarshalJob data = Inl e"
proof (rule far_future_is_undeliverable)
  show "encodable (sample_scheduled\<lparr>job_RunAt := 253402300800000000000\<rparr>)"
    using encodable_sample by (simp add: encodable_def)
  show "9999 < year_of (job_RunAt (sample_scheduled\<lparr>job_RunAt := 253402300800000000000\<rparr>))"
    by (simp add: year_of_def nanos_per_second_def civil_of_day_def year_yday_def unix_epoch_day_def Let_def split: prod.split)
qed

lemma body_length_bound_witness:
  "\<exists>data. marshalJob sample_scheduled = Inr data \<and> 4 \<le> length data"
proof -
  obtain data where d: "marshalJob sample_scheduled = Inr data" by (simp add: marshalJob_def)
  have "slice_len (job_Payload sample_scheduled) = 2" by (simp add: sample_scheduled_def)
  with body_length_bound [OF d] d show ?thesis by simp
qed

end
