(* ===== verification/CloudTasks.thy ===== *)
theory CloudTasks
  imports Scheduler PubSub
begin

text \<open>
  internal/scheduler/cloudtasks.go: the scheduler that creates a Cloud Tasks task for each
  job, whose body the callback receives at the job's run time. The Cloud Tasks client is
  outside this repository: an oracle lets any call fail, in which case the task may have
  been created nevertheless. The goroutines of \<open>ScheduleBulk\<close> run in any order.
\<close>


section \<open>The client\<close>

record task =
  task_Parent :: string
  task_Name :: string
  task_ScheduleTime :: timestamp
  task_HttpMethod :: string
  task_Url :: string
  task_Headers :: "(string \<times> string) list"
  task_Body :: bytes
  task_Oidc :: "(string \<times> string) option"

record tasks_world = pubsub_world +
  tasks :: "task list"
  task_calls :: nat
  task_faults :: "nat \<Rightarrow> (go_error \<times> bool) option"

definition CreateTask :: "task \<Rightarrow> ('a tasks_world_scheme, go_error option) state" where
  "CreateTask t = State (\<lambda>w.
     let w1 = w\<lparr>task_calls := Suc (task_calls w)\<rparr>
     in case task_faults w (task_calls w) of
          None \<Rightarrow> (None, w1\<lparr>tasks := tasks w @ [t]\<rparr>)
        | Some (e, created) \<Rightarrow> (Some e, if created then w1\<lparr>tasks := tasks w @ [t]\<rparr> else w1))"

lemma run_CreateTask [simp, go_ops]:
  "run_state (CreateTask t) w =
     (case task_faults w (task_calls w) of
        None \<Rightarrow> (None, w\<lparr>task_calls := Suc (task_calls w), tasks := tasks w @ [t]\<rparr>)
      | Some (e, created) \<Rightarrow> (Some e, w\<lparr>task_calls := Suc (task_calls w),
          tasks := (if created then tasks w @ [t] else tasks w)\<rparr>))"
  by (simp add: CreateTask_def Let_def split: option.split)


section \<open>The scheduler\<close>

definition MaxTaskBodySize :: nat where "MaxTaskBodySize = 95 * 1024"

record cloudtasks_config =
  ct_Project :: string
  ct_Location :: string
  ct_Queue :: string
  ct_CallbackBaseURL :: string
  ct_ServiceAccountEmail :: string

record cloudtasks_scheduler =
  ct_queuePath :: string
  ct_callbackURL :: string
  ct_saEmail :: string
  ct_pb :: timestamppb

definition trim_right_slashes :: "string \<Rightarrow> string" where
  "trim_right_slashes s = rev (dropWhile (\<lambda>c. c = CHR ''/'') (rev s))"

lemma trim_slashes: "(base = [] \<or> last base \<noteq> CHR ''/'') \<Longrightarrow> trim_right_slashes (base @ replicate n CHR ''/'') = base"
  by (cases base rule: rev_cases) (auto simp: trim_right_slashes_def dropWhile_append3)

definition NewCloudTasksScheduler ::
    "timestamppb \<Rightarrow> go_error option \<Rightarrow> cloudtasks_config \<Rightarrow> go_error + cloudtasks_scheduler" where
  "NewCloudTasksScheduler pb client_error cfg =
     (case client_error of
        Some e \<Rightarrow> Inl (wrap_error ''scheduler: failed to create Cloud Tasks client'' e)
      | None \<Rightarrow> Inr \<lparr>
          ct_queuePath = ''projects/'' @ ct_Project cfg @ ''/locations/'' @ ct_Location cfg @ ''/queues/'' @ ct_Queue cfg,
          ct_callbackURL = trim_right_slashes (ct_CallbackBaseURL cfg) @ ''/internal/callback/enqueue'',
          ct_saEmail = ct_ServiceAccountEmail cfg,
          ct_pb = pb\<rparr>)"

definition too_large_error :: "nat \<Rightarrow> go_error" where
  "too_large_error n = Opaque (''scheduler: serialized job ('' @ show_nat n
     @ '' bytes) exceeds Cloud Tasks limit ('' @ show_nat MaxTaskBodySize @ '' bytes)'')"

definition task_for :: "cloudtasks_scheduler \<Rightarrow> job \<Rightarrow> bytes \<Rightarrow> task" where
  "task_for s j data = \<lparr>
     task_Parent = ct_queuePath s,
     task_Name = ct_queuePath s @ ''/tasks/'' @ job_ID j,
     task_ScheduleTime = ts_new (ct_pb s) (job_RunAt j),
     task_HttpMethod = ''POST'',
     task_Url = ct_callbackURL s,
     task_Headers = [(''Content-Type'', ''application/json'')],
     task_Body = data,
     task_Oidc = (if ct_saEmail s \<noteq> '''' then Some (ct_saEmail s, ct_callbackURL s) else None)\<rparr>"

definition CloudTasksScheduler_Schedule ::
    "cloudtasks_scheduler \<Rightarrow> job \<Rightarrow> ('a tasks_world_scheme, go_error option) state" where
  "CloudTasksScheduler_Schedule s j = do {
     start \<leftarrow> time_now;
     case marshalJob j of
       Inl e \<Rightarrow> do {
         emit (Incr ''jack.schedule.count'' [''status:error'', ''reason:marshal'']);
         ret (Some (wrap_error ''scheduler: failed to marshal job'' e)) }
     | Inr data \<Rightarrow>
         if MaxTaskBodySize < length data then do {
           emit (Incr ''jack.schedule.count'' [''status:error'', ''reason:too_large'']);
           ret (Some (too_large_error (length data))) }
         else do {
           err \<leftarrow> CreateTask (task_for s j data);
           case err of
             Some e \<Rightarrow> do {
               emit (Incr ''jack.schedule.count'' [''status:error'', ''reason:create'']);
               ret (Some (wrap_error ''scheduler: failed to create task'' e)) }
           | None \<Rightarrow> do {
               emit (Incr ''jack.schedule.count'' [''status:success'']);
               d \<leftarrow> time_since start;
               emit (DistSeconds ''jack.schedule.duration'' d []);
               ret None } } }"

text \<open>The goroutine for the slot \<open>idx\<close>, and all of them in some order.\<close>

definition schedule_slot :: "cloudtasks_scheduler \<Rightarrow> nat \<times> job \<Rightarrow> enqueue_result list
    \<Rightarrow> ('a tasks_world_scheme, enqueue_result list) state" where
  "schedule_slot s task results = (case task of (idx, j) \<Rightarrow> do {
     err \<leftarrow> CloudTasksScheduler_Schedule s j;
     ret (results[idx := (case err of
        Some e \<Rightarrow> \<lparr>result_JobID = '''', result_Error = Some e\<rparr>
      | None \<Rightarrow> \<lparr>result_JobID = job_ID j, result_Error = None\<rparr>)]) })"

fun schedule_slots :: "cloudtasks_scheduler \<Rightarrow> (nat \<times> job) list \<Rightarrow> enqueue_result list
    \<Rightarrow> ('a tasks_world_scheme, enqueue_result list) state" where
  "schedule_slots s [] results = ret results"
| "schedule_slots s (t # ts) results = do { results \<leftarrow> schedule_slot s t results; schedule_slots s ts results }"

definition CloudTasksScheduler_ScheduleBulk ::
    "cloudtasks_scheduler \<Rightarrow> job list \<Rightarrow> ('a tasks_world_scheme, enqueue_result list) state" where
  "CloudTasksScheduler_ScheduleBulk s jobs = do {
     order \<leftarrow> any_order (List.enumerate 0 jobs);
     schedule_slots s order (replicate (length jobs) zero_result) }"

definition CloudTasksScheduler_Close :: "go_error option \<Rightarrow> ('w, go_error option) state" where
  "CloudTasksScheduler_Close client_error = ret client_error"

definition cloud_tasks :: "go_error option \<Rightarrow> cloudtasks_scheduler \<Rightarrow> 'a tasks_world_scheme scheduler" where
  "cloud_tasks close_error s = \<lparr>
     scheduler_Schedule = CloudTasksScheduler_Schedule s,
     scheduler_ScheduleBulk = CloudTasksScheduler_ScheduleBulk s,
     scheduler_Close = CloudTasksScheduler_Close close_error\<rparr>"


section \<open>One task for each success\<close>

text \<open>The outcome of a call: which task, if any, it added, and whether it reported an error.\<close>

lemma run_Schedule:
  assumes "run_state (CloudTasksScheduler_Schedule s j) w = (e, w')" and "marshalJob j = Inr data"
  shows "(e = None \<longrightarrow> length data \<le> MaxTaskBodySize \<and> tasks w' = tasks w @ [task_for s j data])
    \<and> (\<exists>ts. tasks w' = tasks w @ ts)
    \<and> (MaxTaskBodySize < length data \<longrightarrow> e = Some (too_large_error (length data)) \<and> tasks w' = tasks w
         \<and> task_calls w' = task_calls w)"
proof (cases "MaxTaskBodySize < length data")
  case True
  then show ?thesis using assms by (auto simp: CloudTasksScheduler_Schedule_def)
next
  case False
  then show ?thesis using assms
    by (cases "task_faults w (task_calls w)") (auto simp: CloudTasksScheduler_Schedule_def split: prod.splits if_splits)
qed

lemma marshalJob_total: "\<exists>data. marshalJob j = Inr data"
  by (simp add: marshalJob_def)

text \<open>What a result says of the tasks: a success carries the job's id and its task was created.\<close>

definition slot_ok :: "cloudtasks_scheduler \<Rightarrow> task list \<Rightarrow> job \<Rightarrow> enqueue_result \<Rightarrow> bool" where
  "slot_ok s ts j r \<longleftrightarrow> (result_Error r = None \<longrightarrow> result_JobID r = job_ID j
     \<and> (\<exists>data. marshalJob j = Inr data \<and> task_for s j data \<in> set ts))"

lemma slot_ok_mono: "slot_ok s ts j r \<Longrightarrow> slot_ok s (vs @ ts @ us) j r"
  by (auto simp: slot_ok_def)

lemma run_schedule_slots:
  assumes "run_state (schedule_slots s ts results) w = (results', w')"
  shows "length results' = length results
    \<and> (\<forall>k < length results. k \<notin> fst ` set ts \<longrightarrow> results' ! k = results ! k)
    \<and> (\<exists>us. tasks w' = tasks w @ us
        \<and> (\<forall>k < length results. k \<in> fst ` set ts \<longrightarrow> (\<exists>j. (k, j) \<in> set ts \<and> slot_ok s us j (results' ! k))))"
  using assms
proof (induction ts arbitrary: results w)
  case (Cons t ts)
  obtain idx j where t: "t = (idx, j)" by fastforce
  obtain e v where e: "run_state (CloudTasksScheduler_Schedule s j) w = (e, v)" by fastforce
  let ?r = "case e of Some e \<Rightarrow> \<lparr>result_JobID = '''', result_Error = Some e\<rparr>
      | None \<Rightarrow> \<lparr>result_JobID = job_ID j, result_Error = None\<rparr>"
  have rest: "run_state (schedule_slots s ts (results[idx := ?r])) v = (results', w')"
    using Cons.prems e by (simp add: t schedule_slot_def)
  note IH = Cons.IH [OF rest]
  obtain data where d: "marshalJob j = Inr data" using marshalJob_total by blast
  note sch = run_Schedule [OF e d]
  obtain us where us: "tasks w' = tasks v @ us"
    "\<forall>k < length results. k \<in> fst ` set ts \<longrightarrow> (\<exists>j. (k, j) \<in> set ts \<and> slot_ok s us j (results' ! k))" using IH by auto
  obtain vs where vs: "tasks v = tasks w @ vs" using sch by blast
  have "slot_ok s vs j ?r" using sch d vs by (cases e) (auto simp: slot_ok_def)
  then have ok: "slot_ok s (vs @ us) j ?r" using slot_ok_mono [of s vs j _ "[]" us] by simp
  have "\<exists>j'. (k, j') \<in> set (t # ts) \<and> slot_ok s (vs @ us) j' (results' ! k)"
    if k: "k < length results" "k \<in> fst ` set (t # ts)" for k
  proof (cases "k \<in> fst ` set ts")
    case True
    then obtain j' where "(k, j') \<in> set ts" and "slot_ok s us j' (results' ! k)" using us(2) k(1) by blast
    then show ?thesis using slot_ok_mono [of s us j' "results' ! k" vs "[]"] by (intro exI [of _ j']) simp
  next
    case False
    then have "k = idx" "results' ! k = ?r" using IH k by (auto simp: t)
    then show ?thesis using ok by (auto simp: t)
  qed
  moreover have "results' ! k = results ! k" if "k < length results" "k \<notin> fst ` set (t # ts)" for k
    using IH that by (auto simp: t)
  ultimately show ?case using IH us(1) vs by (intro conjI exI [of _ "vs @ us"]) simp_all
qed simp

lemma run_ScheduleBulk:
  assumes "run_state (CloudTasksScheduler_ScheduleBulk s jobs) w = (rs, w')"
  shows "\<exists>us. tasks w' = tasks w @ us \<and> list_all2 (slot_ok s us) jobs rs"
proof -
  define order where "order = permute (choice w (choice_pos w)) (List.enumerate 0 jobs)"
  have set: "set order = set (List.enumerate 0 jobs)" by (simp add: order_def)
  have run: "run_state (schedule_slots s order (replicate (length jobs) zero_result)) (w\<lparr>choice_pos := Suc (choice_pos w)\<rparr>) = (rs, w')"
    using assms by (simp add: CloudTasksScheduler_ScheduleBulk_def order_def)
  note r = run_schedule_slots [OF run]
  then obtain us where us: "tasks w' = tasks w @ us"
    "\<forall>k < length jobs. k \<in> fst ` set order \<longrightarrow> (\<exists>j. (k, j) \<in> set order \<and> slot_ok s us j (rs ! k))" by auto
  have "slot_ok s us (jobs ! k) (rs ! k)" if k: "k < length jobs" for k
  proof -
    have "(k, jobs ! k) \<in> set order" using k by (simp add: set in_set_enumerate_eq)
    then have "k \<in> fst ` set order" by force
    then obtain j where "(k, j) \<in> set order" "slot_ok s us j (rs ! k)" using us(2) k by auto
    then show ?thesis by (simp add: set in_set_enumerate_eq)
  qed
  with r us(1) show ?thesis by (auto simp: list_all2_conv_all_nth)
qed

interpretation cloud_tasks: scheduler_contract "cloud_tasks close_error s" "\<lambda>_. True"
proof unfold_locales
  fix w js rs w' assume "run_state (scheduler_ScheduleBulk (cloud_tasks close_error s) js) w = (rs, w')"
  then obtain us where "list_all2 (slot_ok s us) js rs" using run_ScheduleBulk [of s js w rs w'] by (auto simp: cloud_tasks_def)
  then show "list_all2 answers js rs" by (rule list_all2_mono) (auto simp: slot_ok_def answers_def)
qed simp_all

section \<open>What a call to the scheduler changes\<close>

definition task_of :: "cloudtasks_scheduler \<Rightarrow> job \<Rightarrow> task \<Rightarrow> bool" where
  "task_of s j t \<longleftrightarrow> (\<exists>data. marshalJob j = Inr data \<and> t = task_for s j data)"

lemma CloudTasksScheduler_Schedule_effect:
  fixes w :: "'a tasks_world_scheme"
  assumes run: "run_state (CloudTasksScheduler_Schedule s j) w = (e, w')"
  shows "\<exists>n c ts ms. w' = w\<lparr>ticks := n, task_calls := c, tasks := tasks w @ ts, metrics := ms\<rparr>
    \<and> (\<forall>t \<in> set ts. task_of s j t) \<and> (e = None \<longrightarrow> (\<exists>t. ts = [t]))"
proof -
  obtain data where d: "marshalJob j = Inr data" using marshalJob_total by blast
  have t: "task_of s j (task_for s j data)" using d by (auto simp: task_of_def)
  show ?thesis
  proof (cases "MaxTaskBodySize < length data")
    case True
    then have "w' = w\<lparr>ticks := Suc (ticks w), task_calls := task_calls w, tasks := tasks w @ [], metrics := metrics w'\<rparr>"
      "e \<noteq> None" using run d by (auto simp: CloudTasksScheduler_Schedule_def)
    then show ?thesis by (metis empty_iff empty_set)
  next
    case small: False
    show ?thesis
    proof (cases "task_faults w (task_calls w)")
      case None
      then have "w' = w\<lparr>ticks := Suc (Suc (ticks w)), task_calls := Suc (task_calls w), tasks := tasks w @ [task_for s j data],
          metrics := metrics w'\<rparr>" using run d small by (auto simp: CloudTasksScheduler_Schedule_def)
      with t show ?thesis by (metis empty_iff empty_set set_ConsD)
    next
      case (Some f)
      obtain err created where f: "f = (err, created)" by fastforce
      have "e \<noteq> None" using run d small Some f by (auto simp: CloudTasksScheduler_Schedule_def)
      moreover have "w' = w\<lparr>ticks := Suc (ticks w), task_calls := Suc (task_calls w),
          tasks := tasks w @ (if created then [task_for s j data] else []), metrics := metrics w'\<rparr>"
        using run d small Some f by (auto simp: CloudTasksScheduler_Schedule_def)
      moreover have "\<forall>t \<in> set (if created then [task_for s j data] else []). task_of s j t" using t by simp
      ultimately show ?thesis by blast
    qed
  qed
qed

lemma schedule_slots_effect:
  fixes w :: "'a tasks_world_scheme"
  assumes "run_state (schedule_slots s todo results) w = (rs, w')"
  shows "\<exists>n c ts ms. w' = w\<lparr>ticks := n, task_calls := c, tasks := tasks w @ ts, metrics := ms\<rparr>
    \<and> (\<forall>t \<in> set ts. \<exists>j \<in> snd ` set todo. task_of s j t)"
  using assms
proof (induction todo arbitrary: results w)
  case Nil
  then have "w' = w" by simp
  then show ?case
    by (intro exI [of _ "ticks w"] exI [of _ "task_calls w"] exI [of _ "[]"] exI [of _ "metrics w"]) simp
next
  case (Cons t todo)
  obtain idx j where t: "t = (idx, j)" by fastforce
  obtain e v where e: "run_state (CloudTasksScheduler_Schedule s j) w = (e, v)" by fastforce
  obtain results' where rest: "run_state (schedule_slots s todo results') v = (rs, w')"
    using Cons.prems e by (auto simp: t schedule_slot_def)
  from CloudTasksScheduler_Schedule_effect [OF e] obtain n c ts ms where
    v: "v = w\<lparr>ticks := n, task_calls := c, tasks := tasks w @ ts, metrics := ms\<rparr>" "\<forall>t \<in> set ts. task_of s j t" by blast
  from Cons.IH [OF rest] obtain n' c' ts' ms' where
    "w' = v\<lparr>ticks := n', task_calls := c', tasks := tasks v @ ts', metrics := ms'\<rparr>"
    "\<forall>t \<in> set ts'. \<exists>j \<in> snd ` set todo. task_of s j t" by blast
  with v show ?case
    by (intro exI [of _ n'] exI [of _ c'] exI [of _ "ts @ ts'"] exI [of _ ms']) (auto simp: t)
qed

lemma CloudTasksScheduler_ScheduleBulk_effect:
  fixes w :: "'a tasks_world_scheme"
  assumes run: "run_state (CloudTasksScheduler_ScheduleBulk s jobs) w = (rs, w')"
  shows "\<exists>p n c ts ms. w' = w\<lparr>choice_pos := p, ticks := n, task_calls := c, tasks := tasks w @ ts, metrics := ms\<rparr>
    \<and> (\<forall>t \<in> set ts. \<exists>j \<in> set jobs. task_of s j t)"
proof -
  let ?w = "w\<lparr>choice_pos := Suc (choice_pos w)\<rparr>"
  let ?todo = "permute (choice w (choice_pos w)) (List.enumerate 0 jobs)"
  have "run_state (schedule_slots s ?todo (replicate (length jobs) zero_result)) ?w = (rs, w')"
    using run by (simp add: CloudTasksScheduler_ScheduleBulk_def)
  from schedule_slots_effect [OF this] obtain n c ts ms where
    w': "w' = ?w\<lparr>ticks := n, task_calls := c, tasks := tasks w @ ts, metrics := ms\<rparr>"
    and ts: "\<forall>t \<in> set ts. \<exists>j \<in> snd ` set ?todo. task_of s j t" by auto
  have jobs: "snd ` set (permute k (List.enumerate 0 jobs)) = set jobs" for k
    unfolding set_permute by (simp only: set_map [symmetric] map_snd_enumerate)
  show ?thesis using w' ts unfolding jobs by blast
qed


section \<open>Properties\<close>

text \<open>
  A job whose scheduling is reported as done has exactly one new task, named after the
  job, due at the job's run time, whose body the callback decodes to that very job.
\<close>

lemma scheduled_task_delivers_job:
  assumes "run_state (CloudTasksScheduler_Schedule s j) w = (None, w')"
    and "encodable j" and "year_ok (job_RunAt j)" and "year_ok (job_CreatedAt j)"
  shows "\<exists>t. tasks w' = tasks w @ [t] \<and> task_Name t = ct_queuePath s @ ''/tasks/'' @ job_ID j
    \<and> task_ScheduleTime t = ts_new (ct_pb s) (job_RunAt j) \<and> task_Url t = ct_callbackURL s
    \<and> length (task_Body t) \<le> MaxTaskBodySize \<and> UnmarshalJob (task_Body t) = Inr j"
proof -
  obtain data where d: "marshalJob j = Inr data" using marshalJob_total by blast
  with run_Schedule [OF assms(1) d] unmarshal_marshal [OF assms(2-4) d] show ?thesis
    by (simp add: task_for_def)
qed

text \<open>
  C33. A job with a payload of more than 72960 bytes can never be scheduled, although the
  service accepts payloads up to a megabyte: the error comes back and no call is made.
\<close>

lemma large_payload_is_not_scheduled:
  assumes "72960 < slice_len (job_Payload j)"
  shows "(case run_state (CloudTasksScheduler_Schedule s j) w of (e, w') \<Rightarrow>
    e \<noteq> None \<and> tasks w' = tasks w \<and> task_calls w' = task_calls w)"
proof -
  obtain data where d: "marshalJob j = Inr data" using marshalJob_total by blast
  have "MaxTaskBodySize < length data"
    using body_length_at_least [OF d] assms unfolding MaxTaskBodySize_def by linarith
  moreover obtain e w' where r: "run_state (CloudTasksScheduler_Schedule s j) w = (e, w')" by fastforce
  ultimately show ?thesis using run_Schedule [OF r d] by simp
qed

text \<open>
  In whatever order the goroutines of a bulk call run, every job has one result in its
  own place, and a result without an error names that job and stands for a task
  that this call created, with the job as its body and its id in the name.
\<close>

lemma schedule_bulk_correct:
  assumes "run_state (CloudTasksScheduler_ScheduleBulk s jobs) w = (rs, w')"
  shows "\<exists>us. tasks w' = tasks w @ us \<and> length rs = length jobs
    \<and> (\<forall>i < length jobs. result_Error (rs ! i) = None \<longrightarrow> result_JobID (rs ! i) = job_ID (jobs ! i)
        \<and> (\<exists>t \<in> set us. task_Name t = ct_queuePath s @ ''/tasks/'' @ job_ID (jobs ! i)
             \<and> marshalJob (jobs ! i) = Inr (task_Body t)))"
proof -
  obtain us where us: "tasks w' = tasks w @ us" and "list_all2 (slot_ok s us) jobs rs"
    using run_ScheduleBulk [OF assms] by blast
  then have len: "length rs = length jobs" and ok: "\<forall>i < length jobs. slot_ok s us (jobs ! i) (rs ! i)"
    by (auto simp: list_all2_conv_all_nth)
  have "\<exists>t \<in> set us. task_Name t = ct_queuePath s @ ''/tasks/'' @ job_ID (jobs ! i) \<and> marshalJob (jobs ! i) = Inr (task_Body t)"
    if "marshalJob (jobs ! i) = Inr data" "task_for s (jobs ! i) data \<in> set us" for i data
    by (rule bexI [OF _ that(2)]) (simp add: task_for_def that(1))
  with us len ok show ?thesis unfolding slot_ok_def by blast
qed


section \<open>Witnesses\<close>

definition sample_tasks_world :: tasks_world where
  "sample_tasks_world = \<lparr>clock = (\<lambda>_. 0), ticks = 0, entropy = (\<lambda>_. 0), entropy_pos = 0,
     choice = (\<lambda>_. 1), choice_pos = 0, metrics = [], producers = [], jobTypes = [],
     objects = [], gcs_calls = 0, gcs_faults = (\<lambda>_. None),
     published = [], publish_errors = (\<lambda>_. None), topic_exists = (\<lambda>_. Inr True),
     tasks = [], task_calls = 0, task_faults = (\<lambda>_. None)\<rparr>"

definition sample_scheduler :: cloudtasks_scheduler where
  "sample_scheduler = \<lparr>ct_queuePath = ''q'', ct_callbackURL = ''http://jack/internal/callback/enqueue'',
     ct_saEmail = [], ct_pb = sample_pb\<rparr>"

text \<open>The length of a body, bounded from above, for a sample small enough to be scheduled.\<close>

lemma schedule_small:
  assumes "marshalJob j = Inr data" and "length data \<le> MaxTaskBodySize" and "task_faults w (task_calls w) = None"
  shows "fst (run_state (CloudTasksScheduler_Schedule s j) w) = None"
  using assms by (simp add: CloudTasksScheduler_Schedule_def)

lemma large_payload_is_not_scheduled_witness:
  "tasks (snd (run_state (CloudTasksScheduler_Schedule sample_scheduler
     (sample_scheduled\<lparr>job_Payload := Some (replicate 80000 0)\<rparr>)) sample_tasks_world)) = []"
proof -
  have "72960 < slice_len (job_Payload (sample_scheduled\<lparr>job_Payload := Some (replicate 80000 0)\<rparr>))" by simp
  from large_payload_is_not_scheduled [OF this, where s = sample_scheduler and w = sample_tasks_world]
  have "tasks (snd (run_state (CloudTasksScheduler_Schedule sample_scheduler
     (sample_scheduled\<lparr>job_Payload := Some (replicate 80000 0)\<rparr>)) sample_tasks_world)) = tasks sample_tasks_world"
    by (auto split: prod.splits)
  then show ?thesis by (simp add: sample_tasks_world_def)
qed

lemma sample_body_length: "length (encode_scheduledJob \<lparr>
     sj_ID = ''pjob_1'', sj_ProducerID = ''prod_1'', sj_Type = ''mail'', sj_Priority = 2,
     sj_Payload = Some [123, 125], sj_RunAt = ''1970-01-01T00:00:00Z'', sj_TraceID = [],
     sj_MaxRetries = 3, sj_CreatedAt = ''1970-01-01T00:00:00Z'', sj_Shadow = False\<rparr>) < 300"
  by code_simp

lemma format_epoch: "format_rfc3339nano 0 = ''1970-01-01T00:00:00Z''"
  by code_simp

lemma sample_body_small: "marshalJob sample_scheduled = Inr data \<Longrightarrow> length data \<le> MaxTaskBodySize"
  using sample_body_length
  by (auto simp: marshalJob_def sample_scheduled_def format_epoch PriorityHigh_def MaxTaskBodySize_def)

lemma scheduled_task_delivers_job_witness:
  "\<exists>t. tasks (snd (run_state (CloudTasksScheduler_Schedule sample_scheduler sample_scheduled) sample_tasks_world)) = [t]
     \<and> UnmarshalJob (task_Body t) = Inr sample_scheduled"
proof -
  obtain data where d: "marshalJob sample_scheduled = Inr data" using marshalJob_total by blast
  obtain e w' where r: "run_state (CloudTasksScheduler_Schedule sample_scheduler sample_scheduled) sample_tasks_world = (e, w')"
    by fastforce
  have "task_faults sample_tasks_world (task_calls sample_tasks_world) = None" by (simp add: sample_tasks_world_def)
  from schedule_small [OF d sample_body_small [OF d] this, of sample_scheduler] r have e: "e = None" by simp
  have y: "year_ok (job_RunAt sample_scheduled)" "year_ok (job_CreatedAt sample_scheduled)"
    by (simp_all add: sample_scheduled_def year_ok_def year_of_epoch)
  have "tasks sample_tasks_world = []" by (simp add: sample_tasks_world_def)
  with scheduled_task_delivers_job [OF r [unfolded e] encodable_sample y] r show ?thesis by auto
qed

lemma schedule_bulk_correct_witness:
  "length (fst (run_state (CloudTasksScheduler_ScheduleBulk sample_scheduler
     [sample_scheduled, sample_scheduled\<lparr>job_ID := ''pjob_2''\<rparr>]) sample_tasks_world)) = 2"
proof -
  have "length (fst (run_state (CloudTasksScheduler_ScheduleBulk sample_scheduler
     [sample_scheduled, sample_scheduled\<lparr>job_ID := ''pjob_2''\<rparr>]) sample_tasks_world))
     = length [sample_scheduled, sample_scheduled\<lparr>job_ID := ''pjob_2''\<rparr>]"
    using schedule_bulk_correct [OF prod.collapse [symmetric],
      of sample_scheduler "[sample_scheduled, sample_scheduled\<lparr>job_ID := ''pjob_2''\<rparr>]" sample_tasks_world] by blast
  then show ?thesis by simp
qed

end
