(* ===== verification/Server.thy ===== *)
theory Server
  imports JobId Storage Scheduler
begin

text \<open>
  internal/api/server.go: the gRPC service that enqueues jobs. The handlers run against
  the interfaces \<open>Store\<close>, \<open>Backend\<close> and \<open>Scheduler\<close>; a nil store or scheduler is \<open>None\<close>.
  The part of the two handlers that turns a valid request into a job is the same code
  twice in the source, and one definition here.
\<close>


section \<open>Configuration\<close>

definition bulkReasonValidationError :: string where "bulkReasonValidationError = ''validation_error''"
definition bulkReasonPayloadTooLarge :: string where "bulkReasonPayloadTooLarge = ''payload_too_large''"
definition bulkReasonInternalError :: string where "bulkReasonInternalError = ''internal_error''"

lemmas bulk_reason_defs = bulkReasonValidationError_def bulkReasonPayloadTooLarge_def bulkReasonInternalError_def

record server_config =
  sc_MaxPayloadSize :: int
  sc_DefaultQueue :: priority
  sc_DefaultMaxRetries :: int
  sc_ScheduleThreshold :: duration
  sc_LegacyPayloadQueueRouting :: bool

definition DefaultServerConfig :: server_config where
  "DefaultServerConfig = \<lparr>sc_MaxPayloadSize = 1048576, sc_DefaultQueue = PriorityMedium, sc_DefaultMaxRetries = 10,
     sc_ScheduleThreshold = 0, sc_LegacyPayloadQueueRouting = False\<rparr>"

record 'w server =
  srv_store :: "'w store option"
  srv_backend :: "'w backend"
  srv_scheduler :: "'w scheduler option"
  srv_config :: server_config
  srv_as_time :: "timestamp \<Rightarrow> instant"

definition NewServer :: "(timestamp \<Rightarrow> instant) \<Rightarrow> 'w store option \<Rightarrow> 'w backend \<Rightarrow> 'w scheduler option
    \<Rightarrow> server_config \<Rightarrow> 'w server" where
  "NewServer astime store backend sched config =
     \<lparr>srv_store = store, srv_backend = backend, srv_scheduler = sched, srv_config = config, srv_as_time = astime\<rparr>"

text \<open>
  The context of a request: the values of a metadata key, none if the context carries no
  incoming metadata.
\<close>

type_synonym rpc_context = "(string \<Rightarrow> string list) option"

definition shadowFromContext :: "rpc_context \<Rightarrow> bool" where
  "shadowFromContext ctx =
     (case ctx of None \<Rightarrow> False
      | Some md \<Rightarrow> (case md ''shadow'' of [] \<Rightarrow> False | v # _ \<Rightarrow> v = ''true''))"


section \<open>Routing\<close>

definition storageQueueToQueuePriority :: "queue_enum \<Rightarrow> priority" where
  "storageQueueToQueuePriority q =
     (if q = Queue_QUEUE_IMMEDIATE then PriorityImmediate
      else if q = Queue_QUEUE_HIGH then PriorityHigh
      else if q = Queue_QUEUE_MEDIUM then PriorityMedium
      else if q = Queue_QUEUE_LOW then PriorityLow
      else PriorityMedium)"

record legacy_payload = legacy_payload_Queue :: string

definition legacy_payload_fields :: "legacy_payload fields" where
  "legacy_payload_fields =
     [(''queue'', field legacy_payload_Queue (\<lambda>x s. s\<lparr>legacy_payload_Queue := x\<rparr>) dec_string)]"

definition legacyPayloadPriority :: "byte_slice \<Rightarrow> priority \<times> bool" where
  "legacyPayloadPriority payload =
     (case unmarshal_struct legacy_payload_fields \<lparr>legacy_payload_Queue = []\<rparr> (string_of_bytes (slice_bytes payload)) of
        Inl e \<Rightarrow> (PriorityUnspecified, False)
      | Inr legacy \<Rightarrow>
          (let q = legacy_payload_Queue legacy
           in if q = ''immediate'' then (PriorityImmediate, True)
              else if q = ''high'' then (PriorityHigh, True)
              else if q = ''medium'' then (PriorityMedium, True)
              else if q = ''low'' then (PriorityLow, True)
              else (PriorityUnspecified, False)))"

definition getJobTypeConfig :: "'w server \<Rightarrow> string \<Rightarrow> string \<Rightarrow> ('w, priority \<times> int \<times> string) state" where
  "getJobTypeConfig srv producerID jobType =
     (case srv_store srv of
        None \<Rightarrow> ret (sc_DefaultQueue (srv_config srv), sc_DefaultMaxRetries (srv_config srv), '''')
      | Some store \<Rightarrow> do {
          r \<leftarrow> store_GetJobType store producerID jobType;
          ret (case r of
             Inl e \<Rightarrow> (sc_DefaultQueue (srv_config srv), sc_DefaultMaxRetries (srv_config srv),
               ''unregistered job_type: '' @ jobType @ '' (producer: '' @ producerID @ '')'')
           | Inr jt \<Rightarrow> (storageQueueToQueuePriority (job_type_Queue jt), sint (job_type_MaxRetries jt), '''')) })"

definition routingConfig :: "'a env_scheme server \<Rightarrow> string \<Rightarrow> string \<Rightarrow> byte_slice
    \<Rightarrow> ('a env_scheme, priority \<times> int \<times> string) state" where
  "routingConfig srv producerID jobType payload =
     (let (p, ok) = legacyPayloadPriority payload
      in if sc_LegacyPayloadQueueRouting (srv_config srv) \<and> ok then do {
           emit (Incr ''jack.enqueue.legacy_payload_queue_routing.count''
             [''producer_id:'' @ producerID, ''job_type:'' @ jobType, priority_tag p]);
           ret (p, sc_DefaultMaxRetries (srv_config srv), '''') }
         else getJobTypeConfig srv producerID jobType)"


section \<open>From a request to a job\<close>

definition check_producer :: "'w server \<Rightarrow> string \<Rightarrow> ('w, string list) state" where
  "check_producer srv producerID =
     (case srv_store srv of
        None \<Rightarrow> ret []
      | Some store \<Rightarrow> do {
          r \<leftarrow> store_GetProducer store producerID;
          ret (case r of Inl e \<Rightarrow> [''unregistered producer_id: '' @ producerID] | Inr p \<Rightarrow> []) })"

definition prepare_job :: "'a env_scheme server \<Rightarrow> bool \<Rightarrow> enqueue_request
    \<Rightarrow> ('a env_scheme, string list \<times> job) state" where
  "prepare_job srv shadow r = do {
     warnings \<leftarrow> check_producer srv (enqueue_request_ProducerId r);
     (priority, maxRetries, jobTypeWarning) \<leftarrow>
       routingConfig srv (enqueue_request_ProducerId r) (enqueue_request_JobType r) (enqueue_request_Payload r);
     let warnings = (if jobTypeWarning \<noteq> '''' then warnings @ [jobTypeWarning] else warnings);
     jobID \<leftarrow> generate (enqueue_request_ProducerId r) (enqueue_request_JobType r);
     now \<leftarrow> time_now;
     let runAt = (case enqueue_request_RunAt r of None \<Rightarrow> now | Some t \<Rightarrow> srv_as_time srv t);
     createdAt \<leftarrow> time_now;
     ret (warnings, \<lparr>
       job_ID = jobID,
       job_ProducerID = enqueue_request_ProducerId r,
       job_Type = enqueue_request_JobType r,
       job_Priority = priority,
       job_Payload = enqueue_request_Payload r,
       job_RunAt = runAt,
       job_TraceID = enqueue_request_TraceId r,
       job_MaxRetries = maxRetries,
       job_CreatedAt = createdAt,
       job_Shadow = shadow\<rparr>) }"

text \<open>Whether a job is for the scheduler; the clock is only read when there is one in use.\<close>

definition is_future :: "'a env_scheme server \<Rightarrow> job \<Rightarrow> ('a env_scheme, bool) state" where
  "is_future srv j =
     (if srv_scheduler srv \<noteq> None \<and> 0 < sc_ScheduleThreshold (srv_config srv) then do {
        d \<leftarrow> time_until (job_RunAt j);
        ret (sc_ScheduleThreshold (srv_config srv) \<le> d) }
      else ret False)"


section \<open>Enqueue\<close>

definition enqueue_tags :: "enqueue_request \<Rightarrow> priority \<Rightarrow> string list" where
  "enqueue_tags r p = [''job_type:'' @ enqueue_request_JobType r, ''producer_id:'' @ enqueue_request_ProducerId r, priority_tag p]"

definition enqueue_done :: "instant \<Rightarrow> enqueue_request \<Rightarrow> string list \<Rightarrow> job \<Rightarrow> string
    \<Rightarrow> ('a env_scheme, rpc_status + enqueue_response) state" where
  "enqueue_done start r warnings j meth = do {
     let tags = enqueue_tags r (job_Priority j);
     emit (Incr ''jack.enqueue.count'' (tags @ [''status:success'', ''method:'' @ meth]));
     d \<leftarrow> time_since start;
     emit (DistSeconds ''jack.enqueue.duration'' d tags);
     emit (DistCount ''jack.enqueue.payload_bytes'' (slice_len (enqueue_request_Payload r)) (take 2 tags));
     ret (Inr \<lparr>
       enqueue_response_JobId = job_ID j,
       enqueue_response_ErrorMessages = warnings,
       enqueue_response_CorrelationId = enqueue_request_CorrelationId r\<rparr>) }"

definition Server_Enqueue :: "'a env_scheme server \<Rightarrow> rpc_context \<Rightarrow> enqueue_request
    \<Rightarrow> ('a env_scheme, rpc_status + enqueue_response) state" where
  "Server_Enqueue srv ctx r = do {
     start \<leftarrow> time_now;
     if enqueue_request_ProducerId r = '''' then
       ret (Inl (RpcStatus InvalidArgument ''producer_id is required''))
     else if enqueue_request_JobType r = '''' then
       ret (Inl (RpcStatus InvalidArgument ''job_type is required''))
     else if sc_MaxPayloadSize (srv_config srv) < int (slice_len (enqueue_request_Payload r)) then
       ret (Inl (RpcStatus InvalidArgument
         (''payload exceeds max size ('' @ show_int (sc_MaxPayloadSize (srv_config srv)) @ '' bytes)'')))
     else do {
       (warnings, j) \<leftarrow> prepare_job srv (shadowFromContext ctx) r;
       let tags = enqueue_tags r (job_Priority j);
       future \<leftarrow> is_future srv j;
       case (srv_scheduler srv, future) of
         (Some sched, True) \<Rightarrow> do {
           err \<leftarrow> scheduler_Schedule sched j;
           case err of
             Some e \<Rightarrow> do {
               emit (Incr ''jack.enqueue.count'' (tags @ [''status:error'', ''method:scheduled'']));
               ret (Inl (RpcStatus Internal ''failed to schedule future job'')) }
           | None \<Rightarrow> enqueue_done start r warnings j ''scheduled'' }
       | _ \<Rightarrow> do {
           err \<leftarrow> backend_Enqueue (srv_backend srv) j;
           case err of
             Some e \<Rightarrow> do {
               emit (Incr ''jack.enqueue.count'' (tags @ [''status:error'', ''method:immediate'']));
               ret (Inl (if errors_is e ErrQueueUnavailable
                 then RpcStatus Unavailable ''queue temporarily unavailable''
                 else RpcStatus Internal ''failed to enqueue job'')) }
           | None \<Rightarrow> enqueue_done start r warnings j ''immediate'' } } }"


section \<open>EnqueueBulk\<close>

text \<open>The four slices the first loop fills, one slot for each request.\<close>

record prepared =
  prep_jobs :: "job option list"
  prep_errors :: "string list"
  prep_reasons :: "string list"
  prep_warnings :: "string list list"

definition fresh_prepared :: "nat \<Rightarrow> prepared" where
  "fresh_prepared n = \<lparr>prep_jobs = replicate n None, prep_errors = replicate n [], prep_reasons = replicate n [],
     prep_warnings = replicate n []\<rparr>"

text \<open>Why a request of a bulk call is rejected: the message and the reason.\<close>

definition bulk_validation :: "'w server \<Rightarrow> enqueue_request \<Rightarrow> (string \<times> string) option" where
  "bulk_validation srv r =
     (if enqueue_request_ProducerId r = '''' then Some (''producer_id is required'', bulkReasonValidationError)
      else if enqueue_request_JobType r = '''' then Some (''job_type is required'', bulkReasonValidationError)
      else if sc_MaxPayloadSize (srv_config srv) < int (slice_len (enqueue_request_Payload r))
        then Some (''payload exceeds max size'', bulkReasonPayloadTooLarge)
      else None)"

fun prepare_loop :: "'a env_scheme server \<Rightarrow> bool \<Rightarrow> nat \<Rightarrow> enqueue_request list \<Rightarrow> prepared
    \<Rightarrow> ('a env_scheme, prepared) state" where
  "prepare_loop srv shadow i [] p = ret p"
| "prepare_loop srv shadow i (r # rs) p =
     (case bulk_validation srv r of
        Some (msg, reason) \<Rightarrow>
          prepare_loop srv shadow (Suc i) rs
            (p\<lparr>prep_errors := (prep_errors p)[i := msg], prep_reasons := (prep_reasons p)[i := reason]\<rparr>)
      | None \<Rightarrow> do {
          (warnings, j) \<leftarrow> prepare_job srv shadow r;
          prepare_loop srv shadow (Suc i) rs
            (p\<lparr>prep_warnings := (prep_warnings p)[i := warnings], prep_jobs := (prep_jobs p)[i := Some j]\<rparr>) })"

text \<open>The jobs for the backend and for the scheduler, each with the places of its jobs.\<close>

record bulk_parts =
  immediateJobs :: "job list"
  immediateIndexes :: "nat list"
  futureJobs :: "job list"
  futureIndexes :: "nat list"

fun partition_loop :: "'a env_scheme server \<Rightarrow> nat \<Rightarrow> job option list \<Rightarrow> bulk_parts \<Rightarrow> ('a env_scheme, bulk_parts) state" where
  "partition_loop srv i [] p = ret p"
| "partition_loop srv i (None # js) p = partition_loop srv (Suc i) js p"
| "partition_loop srv i (Some j # js) p = do {
     future \<leftarrow> is_future srv j;
     partition_loop srv (Suc i) js
       (if future then p\<lparr>futureJobs := futureJobs p @ [j], futureIndexes := futureIndexes p @ [i]\<rparr>
        else p\<lparr>immediateJobs := immediateJobs p @ [j], immediateIndexes := immediateIndexes p @ [i]\<rparr>) }"

definition fresh_result :: "nat \<Rightarrow> enqueue_request \<Rightarrow> string list \<Rightarrow> bulk_result" where
  "fresh_result i r warnings = \<lparr>
     bulk_result_Index = word_of_nat i,
     bulk_result_JobId = [],
     bulk_result_Error = [],
     bulk_result_ErrorMessages = warnings,
     bulk_result_CorrelationId = enqueue_request_CorrelationId r,
     bulk_result_Reason = []\<rparr>"

fun fill_validation :: "nat \<Rightarrow> string list \<Rightarrow> string list \<Rightarrow> bulk_result list \<Rightarrow> bulk_result list" where
  "fill_validation i [] reasons results = results"
| "fill_validation i (msg # msgs) reasons results =
     fill_validation (Suc i) msgs reasons
       (if msg \<noteq> '''' then results[i := (results ! i)\<lparr>bulk_result_Error := msg, bulk_result_Reason := reasons ! i\<rparr>]
        else results)"

definition apply_result :: "enqueue_result \<Rightarrow> bulk_result \<Rightarrow> bulk_result" where
  "apply_result br b =
     (case result_Error br of
        Some e \<Rightarrow> b\<lparr>bulk_result_Error := error_text e, bulk_result_Reason := bulkReasonInternalError\<rparr>
      | None \<Rightarrow> b\<lparr>bulk_result_JobId := result_JobID br\<rparr>)"

fun fill_results :: "nat \<Rightarrow> nat list \<Rightarrow> enqueue_result list \<Rightarrow> bulk_result list \<Rightarrow> bulk_result list" where
  "fill_results idx [] brs results = results"
| "fill_results idx (validIdx # is) brs results =
     fill_results (Suc idx) is brs
       (if idx < length brs then results[validIdx := apply_result (brs ! idx) (results ! validIdx)] else results)"

definition bulk_metric :: "string \<Rightarrow> enqueue_result \<Rightarrow> metric" where
  "bulk_metric meth br = Incr ''jack.enqueue_bulk.count''
     [''status:'' @ (if result_Error br \<noteq> None then ''error'' else ''success''), ''method:'' @ meth]"

text \<open>
  A job only counts as one for the scheduler when there is a scheduler, so the nil
  dereference of the last branch is never reached with jobs.
\<close>

definition schedule_futures :: "'w server \<Rightarrow> job list \<Rightarrow> ('w, enqueue_result list) state" where
  "schedule_futures srv js =
     (if js = [] then ret []
      else case srv_scheduler srv of Some sched \<Rightarrow> scheduler_ScheduleBulk sched js | None \<Rightarrow> ret [])"

text \<open>The answers: a fresh slot for each request, then what each part of the work wrote into it.\<close>

definition bulk_results :: "enqueue_request list \<Rightarrow> prepared \<Rightarrow> bulk_parts \<Rightarrow> enqueue_result list \<Rightarrow> enqueue_result list
    \<Rightarrow> bulk_result list" where
  "bulk_results reqs prep parts immediateResults futureResults =
     (let results = map (\<lambda>i. fresh_result i (reqs ! i) (prep_warnings prep ! i)) [0..<length reqs];
          results = fill_validation 0 (prep_errors prep) (prep_reasons prep) results;
          results = fill_results 0 (immediateIndexes parts) immediateResults results
      in fill_results 0 (futureIndexes parts) futureResults results)"

definition bulk_metrics :: "instant \<Rightarrow> nat \<Rightarrow> enqueue_result list \<Rightarrow> enqueue_result list \<Rightarrow> ('a env_scheme, unit) state" where
  "bulk_metrics start n immediateResults futureResults = do {
     emit (DistCount ''jack.enqueue_bulk.jobs'' n []);
     d \<leftarrow> time_since start;
     emit (DistSeconds ''jack.enqueue_bulk.duration'' d []);
     foreach immediateResults (\<lambda>br. emit (bulk_metric ''immediate'' br));
     foreach futureResults (\<lambda>br. emit (bulk_metric ''scheduled'' br)) }"

definition Server_EnqueueBulk :: "'a env_scheme server \<Rightarrow> rpc_context \<Rightarrow> enqueue_bulk_request
    \<Rightarrow> ('a env_scheme, rpc_status + enqueue_bulk_response) state" where
  "Server_EnqueueBulk srv ctx req = do {
     start \<leftarrow> time_now;
     let reqs = enqueue_bulk_request_Jobs req;
     if reqs = [] then ret (Inl (RpcStatus InvalidArgument ''jobs is required''))
     else do {
       let shadow = shadowFromContext ctx;
       prep \<leftarrow> prepare_loop srv shadow 0 reqs (fresh_prepared (length reqs));
       parts \<leftarrow> partition_loop srv 0 (prep_jobs prep)
         \<lparr>immediateJobs = [], immediateIndexes = [], futureJobs = [], futureIndexes = []\<rparr>;
       immediateResults \<leftarrow>
         (if immediateJobs parts \<noteq> [] then backend_EnqueueBulk (srv_backend srv) (immediateJobs parts) else ret []);
       futureResults \<leftarrow> schedule_futures srv (futureJobs parts);
       let results = bulk_results reqs prep parts immediateResults futureResults;
       bulk_metrics start (length reqs) immediateResults futureResults;
       ret (Inr \<lparr>enqueue_bulk_response_Results = results\<rparr>) } }"

section \<open>Jobs made from requests\<close>

definition job_of :: "'w server \<Rightarrow> bool \<Rightarrow> enqueue_request \<Rightarrow> job \<Rightarrow> bool" where
  "job_of srv shadow r j \<longleftrightarrow> job_ProducerID j = enqueue_request_ProducerId r \<and> job_Type j = enqueue_request_JobType r
     \<and> job_Payload j = enqueue_request_Payload r \<and> job_TraceID j = enqueue_request_TraceId r \<and> job_Shadow j = shadow
     \<and> (\<forall>t. enqueue_request_RunAt r = Some t \<longrightarrow> job_RunAt j = srv_as_time srv t)"

lemma prepare_job_of: "run_state (prepare_job srv shadow r) w = ((ws, j), w') \<Longrightarrow> job_of srv shadow r j"
  by (auto simp: prepare_job_def job_of_def Let_def split: prod.splits)

text \<open>The loop of \<open>EnqueueBulk\<close> over index-addressed slices, as one pass over the requests.\<close>

type_synonym prep_out = "string \<times> string + string list \<times> job"

definition prepare_each :: "'a env_scheme server \<Rightarrow> bool \<Rightarrow> enqueue_request \<Rightarrow> ('a env_scheme, prep_out) state" where
  "prepare_each srv shadow r =
     (case bulk_validation srv r of
        Some mr \<Rightarrow> ret (Inl mr)
      | None \<Rightarrow> do { wj \<leftarrow> prepare_job srv shadow r; ret (Inr wj) })"

definition out_job :: "prep_out \<Rightarrow> job option" where
  "out_job x = (case x of Inl _ \<Rightarrow> None | Inr (ws, j) \<Rightarrow> Some j)"

definition out_error :: "prep_out \<Rightarrow> string" where
  "out_error x = (case x of Inl (m, _) \<Rightarrow> m | Inr _ \<Rightarrow> [])"

definition out_reason :: "prep_out \<Rightarrow> string" where
  "out_reason x = (case x of Inl (_, r) \<Rightarrow> r | Inr _ \<Rightarrow> [])"

definition out_warnings :: "prep_out \<Rightarrow> string list" where
  "out_warnings x = (case x of Inl _ \<Rightarrow> [] | Inr (ws, _) \<Rightarrow> ws)"

lemma out_simps [simp]:
  "out_job (Inl e) = None" "out_job (Inr (ws, j)) = Some j"
  "out_error (Inl (m, q)) = m" "out_error (Inr wj) = []"
  "out_reason (Inl (m, q)) = q" "out_reason (Inr wj) = []"
  "out_warnings (Inl e) = []" "out_warnings (Inr (ws, j)) = ws"
  by (simp_all add: out_job_def out_error_def out_reason_def out_warnings_def)

lemma update_at: "length xs = i \<Longrightarrow> (xs @ y # ys)[i := z] = xs @ z # ys"
  by auto

lemma run_prepare_loop:
  assumes "prep_jobs p = js @ replicate (length rs) None" and "prep_errors p = es @ replicate (length rs) []"
    and "prep_reasons p = qs @ replicate (length rs) []" and "prep_warnings p = wss @ replicate (length rs) []"
    and "length js = i" and "length es = i" and "length qs = i" and "length wss = i"
  shows "run_state (prepare_loop srv shadow i rs p) w =
    (case run_state (State_Monad.traverse_list (prepare_each srv shadow) rs) w of (outs, w') \<Rightarrow>
       (\<lparr>prep_jobs = js @ map out_job outs, prep_errors = es @ map out_error outs,
         prep_reasons = qs @ map out_reason outs, prep_warnings = wss @ map out_warnings outs\<rparr>, w'))"
  using assms
proof (induction rs arbitrary: i p js es qs wss w)
  case (Cons r rs)
  show ?case
  proof (cases "bulk_validation srv r")
    case (Some mr)
    obtain m q where mr: "mr = (m, q)" by fastforce
    let ?p = "p\<lparr>prep_errors := (prep_errors p)[i := m], prep_reasons := (prep_reasons p)[i := q]\<rparr>"
    have "run_state (prepare_loop srv shadow (Suc i) rs ?p) w =
      (case run_state (State_Monad.traverse_list (prepare_each srv shadow) rs) w of (outs, w') \<Rightarrow>
       (\<lparr>prep_jobs = (js @ [None]) @ map out_job outs, prep_errors = (es @ [m]) @ map out_error outs,
         prep_reasons = (qs @ [q]) @ map out_reason outs, prep_warnings = (wss @ [[]]) @ map out_warnings outs\<rparr>, w'))"
      using Cons.prems by (intro Cons.IH) (simp_all add: update_at)
    moreover have "run_state (prepare_each srv shadow r) w = (Inl mr, w)" by (simp add: prepare_each_def Some)
    ultimately show ?thesis by (simp add: Some mr split: prod.splits)
  next
    case None
    obtain ws j w1 where pj: "run_state (prepare_job srv shadow r) w = ((ws, j), w1)" by (metis prod.exhaust)
    let ?p = "p\<lparr>prep_warnings := (prep_warnings p)[i := ws], prep_jobs := (prep_jobs p)[i := Some j]\<rparr>"
    have "run_state (prepare_loop srv shadow (Suc i) rs ?p) w1 =
      (case run_state (State_Monad.traverse_list (prepare_each srv shadow) rs) w1 of (outs, w') \<Rightarrow>
       (\<lparr>prep_jobs = (js @ [Some j]) @ map out_job outs, prep_errors = (es @ [[]]) @ map out_error outs,
         prep_reasons = (qs @ [[]]) @ map out_reason outs, prep_warnings = (wss @ [ws]) @ map out_warnings outs\<rparr>, w'))"
      using Cons.prems by (intro Cons.IH) (simp_all add: update_at)
    moreover have "run_state (prepare_each srv shadow r) w = (Inr (ws, j), w1)" by (simp add: prepare_each_def None pj)
    ultimately show ?thesis by (simp add: None pj split: prod.splits)
  qed
qed (cases p, simp)

lemma prepare_each_out:
  assumes "run_state (State_Monad.traverse_list (prepare_each srv shadow) rs) w = (outs, w')"
  shows "list_all2 (\<lambda>r x. case bulk_validation srv r of
      Some mr \<Rightarrow> x = Inl mr | None \<Rightarrow> (\<exists>ws j. x = Inr (ws, j) \<and> job_of srv shadow r j)) rs outs"
proof -
  have "triple (\<lambda>_. True) (prepare_each srv shadow r) (\<lambda>x w. True \<and> (case bulk_validation srv r of
      Some mr \<Rightarrow> x = Inl mr | None \<Rightarrow> (\<exists>ws j. x = Inr (ws, j) \<and> job_of srv shadow r j)))" for r
    by (rule tripleI) (auto simp: prepare_each_def split: option.splits prod.splits dest: prepare_job_of)
  from tripleD [OF traverse_list_inv [OF this] _ assms] show ?thesis by simp
qed


section \<open>The partition\<close>

lemma run_is_future:
  assumes "run_state (is_future srv j) w = (f, w')"
  shows "(\<exists>n. w' = w\<lparr>ticks := n\<rparr>) \<and> (f \<longrightarrow> srv_scheduler srv \<noteq> None)"
proof (cases "srv_scheduler srv \<noteq> None \<and> 0 < sc_ScheduleThreshold (srv_config srv)")
  case True
  then show ?thesis using assms by (auto simp: is_future_def)
next
  case False
  then have "w' = w\<lparr>ticks := ticks w\<rparr>" "\<not> f" using assms by (auto simp: is_future_def split: if_splits)
  then show ?thesis by blast
qed

lemma run_partition_loop:
  assumes "run_state (partition_loop srv i js p) w = (p', w')"
  shows "\<exists>im fu n. w' = w\<lparr>ticks := n\<rparr>
    \<and> p' = \<lparr>immediateJobs = immediateJobs p @ map snd im, immediateIndexes = immediateIndexes p @ map fst im,
        futureJobs = futureJobs p @ map snd fu, futureIndexes = futureIndexes p @ map fst fu\<rparr>
    \<and> distinct (map fst im @ map fst fu)
    \<and> set im \<union> set fu = {(k, j). (k, Some j) \<in> set (List.enumerate i js)}
    \<and> (fu \<noteq> [] \<longrightarrow> srv_scheduler srv \<noteq> None)"
  using assms
proof (induction srv i js p arbitrary: w rule: partition_loop.induct)
  case (1 srv i p)
  then have "w' = w\<lparr>ticks := ticks w\<rparr>" "p' = p" by simp_all
  then show ?case by (intro exI [of _ "[]"] exI [of _ "ticks w"]) (cases p, simp)
next
  case (2 srv i js p)
  then obtain im fu n where "w' = w\<lparr>ticks := n\<rparr>"
    "p' = \<lparr>immediateJobs = immediateJobs p @ map snd im, immediateIndexes = immediateIndexes p @ map fst im,
        futureJobs = futureJobs p @ map snd fu, futureIndexes = futureIndexes p @ map fst fu\<rparr>"
    "distinct (map fst im @ map fst fu)"
    "set im \<union> set fu = {(k, j). (k, Some j) \<in> set (List.enumerate (Suc i) js)}"
    "fu \<noteq> [] \<longrightarrow> srv_scheduler srv \<noteq> None" by force
  then show ?case by (intro exI [of _ im] exI [of _ fu] exI [of _ n]) auto
next
  case (3 srv i j js p)
  obtain f w1 where f: "run_state (is_future srv j) w = (f, w1)" by fastforce
  let ?q = "if f then p\<lparr>futureJobs := futureJobs p @ [j], futureIndexes := futureIndexes p @ [i]\<rparr>
    else p\<lparr>immediateJobs := immediateJobs p @ [j], immediateIndexes := immediateIndexes p @ [i]\<rparr>"
  have "run_state (partition_loop srv (Suc i) js ?q) w1 = (p', w')" using 3(2) f by simp
  from 3(1) [OF this] obtain im fu n where h: "w' = w1\<lparr>ticks := n\<rparr>"
    "p' = \<lparr>immediateJobs = immediateJobs ?q @ map snd im, immediateIndexes = immediateIndexes ?q @ map fst im,
        futureJobs = futureJobs ?q @ map snd fu, futureIndexes = futureIndexes ?q @ map fst fu\<rparr>"
    "distinct (map fst im @ map fst fu)"
    "set im \<union> set fu = {(k, j). (k, Some j) \<in> set (List.enumerate (Suc i) js)}"
    "fu \<noteq> [] \<longrightarrow> srv_scheduler srv \<noteq> None" by blast
  have ge: "k \<noteq> i" if "(k, x) \<in> set im \<union> set fu" for k x
    using that unfolding h(4) by (auto simp: in_set_enumerate_eq)
  have w: "w' = w\<lparr>ticks := n\<rparr>" using run_is_future [OF f] h(1) by auto
  have s: "insert (i, j) (set im \<union> set fu) = {(k, j'). (k, Some j') \<in> set (List.enumerate i (Some j # js))}"
    unfolding h(4) by auto
  have d: "i \<notin> fst ` set im" "i \<notin> fst ` set fu" using ge by fastforce+
  show ?case
  proof (cases f)
    case True
    have "set im \<union> set ((i, j) # fu) = insert (i, j) (set im \<union> set fu)" by auto
    then show ?thesis unfolding s
      by (intro exI [of _ im] exI [of _ "(i, j) # fu"] exI [of _ n])
        (use True h(2,3) d w run_is_future [OF f] in auto)
  next
    case False
    have "set ((i, j) # im) \<union> set fu = insert (i, j) (set im \<union> set fu)" by auto
    then show ?thesis unfolding s
      by (intro exI [of _ "(i, j) # im"] exI [of _ fu] exI [of _ n])
        (use False h(2,3,5) d w in auto)
  qed
qed


section \<open>Filling in the results\<close>

lemma fill_validation_nth:
  "k < length results \<Longrightarrow> fill_validation i msgs reasons results ! k =
     (if i \<le> k \<and> k < i + length msgs \<and> msgs ! (k - i) \<noteq> []
      then (results ! k)\<lparr>bulk_result_Error := msgs ! (k - i), bulk_result_Reason := reasons ! k\<rparr> else results ! k)
   \<and> length (fill_validation i msgs reasons results) = length results"
proof (induction i msgs reasons results rule: fill_validation.induct)
  case (2 i msg msgs reasons results)
  then show ?case
    by (cases "k = i") (auto simp: nth_Cons' nth_list_update Suc_le_eq split: if_splits)
qed auto

lemma length_fill_validation [simp]: "length (fill_validation i msgs reasons results) = length results"
  by (induction i msgs reasons results rule: fill_validation.induct) simp_all

lemma length_fill_results [simp]: "length (fill_results idx is brs results) = length results"
  by (induction idx "is" brs results rule: fill_results.induct) simp_all

lemma fill_results_other: "k \<notin> set is \<Longrightarrow> fill_results idx is brs results ! k = results ! k"
  by (induction idx "is" brs results rule: fill_results.induct) simp_all

lemma fill_results_nth:
  assumes "distinct is" and "idx + length is \<le> length brs" and "\<forall>k \<in> set is. k < length results" and "m < length is"
  shows "fill_results idx is brs results ! (is ! m) = apply_result (brs ! (idx + m)) (results ! (is ! m))"
  using assms
proof (induction idx "is" brs results arbitrary: m rule: fill_results.induct)
  case (2 idx v "is" brs results)
  show ?case
  proof (cases m)
    case 0
    then show ?thesis using 2 by (simp add: fill_results_other)
  next
    case (Suc m')
    have "is ! m' \<noteq> v" using 2 Suc by (auto simp: in_set_conv_nth)
    then show ?thesis using 2 Suc by simp
  qed
qed simp

section \<open>The result of each job of a bulk call\<close>

text \<open>
  What the slot of a request may hold: the rejection of an invalid request, or an answer
  \<open>Q\<close> allows for the job made from it.
\<close>

definition bulk_slot :: "(job \<Rightarrow> enqueue_result \<Rightarrow> bool) \<Rightarrow> 'w server \<Rightarrow> bool \<Rightarrow> nat \<Rightarrow> enqueue_request \<Rightarrow> bulk_result \<Rightarrow> bool" where
  "bulk_slot Q srv shadow i r b \<longleftrightarrow>
     (case bulk_validation srv r of
        Some (msg, reason) \<Rightarrow> b = (fresh_result i r [])\<lparr>bulk_result_Error := msg, bulk_result_Reason := reason\<rparr>
      | None \<Rightarrow> (\<exists>ws j br. job_of srv shadow r j \<and> Q j br \<and> b = apply_result br (fresh_result i r ws)))"

lemma bulk_validation_message: "bulk_validation srv r = Some (m, q) \<Longrightarrow> m \<noteq> []"
  by (auto simp: bulk_validation_def split: if_splits)

lemma filled_slot:
  assumes d: "distinct (map fst im @ map fst fu)"
    and idx: "set im \<union> set fu = {(k, j). (k, Some j) \<in> set (List.enumerate 0 (map out_job outs))}"
    and ir: "list_all2 Q (map snd im) ir" and fr: "list_all2 Q (map snd fu) fr"
    and outs: "list_all2 (\<lambda>r x. case bulk_validation srv r of
      Some mr \<Rightarrow> x = Inl mr | None \<Rightarrow> (\<exists>ws j. x = Inr (ws, j) \<and> job_of srv shadow r j)) reqs outs"
    and i: "i < length reqs"
  defines "base \<equiv> fill_validation 0 (map out_error outs) (map out_reason outs)
      (map (\<lambda>i. fresh_result i (reqs ! i) (map out_warnings outs ! i)) [0..<length reqs])"
  shows "bulk_slot Q srv shadow i (reqs ! i)
    (fill_results 0 (map fst fu) fr (fill_results 0 (map fst im) ir base) ! i)"
proof -
  have len: "length outs = length reqs" using outs by (simp add: list_all2_lengthD)
  have lb: "length base = length reqs" by (simp add: base_def)
  have dom: "\<forall>k \<in> fst ` (set im \<union> set fu). k < length reqs"
    unfolding idx using len by (auto simp: in_set_enumerate_eq)
  then have ki: "\<forall>k \<in> set (map fst im). k < length base"
    and kf: "\<forall>k \<in> set (map fst fu). k < length (fill_results 0 (map fst im) ir base)" by (auto simp: lb)
  have bi: "base ! i = (if out_error (outs ! i) \<noteq> []
      then (fresh_result i (reqs ! i) (out_warnings (outs ! i)))\<lparr>bulk_result_Error := out_error (outs ! i), bulk_result_Reason := out_reason (outs ! i)\<rparr>
      else fresh_result i (reqs ! i) (out_warnings (outs ! i)))"
    unfolding base_def using i len by (subst fill_validation_nth [THEN conjunct1]) simp_all
  show ?thesis
  proof (cases "bulk_validation srv (reqs ! i)")
    case (Some mr)
    obtain m q where mr: "mr = (m, q)" by fastforce
    have x: "outs ! i = Inl (m, q)" using list_all2_nthD [OF outs i] Some mr by simp
    have "i \<notin> fst ` (set im \<union> set fu)" unfolding idx using x len i by (auto simp: in_set_enumerate_eq)
    then have "fill_results 0 (map fst fu) fr (fill_results 0 (map fst im) ir base) ! i = base ! i"
      by (simp add: fill_results_other image_Un)
    then show ?thesis using bi x bulk_validation_message Some mr by (auto simp: bulk_slot_def)
  next
    case None
    obtain ws j where x: "outs ! i = Inr (ws, j)" and j: "job_of srv shadow (reqs ! i) j"
      using list_all2_nthD [OF outs i] None by auto
    have b: "base ! i = fresh_result i (reqs ! i) ws" using bi x by simp
    have "(i, j) \<in> set im \<union> set fu" unfolding idx using x i len by (auto simp: in_set_enumerate_eq)
    then consider (im) "(i, j) \<in> set im" | (fu) "(i, j) \<in> set fu" by blast
    then have "\<exists>br. Q j br \<and> fill_results 0 (map fst fu) fr (fill_results 0 (map fst im) ir base) ! i
        = apply_result br (fresh_result i (reqs ! i) ws)"
    proof cases
      case im
      then obtain k where k: "k < length im" "im ! k = (i, j)" by (auto simp: in_set_conv_nth)
      have "i \<in> fst ` set im" using im by force
      then have "i \<notin> set (map fst fu)" using d by auto
      then have "fill_results 0 (map fst fu) fr (fill_results 0 (map fst im) ir base) ! i
          = fill_results 0 (map fst im) ir base ! (map fst im ! k)" using k by (simp add: fill_results_other)
      also have "\<dots> = apply_result (ir ! (0 + k)) (base ! (map fst im ! k))"
        using d ki k list_all2_lengthD [OF ir] by (intro fill_results_nth) auto
      finally show ?thesis using list_all2_nthD [OF ir, of k] k b by auto
    next
      case fu
      then obtain k where k: "k < length fu" "fu ! k = (i, j)" by (auto simp: in_set_conv_nth)
      have "i \<in> fst ` set fu" using fu by force
      then have n: "i \<notin> set (map fst im)" using d by auto
      have "fill_results 0 (map fst fu) fr (fill_results 0 (map fst im) ir base) ! (map fst fu ! k)
          = apply_result (fr ! (0 + k)) (fill_results 0 (map fst im) ir base ! (map fst fu ! k))"
        using d kf k list_all2_lengthD [OF fr] by (intro fill_results_nth) auto
      then show ?thesis using list_all2_nthD [OF fr, of k] k b n by (auto simp: fill_results_other)
    qed
    with j None show ?thesis by (auto simp: bulk_slot_def)
  qed
qed

section \<open>Steps that only consume the environment\<close>

text \<open>
  Most of a handler reads the clock, draws random bytes and sends metrics. Such a step
  leaves every field of the world that belongs to a component as it was.
\<close>

definition quiet :: "'a env_scheme \<Rightarrow> 'a env_scheme \<Rightarrow> bool" where
  "quiet w w' \<longleftrightarrow> (\<exists>n p c ms. w' = w\<lparr>ticks := n, entropy_pos := p, choice_pos := c, metrics := ms\<rparr>)"

definition quietly :: "('a env_scheme, 'b) state \<Rightarrow> bool" where
  "quietly m \<longleftrightarrow> (\<forall>w. quiet w (snd (run_state m w)))"

lemma quietI: "w' = w\<lparr>ticks := n, entropy_pos := p, choice_pos := c, metrics := ms\<rparr> \<Longrightarrow> quiet w w'"
  unfolding quiet_def by blast

lemma quiet_refl [simp, intro]: "quiet w w"
  by (rule quietI [where n = "ticks w" and p = "entropy_pos w" and c = "choice_pos w" and ms = "metrics w"]) simp

lemma quiet_trans: "quiet u v \<Longrightarrow> quiet v w \<Longrightarrow> quiet u w"
  unfolding quiet_def by (elim exE, hypsubst, simp) blast

lemma quiet_env:
  assumes "quiet w w'"
  shows "clock w' = clock w" and "entropy w' = entropy w" and "choice w' = choice w"
    and "env.more w' = env.more w"
  using assms by (auto simp: quiet_def)

named_theorems quietlyI

lemma quietlyD: "quietly m \<Longrightarrow> run_state m w = (x, w') \<Longrightarrow> quiet w w'"
  by (metis quietly_def snd_conv)

lemma quietly_ret [quietlyI]: "quietly (ret x)"
  by (simp add: quietly_def)

lemma quietly_bind [quietlyI]: "quietly m \<Longrightarrow> (\<And>x. quietly (f x)) \<Longrightarrow> quietly (State_Monad.bind m f)"
  unfolding quietly_def by (auto split: prod.split) (metis quiet_trans snd_conv)

lemma quietly_run:
  assumes "\<And>w. snd (run_state m w) = w\<lparr>ticks := n w, entropy_pos := p w, choice_pos := c w, metrics := ms w\<rparr>"
  shows "quietly m"
  unfolding quietly_def by (intro allI quietI) (rule assms)

lemma quietly_now [quietlyI]: "quietly time_now"
  by (rule quietly_run [where n = "\<lambda>w. Suc (ticks w)" and p = entropy_pos and c = choice_pos and ms = metrics]) simp

lemma quietly_rand [quietlyI]: "quietly (rand_read k)"
  by (rule quietly_run [where n = ticks and p = "\<lambda>w. entropy_pos w + k" and c = choice_pos and ms = metrics]) simp

lemma quietly_emit [quietlyI]: "quietly (emit m)"
  by (rule quietly_run [where n = ticks and p = entropy_pos and c = choice_pos and ms = "\<lambda>w. metrics w @ [m]"]) simp

lemma quietly_times [quietlyI]: "quietly (time_until t)" "quietly (time_since t)"
  unfolding time_until_def time_since_def by (intro quietlyI)+

lemma quietly_if [quietlyI]: "quietly m \<Longrightarrow> quietly m' \<Longrightarrow> quietly (if b then m else m')"
  by simp

lemma quietly_prod [quietlyI]: "(\<And>x y. quietly (f x y)) \<Longrightarrow> quietly (case p of (x, y) \<Rightarrow> f x y)"
  by (cases p) simp

lemma quietly_option [quietlyI]: "quietly m \<Longrightarrow> (\<And>x. quietly (f x)) \<Longrightarrow> quietly (case p of None \<Rightarrow> m | Some x \<Rightarrow> f x)"
  by (cases p) simp_all

lemma quietly_foreach [quietlyI]: "(\<And>x. quietly (f x)) \<Longrightarrow> quietly (foreach xs f)"
  by (induction xs) (simp_all add: quietlyI)

lemma quietly_traverse [quietlyI]: "(\<And>x. quietly (f x)) \<Longrightarrow> quietly (State_Monad.traverse_list f xs)"
  by (induction xs) (simp_all add: quietlyI)

lemma quietly_generate [quietlyI]: "quietly (generate p t)"
  unfolding generate_def Let_def by (intro quietlyI)

text \<open>A store whose lookups change nothing.\<close>

locale quiet_store =
  fixes S :: "'a env_scheme store"
  assumes get_producer_quiet: "quietly (store_GetProducer S i)"
    and get_job_type_quiet: "quietly (store_GetJobType S i n)"

definition quiet_server :: "'a env_scheme server \<Rightarrow> bool" where
  "quiet_server srv \<longleftrightarrow> (\<forall>S. srv_store srv = Some S \<longrightarrow> quiet_store S)"

lemma quietly_check_producer [quietlyI]: "quiet_server srv \<Longrightarrow> quietly (check_producer srv p)"
  unfolding check_producer_def
  by (cases "srv_store srv") (auto simp: quiet_server_def intro!: quietlyI quiet_store.get_producer_quiet)

lemma quietly_routingConfig [quietlyI]: "quiet_server srv \<Longrightarrow> quietly (routingConfig srv p t b)"
  unfolding routingConfig_def getJobTypeConfig_def Let_def
  by (cases "srv_store srv") (auto simp: quiet_server_def split: prod.split intro!: quietlyI quiet_store.get_job_type_quiet)

lemma quietly_prepare_job [quietlyI]: "quiet_server srv \<Longrightarrow> quietly (prepare_job srv shadow r)"
  unfolding prepare_job_def Let_def by (intro quietlyI)

lemma quietly_is_future [quietlyI]: "quietly (is_future srv j)"
  unfolding is_future_def by (intro quietlyI)

lemma quietly_enqueue_done [quietlyI]: "quietly (enqueue_done start r ws j meth)"
  unfolding enqueue_done_def Let_def by (intro quietlyI)

lemma quietly_bulk_metrics [quietlyI]: "quietly (bulk_metrics start n ir fr)"
  unfolding bulk_metrics_def by (intro quietlyI)

section \<open>What a prepared job holds\<close>

definition known_priority :: "priority \<Rightarrow> bool" where
  "known_priority p \<longleftrightarrow> PriorityImmediate \<le> p \<and> p \<le> PriorityLow"

lemma known_priorities [simp]:
  "known_priority PriorityImmediate" "known_priority PriorityHigh" "known_priority PriorityMedium" "known_priority PriorityLow"
  by (simp_all add: known_priority_def priority_defs)

lemma storageQueueToQueuePriority_known [simp]: "known_priority (storageQueueToQueuePriority q)"
  by (simp add: storageQueueToQueuePriority_def)

lemma legacyPayloadPriority_known: "legacyPayloadPriority b = (p, True) \<Longrightarrow> known_priority p"
  by (auto simp: legacyPayloadPriority_def Let_def split: sum.splits if_splits)

definition is_int32 :: "int \<Rightarrow> bool" where
  "is_int32 i \<longleftrightarrow> - (2 ^ 31) \<le> i \<and> i < 2 ^ 31"

lemma is_int32_sint: "is_int32 (sint (n :: int32))"
  using sint_range_size [of n] by (simp add: is_int32_def word_size)

definition routed :: "'w server \<Rightarrow> priority \<Rightarrow> int \<Rightarrow> bool" where
  "routed srv p n \<longleftrightarrow> (p = sc_DefaultQueue (srv_config srv) \<or> known_priority p)
     \<and> (n = sc_DefaultMaxRetries (srv_config srv) \<or> is_int32 n)"

lemma routingConfig_routed: "run_state (routingConfig srv i t b) w = ((p, n, warning), w') \<Longrightarrow> routed srv p n"
proof (cases "sc_LegacyPayloadQueueRouting (srv_config srv) \<and> snd (legacyPayloadPriority b)")
  case True
  assume "run_state (routingConfig srv i t b) w = ((p, n, warning), w')"
  with True have "legacyPayloadPriority b = (p, True)" "n = sc_DefaultMaxRetries (srv_config srv)"
    by (auto simp: routingConfig_def split: prod.splits)
  then show ?thesis by (auto simp: routed_def dest: legacyPayloadPriority_known)
next
  case False
  assume "run_state (routingConfig srv i t b) w = ((p, n, warning), w')"
  with False have "run_state (getJobTypeConfig srv i t) w = ((p, n, warning), w')"
    by (auto simp: routingConfig_def split: prod.splits)
  then show ?thesis
    by (cases "srv_store srv") (auto simp: getJobTypeConfig_def routed_def is_int32_sint split: prod.splits sum.splits)
qed

definition server_job :: "'w server \<Rightarrow> bool \<Rightarrow> (nat \<Rightarrow> instant) \<Rightarrow> enqueue_request \<Rightarrow> job \<Rightarrow> bool" where
  "server_job srv shadow clk r j \<longleftrightarrow> job_of srv shadow r j
     \<and> set (job_ID j) \<subseteq> set base62Alphabet \<union> {CHR ''_''}
     \<and> routed srv (job_Priority j) (job_MaxRetries j)
     \<and> (\<exists>n. job_CreatedAt j = clk n)
     \<and> (enqueue_request_RunAt r = None \<longrightarrow> (\<exists>n. job_RunAt j = clk n))"

lemma prepare_server_job:
  assumes q: "quiet_server srv" and run: "run_state (prepare_job srv shadow r) w = ((ws, j), w')"
  shows "server_job srv shadow (clock w) r j"
proof -
  obtain ws0 w1 where 1: "run_state (check_producer srv (enqueue_request_ProducerId r)) w = (ws0, w1)" by fastforce
  obtain p n warning w2 where 2: "run_state (routingConfig srv (enqueue_request_ProducerId r) (enqueue_request_JobType r)
      (enqueue_request_Payload r)) w1 = ((p, n, warning), w2)" by (metis prod_cases3 surj_pair)
  obtain i w3 where 3: "run_state (generate (enqueue_request_ProducerId r) (enqueue_request_JobType r)) w2 = (i, w3)" by fastforce
  have "clock w3 = clock w"
    using quietlyD [OF quietly_check_producer [OF q] 1] quietlyD [OF quietly_routingConfig [OF q] 2]
      quietlyD [OF quietly_generate 3] by (simp add: quiet_env)
  moreover have "set i \<subseteq> set base62Alphabet \<union> {CHR ''_''}"
    using set_generate [of "enqueue_request_ProducerId r" "enqueue_request_JobType r" w2] 3 by simp
  moreover have "job_ID j = i" "job_Priority j = p" "job_MaxRetries j = n" "job_CreatedAt j = clock w3 (Suc (ticks w3))"
    "enqueue_request_RunAt r = None \<longrightarrow> job_RunAt j = clock w3 (ticks w3)"
    using run 1 2 3 by (auto simp: prepare_job_def Let_def)
  ultimately show ?thesis
    unfolding server_job_def using prepare_job_of [OF run] routingConfig_routed [OF 2] by auto
qed

text \<open>A job without a requested time is due at a reading of the clock before the call is over.\<close>

lemma prepare_due:
  assumes run: "run_state (prepare_job srv shadow r) w = ((ws, j), w')" and "enqueue_request_RunAt r = None"
  shows "\<exists>m < ticks w'. job_RunAt j = clock w' m"
proof -
  obtain ws0 w1 where 1: "run_state (check_producer srv (enqueue_request_ProducerId r)) w = (ws0, w1)" by fastforce
  obtain p n warning w2 where 2: "run_state (routingConfig srv (enqueue_request_ProducerId r) (enqueue_request_JobType r)
      (enqueue_request_Payload r)) w1 = ((p, n, warning), w2)" by (metis prod_cases3 surj_pair)
  obtain i w3 where 3: "run_state (generate (enqueue_request_ProducerId r) (enqueue_request_JobType r)) w2 = (i, w3)" by fastforce
  have "job_RunAt j = clock w3 (ticks w3)" "ticks w' = Suc (Suc (ticks w3))" "clock w' = clock w3"
    using run 1 2 3 assms(2) by (auto simp: prepare_job_def Let_def)
  then show ?thesis by (intro exI [of _ "ticks w3"]) simp
qed

text \<open>The priority and the retries of a prepared job come from its routing.\<close>

lemma prepare_routing:
  assumes q: "quiet_server srv" and run: "run_state (prepare_job srv shadow r) w = ((ws, j), w')"
  shows "\<exists>w1 w2 warning. quiet w w1
    \<and> run_state (routingConfig srv (enqueue_request_ProducerId r) (enqueue_request_JobType r) (enqueue_request_Payload r)) w1
       = ((job_Priority j, job_MaxRetries j, warning), w2)"
proof -
  obtain ws0 w1 where 1: "run_state (check_producer srv (enqueue_request_ProducerId r)) w = (ws0, w1)" by fastforce
  obtain p n warning w2 where 2: "run_state (routingConfig srv (enqueue_request_ProducerId r) (enqueue_request_JobType r)
      (enqueue_request_Payload r)) w1 = ((p, n, warning), w2)" by (metis prod_cases3 surj_pair)
  have "job_Priority j = p" "job_MaxRetries j = n"
    using run 1 2 by (auto simp: prepare_job_def Let_def split: prod.splits)
  with 2 quietlyD [OF quietly_check_producer [OF q] 1] show ?thesis by blast
qed


section \<open>A single call\<close>

definition rejection :: "'w server \<Rightarrow> enqueue_request \<Rightarrow> string option" where
  "rejection srv r =
     (if enqueue_request_ProducerId r = '''' then Some ''producer_id is required''
      else if enqueue_request_JobType r = '''' then Some ''job_type is required''
      else if sc_MaxPayloadSize (srv_config srv) < int (slice_len (enqueue_request_Payload r))
        then Some (''payload exceeds max size ('' @ show_int (sc_MaxPayloadSize (srv_config srv)) @ '' bytes)'')
      else None)"

text \<open>The one call a valid request makes, to the scheduler or to the backend, and the response to its error.\<close>

definition far_ahead :: "'w server \<Rightarrow> job \<Rightarrow> instant \<Rightarrow> bool" where
  "far_ahead srv j now \<longleftrightarrow> srv_scheduler srv \<noteq> None \<and> 0 < sc_ScheduleThreshold (srv_config srv)
     \<and> sc_ScheduleThreshold (srv_config srv) \<le> time_sub (job_RunAt j) now"

definition handed_over :: "'a env_scheme server \<Rightarrow> job \<Rightarrow> bool \<Rightarrow> 'a env_scheme \<Rightarrow> go_error option \<Rightarrow> 'a env_scheme \<Rightarrow> bool" where
  "handed_over srv j future v e v' \<longleftrightarrow> (\<exists>n. future = far_ahead srv j (clock v n))
     \<and> (if future then (\<exists>s. srv_scheduler srv = Some s \<and> run_state (scheduler_Schedule s j) v = (e, v'))
        else run_state (backend_Enqueue (srv_backend srv) j) v = (e, v'))"

definition enqueue_answer :: "enqueue_request \<Rightarrow> string list \<Rightarrow> job \<Rightarrow> bool \<Rightarrow> go_error option \<Rightarrow> rpc_status + enqueue_response" where
  "enqueue_answer r ws j future e =
     (case e of
        None \<Rightarrow> Inr \<lparr>enqueue_response_JobId = job_ID j, enqueue_response_ErrorMessages = ws,
          enqueue_response_CorrelationId = enqueue_request_CorrelationId r\<rparr>
      | Some err \<Rightarrow> Inl (if future then RpcStatus Internal ''failed to schedule future job''
          else if errors_is err ErrQueueUnavailable then RpcStatus Unavailable ''queue temporarily unavailable''
          else RpcStatus Internal ''failed to enqueue job''))"

lemma run_is_future_eq:
  assumes "run_state (is_future srv j) w = (f, w')"
  shows "f = far_ahead srv j (clock w (ticks w)) \<and> clock w' = clock w"
  using assms by (auto simp: is_future_def far_ahead_def split: if_splits)

lemma run_enqueue_done:
  assumes "run_state (enqueue_done start r ws j meth) w = (x, w')"
  shows "x = enqueue_answer r ws j future None \<and> quiet w w'"
  using assms quietlyD [OF quietly_enqueue_done assms]
  by (simp add: enqueue_done_def enqueue_answer_def Let_def)

lemma run_Enqueue_rejected:
  assumes "rejection srv r = Some m" and "run_state (Server_Enqueue srv ctx r) w = (x, w')"
  shows "x = Inl (RpcStatus InvalidArgument m) \<and> quiet w w'"
proof -
  have "w' = snd (run_state time_now w)" "x = Inl (RpcStatus InvalidArgument m)"
    using assms by (auto simp: Server_Enqueue_def rejection_def split: if_splits)
  then show ?thesis using quietly_now unfolding quietly_def by blast
qed

lemma run_Enqueue_accepted:
  assumes q: "quiet_server srv" and ok: "rejection srv r = None" and run: "run_state (Server_Enqueue srv ctx r) w = (x, w')"
  shows "\<exists>j ws future v e v'. server_job srv (shadowFromContext ctx) (clock w) r j
    \<and> (\<exists>u u'. quiet w u \<and> run_state (prepare_job srv (shadowFromContext ctx) r) u = ((ws, j), u')
      \<and> u = w\<lparr>ticks := Suc (ticks w)\<rparr>) \<and> quiet w v
    \<and> handed_over srv j future v e v' \<and> x = enqueue_answer r ws j future e \<and> quiet v' w'
    \<and> (enqueue_request_RunAt r = None \<longrightarrow> (\<exists>m n. m < n \<and> job_RunAt j = clock v m \<and> future = far_ahead srv j (clock v n)))"
proof -
  define w0 where "w0 = w\<lparr>ticks := Suc (ticks w)\<rparr>"
  have q0: "quiet w w0"
    unfolding w0_def by (rule quietI [where p = "entropy_pos w" and c = "choice_pos w" and ms = "metrics w"]) simp
  obtain ws j w1 where p: "run_state (prepare_job srv (shadowFromContext ctx) r) w0 = ((ws, j), w1)" by (metis surj_pair)
  obtain f v where f: "run_state (is_future srv j) w1 = (f, v)" by fastforce
  have qv: "quiet w1 v" by (rule quietlyD [OF quietly_is_future f])
  have fa: "\<exists>n. f = far_ahead srv j (clock v n)" using run_is_future_eq [OF f] by auto
  have due: "enqueue_request_RunAt r = None \<longrightarrow>
      (\<exists>m n. m < n \<and> job_RunAt j = clock v m \<and> f = far_ahead srv j (clock v n))"
    using prepare_due [OF p] run_is_future_eq [OF f] by auto
  have q1: "quiet w v"
    by (rule quiet_trans [OF q0 quiet_trans [OF quietlyD [OF quietly_prepare_job [OF q] p] qv]])
  have job: "server_job srv (shadowFromContext ctx) (clock w) r j"
    using prepare_server_job [OF q p] by (simp add: w0_def)
  have ok': "enqueue_request_ProducerId r \<noteq> []" "enqueue_request_JobType r \<noteq> []"
    "\<not> sc_MaxPayloadSize (srv_config srv) < int (slice_len (enqueue_request_Payload r))"
    using ok by (auto simp: rejection_def split: if_splits)
  have prep: "\<exists>u u'. quiet w u \<and> run_state (prepare_job srv (shadowFromContext ctx) r) u = ((ws, j), u')
      \<and> u = w\<lparr>ticks := Suc (ticks w)\<rparr>"
    using q0 p w0_def by blast
  show ?thesis
  proof (cases f)
    case True
    have due': "enqueue_request_RunAt r = None \<longrightarrow> (\<exists>m n. m < n \<and> job_RunAt j = clock v m \<and> True = far_ahead srv j (clock v n))"
      using due True by simp
    obtain s where s: "srv_scheduler srv = Some s" using fa True by (auto simp: far_ahead_def)
    obtain e v' where e: "run_state (scheduler_Schedule s j) v = (e, v')" by fastforce
    have h: "handed_over srv j True v e v'"
      using fa s e True unfolding handed_over_def by auto
        have "x = enqueue_answer r ws j True e \<and> quiet v' w'"
    proof (cases e)
      case None
      then have "run_state (enqueue_done (clock w (ticks w)) r ws j ''scheduled'') v' = (x, w')"
        using run ok' p f e s True by (simp add: Server_Enqueue_def w0_def Let_def)
      then show ?thesis using None run_enqueue_done by blast
    next
      case (Some err)
      then have "x = enqueue_answer r ws j True e \<and> w' = snd (run_state (emit (Incr ''jack.enqueue.count''
          (enqueue_tags r (job_Priority j) @ [''status:error'', ''method:scheduled'']))) v')"
        using run ok' p f e s True by (auto simp: Server_Enqueue_def enqueue_answer_def w0_def Let_def)
      then show ?thesis using quietly_emit unfolding quietly_def by blast
    qed
    then have x: "x = enqueue_answer r ws j True e" and q2: "quiet v' w'" by blast+
    note all = conjI [OF job conjI [OF prep conjI [OF q1 conjI [OF h conjI [OF x conjI [OF q2 due']]]]]]
    show ?thesis by (intro exI) (rule all)
  next
    case False
    have due': "enqueue_request_RunAt r = None \<longrightarrow> (\<exists>m n. m < n \<and> job_RunAt j = clock v m \<and> False = far_ahead srv j (clock v n))"
      using due False by simp
    obtain e v' where e: "run_state (backend_Enqueue (srv_backend srv) j) v = (e, v')" by fastforce
    have h: "handed_over srv j False v e v'" using e fa False unfolding handed_over_def by auto
        have "x = enqueue_answer r ws j False e \<and> quiet v' w'"
    proof (cases e)
      case None
      then have "run_state (enqueue_done (clock w (ticks w)) r ws j ''immediate'') v' = (x, w')"
        using run ok' p f e False by (cases "srv_scheduler srv") (simp_all add: Server_Enqueue_def w0_def Let_def)
      then show ?thesis using None run_enqueue_done by blast
    next
      case (Some err)
      then have "x = enqueue_answer r ws j False e \<and> w' = snd (run_state (emit (Incr ''jack.enqueue.count''
          (enqueue_tags r (job_Priority j) @ [''status:error'', ''method:immediate'']))) v')"
        using run ok' p f e False
        by (cases "srv_scheduler srv") (auto simp: Server_Enqueue_def enqueue_answer_def w0_def Let_def)
      then show ?thesis using quietly_emit unfolding quietly_def by blast
    qed
    then have x: "x = enqueue_answer r ws j False e" and q2: "quiet v' w'" by blast+
    note all = conjI [OF job conjI [OF prep conjI [OF q1 conjI [OF h conjI [OF x conjI [OF q2 due']]]]]]
    show ?thesis by (intro exI) (rule all)
  qed
qed

section \<open>The stages of a bulk call\<close>

lemma in_set_enumerateE: "(k, x) \<in> set (List.enumerate n xs) \<Longrightarrow> x \<in> set xs"
  by (auto simp: enumerate_eq_zip dest: set_zip_rightD)

lemma bulk_validation_rejection: "bulk_validation srv r = None \<longleftrightarrow> rejection srv r = None"
  by (simp add: bulk_validation_def rejection_def)

lemma partition_quiet: "run_state (partition_loop srv i js p) w = (p', w') \<Longrightarrow> quiet w w'"
proof -
  assume "run_state (partition_loop srv i js p) w = (p', w')"
  from run_partition_loop [OF this] obtain n where "w' = w\<lparr>ticks := n\<rparr>" by blast
  then show "quiet w w'"
    by (intro quietI [where n = n and p = "entropy_pos w" and c = "choice_pos w" and ms = "metrics w"]) simp
qed

text \<open>
  A bulk call prepares every request, parts the jobs, makes at most one call to the backend
  and one to the scheduler, and fills the answers into the slots.
\<close>

lemma run_EnqueueBulk_stages:
  fixes srv :: "'a env_scheme server"
  assumes run: "run_state (Server_EnqueueBulk srv ctx req) w = (r, w')" and ne: "enqueue_bulk_request_Jobs req \<noteq> []"
  defines "reqs \<equiv> enqueue_bulk_request_Jobs req" and "shadow \<equiv> shadowFromContext ctx"
  obtains outs w1 im fu w2 ir w3 fr w4 where
    "run_state (State_Monad.traverse_list (prepare_each srv shadow) reqs) (snd (run_state time_now w)) = (outs, w1)"
    and "quiet w1 w2" and "distinct (map fst im @ map fst fu)"
    and "set im \<union> set fu = {(k, j). (k, Some j) \<in> set (List.enumerate 0 (map out_job outs))}"
    and "fu \<noteq> [] \<longrightarrow> srv_scheduler srv \<noteq> None"
    and "run_state (if map snd im \<noteq> [] then backend_EnqueueBulk (srv_backend srv) (map snd im) else ret []) w2 = (ir, w3)"
    and "run_state (schedule_futures srv (map snd fu)) w3 = (fr, w4)"
    and "r = Inr \<lparr>enqueue_bulk_response_Results =
      fill_results 0 (map fst fu) fr (fill_results 0 (map fst im) ir
        (fill_validation 0 (map out_error outs) (map out_reason outs)
          (map (\<lambda>i. fresh_result i (reqs ! i) (map out_warnings outs ! i)) [0..<length reqs])))\<rparr>"
    and "quiet w4 w'"
proof -
  define w0 where "w0 = snd (run_state time_now w)"
  obtain outs w1 where outs: "run_state (State_Monad.traverse_list (prepare_each srv shadow) reqs) w0 = (outs, w1)" by fastforce
  define prep where "prep = \<lparr>prep_jobs = map out_job outs, prep_errors = map out_error outs,
    prep_reasons = map out_reason outs, prep_warnings = map out_warnings outs\<rparr>"
  have pl: "run_state (prepare_loop srv shadow 0 reqs (fresh_prepared (length reqs))) w0 = (prep, w1)"
    using run_prepare_loop [of "fresh_prepared (length reqs)" "[]" reqs "[]" "[]" "[]" 0 srv shadow w0] outs
    by (simp add: fresh_prepared_def prep_def)
  let ?p0 = "\<lparr>immediateJobs = [], immediateIndexes = [], futureJobs = [], futureIndexes = []\<rparr>"
  obtain parts w2 where pt: "run_state (partition_loop srv 0 (prep_jobs prep) ?p0) w1 = (parts, w2)" by fastforce
  from run_partition_loop [OF pt] obtain im fu where
    parts: "parts = \<lparr>immediateJobs = map snd im, immediateIndexes = map fst im, futureJobs = map snd fu, futureIndexes = map fst fu\<rparr>"
    and d: "distinct (map fst im @ map fst fu)"
    and idx: "set im \<union> set fu = {(k, j). (k, Some j) \<in> set (List.enumerate 0 (map out_job outs))}"
    and sched: "fu \<noteq> [] \<longrightarrow> srv_scheduler srv \<noteq> None"
    by (auto simp: prep_def)
  obtain ir w3 where ir: "run_state (if immediateJobs parts \<noteq> [] then backend_EnqueueBulk (srv_backend srv) (immediateJobs parts)
      else ret []) w2 = (ir, w3)" by fastforce
  obtain fr w4 where fr: "run_state (schedule_futures srv (futureJobs parts)) w3 = (fr, w4)" by fastforce
  let ?base = "fill_validation 0 (map out_error outs) (map out_reason outs)
      (map (\<lambda>i. fresh_result i (reqs ! i) (map out_warnings outs ! i)) [0..<length reqs])"
  have "r = Inr \<lparr>enqueue_bulk_response_Results = bulk_results reqs prep parts ir fr\<rparr>
      \<and> w' = snd (run_state (bulk_metrics (clock w (ticks w)) (length reqs) ir fr) w4)"
    using run ne pl pt ir fr
    by (simp add: Server_EnqueueBulk_def reqs_def [symmetric] shadow_def [symmetric] w0_def Let_def split: prod.splits)
  then have r: "r = Inr \<lparr>enqueue_bulk_response_Results =
      fill_results 0 (map fst fu) fr (fill_results 0 (map fst im) ir ?base)\<rparr>"
    and w': "w' = snd (run_state (bulk_metrics (clock w (ticks w)) (length reqs) ir fr) w4)"
    by (simp_all add: bulk_results_def parts prep_def Let_def)
  have q: "quiet w4 w'" unfolding w' using quietly_bulk_metrics unfolding quietly_def by blast
  show ?thesis
    by (rule that [OF outs [unfolded w0_def] partition_quiet [OF pt] d idx sched
          ir [unfolded parts bulk_parts.simps] fr [unfolded parts bulk_parts.simps] r q])
qed

text \<open>A server whose backend and scheduler answer bulk calls job by job, in every state.\<close>

locale bulk_server =
  fixes srv :: "'a env_scheme server"
  assumes backend_bulk: "bulk_contract (backend_EnqueueBulk (srv_backend srv)) (\<lambda>_. True)"
    and scheduler_bulk: "srv_scheduler srv = Some s \<Longrightarrow> bulk_contract (scheduler_ScheduleBulk s) (\<lambda>_. True)"
begin

lemma run_EnqueueBulk:
  assumes run: "run_state (Server_EnqueueBulk srv ctx req) w = (r, w')" and ne: "enqueue_bulk_request_Jobs req \<noteq> []"
  shows "\<exists>resp. r = Inr resp \<and> length (enqueue_bulk_response_Results resp) = length (enqueue_bulk_request_Jobs req)
    \<and> (\<forall>i < length (enqueue_bulk_request_Jobs req).
        bulk_slot answers srv (shadowFromContext ctx) i (enqueue_bulk_request_Jobs req ! i) (enqueue_bulk_response_Results resp ! i))"
proof (rule run_EnqueueBulk_stages [OF run ne])
  fix outs w1 im fu w2 ir w3 fr w4
  assume outs: "run_state (State_Monad.traverse_list (prepare_each srv (shadowFromContext ctx)) (enqueue_bulk_request_Jobs req))
      (snd (run_state time_now w)) = (outs, w1)"
    and d: "distinct (map fst im @ map fst fu)"
    and idx: "set im \<union> set fu = {(k, j). (k, Some j) \<in> set (List.enumerate 0 (map out_job outs))}"
    and sched: "fu \<noteq> [] \<longrightarrow> srv_scheduler srv \<noteq> None"
    and ir: "run_state (if map snd im \<noteq> [] then backend_EnqueueBulk (srv_backend srv) (map snd im) else ret []) w2 = (ir, w3)"
    and fr: "run_state (schedule_futures srv (map snd fu)) w3 = (fr, w4)"
    and r: "r = Inr \<lparr>enqueue_bulk_response_Results =
      fill_results 0 (map fst fu) fr (fill_results 0 (map fst im) ir
        (fill_validation 0 (map out_error outs) (map out_reason outs)
          (map (\<lambda>i. fresh_result i (enqueue_bulk_request_Jobs req ! i) (map out_warnings outs ! i))
            [0..<length (enqueue_bulk_request_Jobs req)])))\<rparr>"
  have "list_all2 answers (map snd im) ir"
    using ir bulk_contract.bulk_answers [OF backend_bulk] by (auto split: if_splits)
  moreover have "list_all2 answers (map snd fu) fr"
    using fr sched bulk_contract.bulk_answers [OF scheduler_bulk] by (auto simp: schedule_futures_def split: if_splits)
  ultimately show ?thesis
    unfolding r using filled_slot [OF d idx _ _ prepare_each_out [OF outs]] by simp
qed

end

section \<open>Invariants of the world\<close>

text \<open>
  An invariant that the environment steps keep, and that a backend and a scheduler keep
  when they are given jobs with a property \<open>P\<close>, holds after any call of the service, when
  the jobs it prepares have the property.
\<close>

locale invariant_server =
  fixes srv :: "'a env_scheme server" and Inv :: "'a env_scheme \<Rightarrow> bool" and P :: "job \<Rightarrow> bool"
    and R :: "enqueue_request \<Rightarrow> bool"
  assumes quiet_store: "quiet_server srv"
    and inv_quiet: "Inv w \<Longrightarrow> quiet w w' \<Longrightarrow> Inv w'"
    and inv_backend: "Inv w \<Longrightarrow> P j \<Longrightarrow> run_state (backend_Enqueue (srv_backend srv) j) w = (e, w') \<Longrightarrow> Inv w'"
    and inv_backend_bulk: "Inv w \<Longrightarrow> \<forall>j \<in> set js. P j \<Longrightarrow>
      run_state (backend_EnqueueBulk (srv_backend srv) js) w = (rs, w') \<Longrightarrow> Inv w'"
    and inv_scheduler: "srv_scheduler srv = Some s \<Longrightarrow> Inv w \<Longrightarrow> P j \<Longrightarrow>
      run_state (scheduler_Schedule s j) w = (e, w') \<Longrightarrow> Inv w'"
    and inv_scheduler_bulk: "srv_scheduler srv = Some s \<Longrightarrow> Inv w \<Longrightarrow> \<forall>j \<in> set js. P j \<Longrightarrow>
      run_state (scheduler_ScheduleBulk s js) w = (rs, w') \<Longrightarrow> Inv w'"
    and prepared: "Inv w \<Longrightarrow> R r \<Longrightarrow> rejection srv r = None \<Longrightarrow>
      run_state (prepare_job srv shadow r) w = ((ws, j), w') \<Longrightarrow> P j"
begin

lemma enqueue_keeps:
  assumes inv: "Inv w" and r: "R r" and run: "run_state (Server_Enqueue srv ctx r) w = (x, w')"
  shows "Inv w'"
proof (cases "rejection srv r")
  case (Some m)
  then show ?thesis using run_Enqueue_rejected [OF _ run] inv_quiet [OF inv] by blast
next
  case None
  from run_Enqueue_accepted [OF quiet_store None run] show ?thesis
  proof (elim exE conjE)
    fix j ws future v e v' u u'
    assume p: "quiet w u" "run_state (prepare_job srv (shadowFromContext ctx) r) u = ((ws, j), u')"
      and h: "quiet w v" "handed_over srv j future v e v'" "quiet v' w'"
    have "P j" by (rule prepared [OF inv_quiet [OF inv p(1)] r None p(2)])
    moreover have "Inv v" by (rule inv_quiet [OF inv h(1)])
    ultimately have "Inv v'"
    proof (cases future)
      case True
      with h(2) obtain s where "srv_scheduler srv = Some s" "run_state (scheduler_Schedule s j) v = (e, v')"
        by (auto simp: handed_over_def)
      from inv_scheduler [OF this(1) \<open>Inv v\<close> \<open>P j\<close> this(2)] show ?thesis .
    next
      case False
      with h(2) have "run_state (backend_Enqueue (srv_backend srv) j) v = (e, v')" by (simp add: handed_over_def)
      from inv_backend [OF \<open>Inv v\<close> \<open>P j\<close> this] show ?thesis .
    qed
    then show ?thesis using inv_quiet h(3) by blast
  qed
qed

lemma prepare_each_keeps:
  "triple Inv (prepare_each srv shadow r) (\<lambda>x w. Inv w \<and> (R r \<longrightarrow> (\<forall>j. out_job x = Some j \<longrightarrow> P j)))"
proof (rule tripleI)
  fix w x w' assume inv: "Inv w" and run: "run_state (prepare_each srv shadow r) w = (x, w')"
  show "Inv w' \<and> (R r \<longrightarrow> (\<forall>j. out_job x = Some j \<longrightarrow> P j))"
  proof (cases "bulk_validation srv r")
    case (Some mr)
    then show ?thesis using run inv by (auto simp: prepare_each_def)
  next
    case None
    then obtain ws j where p: "run_state (prepare_job srv shadow r) w = ((ws, j), w')" "x = Inr (ws, j)"
      using run by (auto simp: prepare_each_def split: prod.splits)
    have "Inv w'" using inv_quiet [OF inv quietlyD [OF quietly_prepare_job [OF quiet_store] p(1)]] .
    then show ?thesis using prepared [OF inv _ _ p(1)] None p(2) by (auto simp: bulk_validation_rejection)
  qed
qed

lemma enqueue_bulk_keeps:
  assumes inv: "Inv w" and r: "\<forall>r \<in> set (enqueue_bulk_request_Jobs req). R r"
    and run: "run_state (Server_EnqueueBulk srv ctx req) w = (x, w')"
  shows "Inv w'"
proof (cases "enqueue_bulk_request_Jobs req = []")
  case True
  then have "w' = snd (run_state time_now w)" using run by (simp add: Server_EnqueueBulk_def)
  then show ?thesis using inv_quiet [OF inv] quietly_now unfolding quietly_def by blast
next
  case ne: False
  show ?thesis
  proof (rule run_EnqueueBulk_stages [OF run ne])
    fix outs w1 im fu w2 ir w3 fr w4
    assume outs: "run_state (State_Monad.traverse_list (prepare_each srv (shadowFromContext ctx)) (enqueue_bulk_request_Jobs req))
        (snd (run_state time_now w)) = (outs, w1)"
      and q: "quiet w1 w2" "quiet w4 w'"
      and idx: "set im \<union> set fu = {(k, j). (k, Some j) \<in> set (List.enumerate 0 (map out_job outs))}"
      and ir: "run_state (if map snd im \<noteq> [] then backend_EnqueueBulk (srv_backend srv) (map snd im) else ret []) w2 = (ir, w3)"
      and fr: "run_state (schedule_futures srv (map snd fu)) w3 = (fr, w4)"
    have "Inv (snd (run_state time_now w))" using inv_quiet [OF inv] quietly_now unfolding quietly_def by blast
    from tripleD [OF traverse_list_inv [OF prepare_each_keeps] this outs] have inv1: "Inv w1"
      and jobs: "\<forall>j. Some j \<in> set (map out_job outs) \<longrightarrow> P j"
      using r by (auto simp: list_all2_conv_all_nth in_set_conv_nth) (metis nth_mem)
    have P: "P j" if "(k, j) \<in> set im \<union> set fu" for k j
      using that jobs unfolding idx by (blast dest: in_set_enumerateE)
    have inv2: "Inv w2" by (rule inv_quiet [OF inv1 q(1)])
    have "\<forall>j \<in> set (map snd im). P j" using P by (auto; blast)
    from inv_backend_bulk [OF inv2 this] have inv3: "Inv w3" using ir inv2 by (auto split: if_splits)
    have "Inv w4"
    proof (cases "fu = [] \<or> srv_scheduler srv = None")
      case True
      then show ?thesis using fr inv3 by (auto simp: schedule_futures_def split: if_splits)
    next
      case False
      then obtain s where s: "srv_scheduler srv = Some s" by blast
      with False fr have "run_state (scheduler_ScheduleBulk s (map snd fu)) w3 = (fr, w4)"
        by (simp add: schedule_futures_def)
      moreover have "\<forall>j \<in> set (map snd fu). P j" using P by (auto; blast)
      ultimately show ?thesis using inv_scheduler_bulk [OF s inv3] by blast
    qed
    then show ?thesis using inv_quiet q(2) by blast
  qed
qed

end

end
