(* ===== verification/AdminServer.thy ===== *)
theory AdminServer
  imports GcsStore
begin

text \<open>
  internal/api/admin_server.go: the gRPC service that registers producers and job types.
  Its handlers run against the interface \<open>Store\<close>; what they promise follows from the
  store's contract alone.
\<close>


section \<open>The handlers\<close>

record 'w admin_server = admin_store :: "'w store"

definition NewAdminServer :: "'w store \<Rightarrow> 'w admin_server" where
  "NewAdminServer store = \<lparr>admin_store = store\<rparr>"

definition generateProducerID :: "('a env_scheme, string) state" where
  "generateProducerID = do { b \<leftarrow> rand_read 4; ret (''prod_'' @ hex_encode b) }"

definition AdminServer_CreateProducer :: "'a env_scheme admin_server \<Rightarrow> create_producer_request
    \<Rightarrow> ('a env_scheme, rpc_status + create_producer_response) state" where
  "AdminServer_CreateProducer s req =
     (if create_producer_request_Name req = '''' then
        ret (Inl (RpcStatus InvalidArgument ''name is required''))
      else do {
        producerID \<leftarrow> generateProducerID;
        (producer, err) \<leftarrow> store_CreateProducer (admin_store s) \<lparr>
          producer_ProducerId = producerID,
          producer_Name = create_producer_request_Name req,
          producer_Description = create_producer_request_Description req,
          producer_RateLimitRps = 1000,
          producer_CreatedAt = None,
          producer_UpdatedAt = None\<rparr>;
        ret (case err of
            Some e \<Rightarrow> Inl (if errors_is e ErrAlreadyExists then RpcStatus AlreadyExists (error_text e)
              else RpcStatus Internal ''failed to create producer'')
          | None \<Rightarrow> Inr \<lparr>create_producer_response_Producer = producer\<rparr>) })"

definition AdminServer_GetProducer :: "'w admin_server \<Rightarrow> get_producer_request
    \<Rightarrow> ('w, rpc_status + get_producer_response) state" where
  "AdminServer_GetProducer s req =
     (if get_producer_request_ProducerId req = '''' then
        ret (Inl (RpcStatus InvalidArgument ''producer_id is required''))
      else do {
        r \<leftarrow> store_GetProducer (admin_store s) (get_producer_request_ProducerId req);
        ret (case r of
            Inl e \<Rightarrow> Inl (if errors_is e ErrNotFound
                then RpcStatus NotFound (''producer not found: '' @ get_producer_request_ProducerId req)
              else RpcStatus Internal ''failed to get producer'')
          | Inr producer \<Rightarrow> Inr \<lparr>get_producer_response_Producer = producer\<rparr>) })"

definition AdminServer_ListProducers :: "'w admin_server \<Rightarrow> ('w, rpc_status + list_producers_response) state" where
  "AdminServer_ListProducers s = do {
     r \<leftarrow> store_ListProducers (admin_store s);
     ret (case r of
         Inl e \<Rightarrow> Inl (RpcStatus Internal ''failed to list producers'')
       | Inr ps \<Rightarrow> Inr \<lparr>list_producers_response_Producers = ps\<rparr>) }"

definition AdminServer_CreateJobType :: "'w admin_server \<Rightarrow> create_job_type_request
    \<Rightarrow> ('w, rpc_status + create_job_type_response) state" where
  "AdminServer_CreateJobType s req =
     (if create_job_type_request_ProducerId req = '''' then
        ret (Inl (RpcStatus InvalidArgument ''producer_id is required''))
      else if create_job_type_request_Name req = '''' then
        ret (Inl (RpcStatus InvalidArgument ''name is required''))
      else do {
        let maxRetries = create_job_type_request_MaxRetries req;
        let maxRetries = (if sint maxRetries \<le> 0 then 3 else maxRetries);
        (jobType, err) \<leftarrow> store_CreateJobType (admin_store s) \<lparr>
          job_type_ProducerId = create_job_type_request_ProducerId req,
          job_type_Name = create_job_type_request_Name req,
          job_type_Queue = create_job_type_request_Queue req,
          job_type_MaxRetries = maxRetries,
          job_type_Description = create_job_type_request_Description req,
          job_type_CreatedAt = None,
          job_type_UpdatedAt = None\<rparr>;
        ret (case err of
            Some e \<Rightarrow> Inl (if errors_is e ErrAlreadyExists then RpcStatus AlreadyExists (error_text e)
              else if errors_is e ErrNotFound
                then RpcStatus NotFound (''producer not found: '' @ create_job_type_request_ProducerId req)
              else RpcStatus Internal ''failed to create job type'')
          | None \<Rightarrow> Inr \<lparr>create_job_type_response_JobType = jobType\<rparr>) })"

definition AdminServer_ListJobTypes :: "'w admin_server \<Rightarrow> list_job_types_request
    \<Rightarrow> ('w, rpc_status + list_job_types_response) state" where
  "AdminServer_ListJobTypes s req =
     (if list_job_types_request_ProducerId req = '''' then
        ret (Inl (RpcStatus InvalidArgument ''producer_id is required''))
      else do {
        r \<leftarrow> store_ListJobTypes (admin_store s) (list_job_types_request_ProducerId req);
        ret (case r of
            Inl e \<Rightarrow> Inl (RpcStatus Internal ''failed to list job types'')
          | Inr js \<Rightarrow> Inr \<lparr>list_job_types_response_JobTypes = js\<rparr>) })"


section \<open>Identifiers of producers\<close>

definition is_hex :: "char \<Rightarrow> bool" where
  "is_hex c \<longleftrightarrow> c \<in> set ''0123456789abcdef''"

definition producer_id_ok :: "string \<Rightarrow> bool" where
  "producer_id_ok i \<longleftrightarrow> length i = 13 \<and> take 5 i = ''prod_'' \<and> list_all is_hex (drop 5 i)"

definition next_producer_id :: "'a env_scheme \<Rightarrow> string" where
  "next_producer_id w = ''prod_'' @ hex_encode (map (entropy w) [entropy_pos w..<entropy_pos w + 4])"

lemma run_generateProducerID:
  "run_state generateProducerID w = (next_producer_id w, w\<lparr>entropy_pos := entropy_pos w + 4\<rparr>)"
  by (simp add: generateProducerID_def next_producer_id_def)

lemma hex_encode_is_hex: "list_all is_hex (hex_encode bs)"
  unfolding list_all_iff is_hex_def using set_hex_encode [of bs] by (intro ballI) (rule subsetD)

lemma next_producer_id_ok: "producer_id_ok (next_producer_id w)"
  by (simp add: producer_id_ok_def next_producer_id_def hex_encode_is_hex)

lemma not_hex_colon: "\<not> is_hex CHR '':''"
  by (simp add: is_hex_def)

lemma producer_id_ok_colon_free: "producer_id_ok i \<Longrightarrow> colon_free i"
proof -
  assume i: "producer_id_ok i"
  then have "set i = set ''prod_'' \<union> set (drop 5 i)"
    unfolding producer_id_ok_def by (metis append_take_drop_id set_append)
  moreover have "CHR '':'' \<notin> set (drop 5 i)"
    using i not_hex_colon by (auto simp: producer_id_ok_def list_all_iff)
  ultimately show ?thesis by (simp add: colon_free_def)
qed

section \<open>What the handlers promise over any store\<close>

definition new_producer :: "create_producer_request \<Rightarrow> string \<Rightarrow> producer" where
  "new_producer req i = \<lparr>producer_ProducerId = i, producer_Name = create_producer_request_Name req,
     producer_Description = create_producer_request_Description req, producer_RateLimitRps = 1000,
     producer_CreatedAt = None, producer_UpdatedAt = None\<rparr>"

definition effective_retries :: "int32 \<Rightarrow> int32" where
  "effective_retries n = (if sint n \<le> 0 then 3 else n)"

definition new_job_type :: "create_job_type_request \<Rightarrow> job_type" where
  "new_job_type req = \<lparr>job_type_ProducerId = create_job_type_request_ProducerId req,
     job_type_Name = create_job_type_request_Name req, job_type_Queue = create_job_type_request_Queue req,
     job_type_MaxRetries = effective_retries (create_job_type_request_MaxRetries req),
     job_type_Description = create_job_type_request_Description req,
     job_type_CreatedAt = None, job_type_UpdatedAt = None\<rparr>"

lemma effective_retries_pos: "0 < sint (effective_retries n)"
  by (simp add: effective_retries_def)

text \<open>A store whose registries do not depend on the source of random bytes.\<close>

locale admin_service = store_contract S I prods types
  for S :: "'a env_scheme store" and I and prods and types +
  assumes inv_entropy: "I (w\<lparr>entropy_pos := n\<rparr>) = I w"
    and prods_entropy: "prods (w\<lparr>entropy_pos := n\<rparr>) = prods w"
    and types_entropy: "types (w\<lparr>entropy_pos := n\<rparr>) = types w"
begin

lemma create_producer_outcome:
  assumes "I w" and run: "run_state (AdminServer_CreateProducer (NewAdminServer S) req) w = (r, w')"
    and "create_producer_request_Name req \<noteq> []"
  shows "I w' \<and> types w' = types w \<and>
    (case r of
       Inr resp \<Rightarrow> prods w (next_producer_id w) = None
         \<and> (\<exists>t. create_producer_response_Producer resp = stamped_producer (new_producer req (next_producer_id w)) t)
         \<and> prods w' = (prods w)(next_producer_id w \<mapsto> create_producer_response_Producer resp)
     | Inl s \<Rightarrow> prods w' = prods w
         \<and> (if prods w (next_producer_id w) = None then s = RpcStatus Internal ''failed to create producer''
            else rpc_code s = AlreadyExists))"
proof -
  let ?w = "w\<lparr>entropy_pos := entropy_pos w + 4\<rparr>" and ?p = "new_producer req (next_producer_id w)"
  obtain p' e where c: "run_state (store_CreateProducer S ?p) ?w = ((p', e), w')"
    and r: "r = (case e of
        Some e \<Rightarrow> Inl (if errors_is e ErrAlreadyExists then RpcStatus AlreadyExists (error_text e)
          else RpcStatus Internal ''failed to create producer'')
      | None \<Rightarrow> Inr \<lparr>create_producer_response_Producer = p'\<rparr>)"
    using run assms(3) by (auto simp: AdminServer_CreateProducer_def NewAdminServer_def run_generateProducerID
        new_producer_def split: prod.splits)
  have "I ?w" using assms(1) by (simp add: inv_entropy)
  from create_producer [OF this c] show ?thesis
    by (cases e) (auto simp: r new_producer_def prods_entropy types_entropy)
qed

lemma get_producer_outcome:
  assumes "I w" and "get_producer_request_ProducerId req \<noteq> []"
  shows "fst (run_state (AdminServer_GetProducer (NewAdminServer S) req) w) =
    (case prods w (get_producer_request_ProducerId req) of
       Some p \<Rightarrow> Inr \<lparr>get_producer_response_Producer = p\<rparr>
     | None \<Rightarrow> Inl (RpcStatus NotFound (''producer not found: '' @ get_producer_request_ProducerId req)))"
proof -
  obtain x w' where g: "run_state (store_GetProducer S (get_producer_request_ProducerId req)) w = (x, w')" by fastforce
  from get_producer [OF assms(1) g] g assms(2) show ?thesis
    by (auto simp: AdminServer_GetProducer_def NewAdminServer_def split: option.splits)
qed

lemma create_job_type_outcome:
  assumes "I w" and run: "run_state (AdminServer_CreateJobType (NewAdminServer S) req) w = (r, w')"
    and "create_job_type_request_ProducerId req \<noteq> []" and "create_job_type_request_Name req \<noteq> []"
  shows "I w' \<and> prods w' = prods w \<and>
    (case r of
       Inr resp \<Rightarrow> prods w (create_job_type_request_ProducerId req) \<noteq> None \<and> types w (job_type_key (new_job_type req)) = None
         \<and> (\<exists>t. create_job_type_response_JobType resp = stamped_job_type (new_job_type req) t)
         \<and> types w' = (types w)(job_type_key (new_job_type req) \<mapsto> create_job_type_response_JobType resp)
     | Inl s \<Rightarrow> types w' = types w
         \<and> (if prods w (create_job_type_request_ProducerId req) = None
            then s = RpcStatus NotFound (''producer not found: '' @ create_job_type_request_ProducerId req)
            else if types w (job_type_key (new_job_type req)) = None
            then s = RpcStatus Internal ''failed to create job type'' else rpc_code s = AlreadyExists))"
proof -
  obtain j' e where c: "run_state (store_CreateJobType S (new_job_type req)) w = ((j', e), w')"
    and r: "r = (case e of
        Some e \<Rightarrow> Inl (if errors_is e ErrAlreadyExists then RpcStatus AlreadyExists (error_text e)
          else if errors_is e ErrNotFound
            then RpcStatus NotFound (''producer not found: '' @ create_job_type_request_ProducerId req)
          else RpcStatus Internal ''failed to create job type'')
      | None \<Rightarrow> Inr \<lparr>create_job_type_response_JobType = j'\<rparr>)"
    using run assms(3,4) by (auto simp: AdminServer_CreateJobType_def NewAdminServer_def
        new_job_type_def effective_retries_def Let_def split: prod.splits)
  have "job_type_ProducerId (new_job_type req) = create_job_type_request_ProducerId req" by (simp add: new_job_type_def)
  with create_job_type [OF assms(1) c] show ?thesis
    by (cases e) (auto simp: r)
qed

lemma lists_outcome:
  assumes "I w"
  shows "\<exists>ps. fst (run_state (AdminServer_ListProducers (NewAdminServer S)) w) = Inr \<lparr>list_producers_response_Producers = ps\<rparr>
      \<and> set ps = ran (prods w) \<and> distinct (map producer_ProducerId ps)"
    and "list_job_types_request_ProducerId req \<noteq> [] \<Longrightarrow>
      \<exists>js. fst (run_state (AdminServer_ListJobTypes (NewAdminServer S) req) w) = Inr \<lparr>list_job_types_response_JobTypes = js\<rparr>
      \<and> set js = {j \<in> ran (types w). job_type_ProducerId j = list_job_types_request_ProducerId req} \<and> distinct (map job_type_key js)"
proof -
  obtain x w' where "run_state (store_ListProducers S) w = (x, w')" by fastforce
  with list_producers [OF assms this]
  show "\<exists>ps. fst (run_state (AdminServer_ListProducers (NewAdminServer S)) w) = Inr \<lparr>list_producers_response_Producers = ps\<rparr>
      \<and> set ps = ran (prods w) \<and> distinct (map producer_ProducerId ps)"
    by (auto simp: AdminServer_ListProducers_def NewAdminServer_def)
next
  assume i: "list_job_types_request_ProducerId req \<noteq> []"
  obtain x w' where "run_state (store_ListJobTypes S (list_job_types_request_ProducerId req)) w = (x, w')" by fastforce
  with list_job_types [OF assms this] i
  show "\<exists>js. fst (run_state (AdminServer_ListJobTypes (NewAdminServer S) req) w) = Inr \<lparr>list_job_types_response_JobTypes = js\<rparr>
      \<and> set js = {j \<in> ran (types w). job_type_ProducerId j = list_job_types_request_ProducerId req} \<and> distinct (map job_type_key js)"
    by (auto simp: AdminServer_ListJobTypes_def NewAdminServer_def)
qed

end

interpretation mem_admin: admin_service "memory_store pb" store_inv "\<lambda>w. map_of (producers w)" "\<lambda>w. map_of (jobTypes w)"
  by unfold_locales (simp_all add: store_inv_def)

interpretation gcs_admin: admin_service "gcs_store lib gc" "gcs_inv lib" "\<lambda>w. map_of (producers w)" "\<lambda>w. map_of (jobTypes w)"
  by unfold_locales (simp_all add: gcs_inv_def store_inv_def foreign_errors_def clean_faults_def)

section \<open>Properties\<close>

text \<open>
  A producer the admin service reports as created has a well-formed id that was free
  before, the defaults of the service, and is what a query for that id returns from then
  on, on the GCS store and whatever calls to the bucket failed before.
\<close>

lemma admin_created_producer_is_found:
  assumes "gcs_inv lib w"
    and "run_state (AdminServer_CreateProducer (NewAdminServer (gcs_store lib gc)) req) w = (Inr resp, w')"
  shows "(let p = create_producer_response_Producer resp in
    map_of (producers w) (producer_ProducerId p) = None \<and> producer_id_ok (producer_ProducerId p)
    \<and> producer_Name p = create_producer_request_Name req \<and> producer_Name p \<noteq> [] \<and> producer_RateLimitRps p = 1000
    \<and> fst (run_state (AdminServer_GetProducer (NewAdminServer (gcs_store lib gc))
         \<lparr>get_producer_request_ProducerId = producer_ProducerId p\<rparr>) w') = Inr \<lparr>get_producer_response_Producer = p\<rparr>)"
proof -
  have n: "create_producer_request_Name req \<noteq> []"
    using assms(2) by (auto simp: AdminServer_CreateProducer_def)
  from gcs_admin.create_producer_outcome [OF assms n] obtain t where
    inv: "gcs_inv lib w'" and free: "map_of (producers w) (next_producer_id w) = None"
    and p: "create_producer_response_Producer resp = stamped_producer (new_producer req (next_producer_id w)) t"
    and upd: "map_of (producers w') = (map_of (producers w))(next_producer_id w \<mapsto> create_producer_response_Producer resp)"
    by auto
  have "next_producer_id w \<noteq> []" by (simp add: next_producer_id_def)
  then show ?thesis
    using gcs_admin.get_producer_outcome [OF inv, of "\<lparr>get_producer_request_ProducerId = next_producer_id w\<rparr>" gc]
      free upd n next_producer_id_ok [of w] by (simp add: p new_producer_def)
qed

text \<open>
  C29. What registering a job type answers and stores in each case. Without an id or a name it is
  refused; an unknown producer and a taken name are reported as such; else the job type is stored with the
  request's fields, with 3 retries where the request gives none, and that is what is answered;
  unless it cannot be saved, which happens only when the client fails or protojson refuses a message.
\<close>

lemma admin_create_job_type_outcome:
  assumes "gcs_inv lib w"
    and "run_state (AdminServer_CreateJobType (NewAdminServer (gcs_store lib gc)) req) w = (r, w')"
  defines "i \<equiv> create_job_type_request_ProducerId req" and "n \<equiv> create_job_type_request_Name req"
  shows "map_of (producers w') = map_of (producers w) \<and>
    (if i = [] then r = Inl (RpcStatus InvalidArgument ''producer_id is required'') \<and> w' = w
     else if n = [] then r = Inl (RpcStatus InvalidArgument ''name is required'') \<and> w' = w
     else if map_of (producers w) i = None then
       r = Inl (RpcStatus NotFound (''producer not found: '' @ i)) \<and> map_of (jobTypes w') = map_of (jobTypes w)
     else if map_of (jobTypes w) (jobTypeKey i n) \<noteq> None then
       (\<exists>t. r = Inl (RpcStatus AlreadyExists t)) \<and> map_of (jobTypes w') = map_of (jobTypes w)
     else
       (\<exists>t j. j = \<lparr>job_type_ProducerId = i, job_type_Name = n, job_type_Queue = create_job_type_request_Queue req,
             job_type_MaxRetries = (if sint (create_job_type_request_MaxRetries req) \<le> 0 then 3 else create_job_type_request_MaxRetries req),
             job_type_Description = create_job_type_request_Description req,
             job_type_CreatedAt = Some t, job_type_UpdatedAt = Some t\<rparr>
          \<and> r = Inr \<lparr>create_job_type_response_JobType = j\<rparr>
          \<and> map_of (jobTypes w') = (map_of (jobTypes w))(jobTypeKey i n \<mapsto> j))
       \<or> r = Inl (RpcStatus Internal ''failed to create job type'') \<and> map_of (jobTypes w') = map_of (jobTypes w)
         \<and> \<not> (no_faults w \<and> marshals lib \<and> encodable_world lib w
              \<and> valid_utf8 i \<and> valid_utf8 n \<and> valid_utf8 (create_job_type_request_Description req)))"
proof (cases "i = [] \<or> n = []")
  case True
  then show ?thesis using assms(2) by (auto simp: AdminServer_CreateJobType_def i_def n_def)
next
  case False
  then have ne: "create_job_type_request_ProducerId req \<noteq> []" "create_job_type_request_Name req \<noteq> []" by (simp_all add: i_def n_def)
  have key: "job_type_key (new_job_type req) = jobTypeKey i n" by (simp add: job_type_key_def new_job_type_def i_def n_def)
  have new: "stamped_job_type (new_job_type req) t = \<lparr>job_type_ProducerId = i, job_type_Name = n,
      job_type_Queue = create_job_type_request_Queue req,
      job_type_MaxRetries = (if sint (create_job_type_request_MaxRetries req) \<le> 0 then 3 else create_job_type_request_MaxRetries req),
      job_type_Description = create_job_type_request_Description req, job_type_CreatedAt = Some t, job_type_UpdatedAt = Some t\<rparr>" for t
    by (simp add: stamped_job_type_def new_job_type_def effective_retries_def i_def n_def)
  note out = gcs_admin.create_job_type_outcome [OF assms(1,2) ne, folded i_def, unfolded key]
  have saves: "\<exists>resp. r = Inr resp" if known: "map_of (producers w) i \<noteq> None" and free: "map_of (jobTypes w) (jobTypeKey i n) = None"
    and enc: "no_faults w" "marshals lib" "encodable_world lib w"
      "valid_utf8 i" "valid_utf8 n" "valid_utf8 (create_job_type_request_Description req)"
  proof -
    obtain j' e v where g: "run_state (GCSStore_CreateJobType lib gc (new_job_type req)) w = ((j', e), v)" by (metis prod.exhaust)
    have "job_type_ok (new_job_type req)" using enc(4-6) by (simp add: job_type_ok_def new_job_type_def i_def n_def)
    moreover have "job_type_ProducerId (new_job_type req) = i" by (simp add: new_job_type_def i_def)
    ultimately have "e = None" using known free by (intro GCSStore_CreateJobType_succeeds [OF enc(1-3) _ _ _ g]) (simp_all add: key)
    then show ?thesis using assms(2) g ne
      by (auto simp: AdminServer_CreateJobType_def NewAdminServer_def gcs_store_def new_job_type_def effective_retries_def Let_def)
  qed
  show ?thesis
  proof (cases r)
    case (Inr resp)
    then obtain t where t: "create_job_type_response_JobType resp = stamped_job_type (new_job_type req) t" using out by auto
    have "resp = \<lparr>create_job_type_response_JobType = stamped_job_type (new_job_type req) t\<rparr>" unfolding t [symmetric] by simp
    then show ?thesis using out False unfolding Inr new by (simp add: new)
  next
    case (Inl s)
    then show ?thesis using out False saves by (cases s) (auto split: if_splits)
  qed
qed

section \<open>Witnesses\<close>

definition sample_create_producer :: create_producer_request where
  "sample_create_producer = \<lparr>create_producer_request_Name = ''billing'', create_producer_request_Description = []\<rparr>"

lemma sample_total_inv: "gcs_inv sample_total_lib (sample_gcs_world (\<lambda>_. None))"
  by (simp add: gcs_inv_def sample_world_facts(1) foreign_errors_def sample_total_lib_def) (simp add: sample_gcs_world_def)

lemma sample_admin_run:
  "\<exists>resp w'. run_state (AdminServer_CreateProducer (NewAdminServer (gcs_store sample_total_lib sample_gc)) sample_create_producer)
     (sample_gcs_world (\<lambda>_. None)) = (Inr resp, w')"
  by (simp add: AdminServer_CreateProducer_def NewAdminServer_def run_generateProducerID sample_create_producer_def
      sample_total_lib_def sample_defs Let_def)

lemma admin_created_producer_is_found_witness:
  "\<exists>p (w' :: gcs_world). producer_Name p = ''billing'' \<and> producer_id_ok (producer_ProducerId p)
     \<and> fst (run_state (AdminServer_GetProducer (NewAdminServer (gcs_store sample_total_lib sample_gc))
         \<lparr>get_producer_request_ProducerId = producer_ProducerId p\<rparr>) w') = Inr \<lparr>get_producer_response_Producer = p\<rparr>"
proof -
  obtain resp w' where r: "run_state (AdminServer_CreateProducer (NewAdminServer (gcs_store sample_total_lib sample_gc)) sample_create_producer)
     (sample_gcs_world (\<lambda>_. None)) = (Inr resp, w')" using sample_admin_run by blast
  let ?p = "create_producer_response_Producer resp"
  have "producer_Name ?p = ''billing'' \<and> producer_id_ok (producer_ProducerId ?p)
     \<and> fst (run_state (AdminServer_GetProducer (NewAdminServer (gcs_store sample_total_lib sample_gc))
         \<lparr>get_producer_request_ProducerId = producer_ProducerId ?p\<rparr>) w') = Inr \<lparr>get_producer_response_Producer = ?p\<rparr>"
    using admin_created_producer_is_found [OF sample_total_inv r] by (simp add: Let_def sample_create_producer_def)
  then show ?thesis by blast
qed

definition sample_create_job_type :: create_job_type_request where
  "sample_create_job_type = \<lparr>create_job_type_request_ProducerId = ''prod_1'', create_job_type_request_Name = ''mail'',
     create_job_type_request_Queue = Queue_QUEUE_HIGH, create_job_type_request_MaxRetries = 0,
     create_job_type_request_Description = []\<rparr>"

lemma admin_create_job_type_outcome_witness:
  "fst (run_state (AdminServer_CreateJobType (NewAdminServer (gcs_store sample_total_lib sample_gc)) sample_create_job_type)
     (sample_gcs_world (\<lambda>_. None))) = Inl (RpcStatus NotFound ''producer not found: prod_1'')"
  using admin_create_job_type_outcome [OF sample_total_inv prod.collapse [symmetric], of sample_gc sample_create_job_type]
  by (simp add: sample_create_job_type_def sample_gcs_world_def)

end
