(* ===== verification/Callback.thy ===== *)
theory Callback
  imports Scheduler
begin

text \<open>
  internal/api/callback.go: the HTTP handler Cloud Tasks calls at a job's run time. It
  decodes the task's body, sets the run time to now and enqueues the job.
\<close>

record 'w callback_handler = callback_backend :: "'w backend"

definition NewCallbackHandler :: "'w backend \<Rightarrow> 'w callback_handler" where
  "NewCallbackHandler backend = \<lparr>callback_backend = backend\<rparr>"

record http_response =
  http_status :: nat
  http_body :: string

definition http_error :: "string \<Rightarrow> nat \<Rightarrow> http_response" where
  "http_error text code = \<lparr>http_status = code, http_body = text @ ''\<newline>''\<rparr>"

text \<open>The route of the mux: method and path.\<close>

definition callback_method :: string where "callback_method = ''POST''"
definition callback_path :: string where "callback_path = ''/internal/callback/enqueue''"

text \<open>Reading the request's body may fail.\<close>

definition handleEnqueueCallback :: "'a env_scheme callback_handler \<Rightarrow> go_error + bytes
    \<Rightarrow> ('a env_scheme, http_response) state" where
  "handleEnqueueCallback h request_body = do {
     start \<leftarrow> time_now;
     case request_body of
       Inl e \<Rightarrow> do {
         emit (Incr ''jack.callback.count'' [''status:error'', ''reason:read_body'']);
         ret (http_error ''failed to read body'' 400) }
     | Inr body \<Rightarrow>
         (case UnmarshalJob body of
            Inl e \<Rightarrow> do {
              emit (Incr ''jack.callback.count'' [''status:error'', ''reason:unmarshal'']);
              ret (http_error ''failed to parse job'' 400) }
          | Inr j \<Rightarrow> do {
              now \<leftarrow> time_now;
              let j = j\<lparr>job_RunAt := now\<rparr>;
              err \<leftarrow> backend_Enqueue (callback_backend h) j;
              case err of
                Some e \<Rightarrow> do {
                  emit (Incr ''jack.callback.count'' [''status:error'', ''reason:enqueue'']);
                  ret (http_error ''failed to enqueue job'' 500) }
              | None \<Rightarrow> do {
                  emit (Incr ''jack.callback.count'' [''status:success'']);
                  d \<leftarrow> time_since start;
                  emit (DistSeconds ''jack.callback.duration'' d []);
                  ret \<lparr>http_status = 200, http_body = ''''\<rparr> } }) }"

text \<open>The status decides what Cloud Tasks does next: it tries again after any but 2xx.\<close>

lemma run_handleEnqueueCallback:
  assumes "run_state (handleEnqueueCallback h (Inr body)) w = (resp, w')" and "UnmarshalJob body = Inr j"
  defines "w1 \<equiv> w\<lparr>ticks := ticks w + 2\<rparr>"
  shows "\<exists>e w2. run_state (backend_Enqueue (callback_backend h) (j\<lparr>job_RunAt := clock w (Suc (ticks w))\<rparr>)) w1 = (e, w2)
    \<and> (\<exists>n ms. w' = w2\<lparr>ticks := n, metrics := ms\<rparr>)
    \<and> http_status resp = (if e = None then 200 else 500)"
proof -
  obtain e w2 where b: "run_state (backend_Enqueue (callback_backend h) (j\<lparr>job_RunAt := clock w (Suc (ticks w))\<rparr>)) w1 = (e, w2)"
    by fastforce
  have "\<exists>n ms. w' = w2\<lparr>ticks := n, metrics := ms\<rparr> \<and> http_status resp = (if e = None then 200 else 500)"
  proof (cases e)
    case None
    have "w' = w2\<lparr>ticks := Suc (ticks w2), metrics := metrics w'\<rparr>" "http_status resp = 200"
      using assms(1,2) b None by (auto simp: handleEnqueueCallback_def w1_def Let_def numeral_2_eq_2)
    then show ?thesis using None by fastforce
  next
    case (Some err)
    have "w' = w2\<lparr>ticks := ticks w2, metrics := metrics w'\<rparr>" "http_status resp = 500"
      using assms(1,2) b Some by (auto simp: handleEnqueueCallback_def w1_def Let_def http_error_def numeral_2_eq_2)
    then show ?thesis using Some by fastforce
  qed
  with b show ?thesis by blast
qed

end
