(* ===== verification/Config.thy ===== *)
theory Config
  imports GoBase
begin

text \<open>
  internal/cenv/cenv.go and internal/config/config.go: the environment variables and the
  configuration read from them, with the parsers of the standard library they go through
  (\<open>strings.TrimSpace\<close>, \<open>strconv.Atoi\<close>, \<open>strconv.ParseBool\<close>, \<open>time.ParseDuration\<close>).
\<close>


section \<open>Parsers of the standard library\<close>

text \<open>The UTF-8 encodings of the white space of \<open>unicode.IsSpace\<close>.\<close>

definition spaces :: "string list" where
  "spaces =
    [[CHR 0x09], [CHR 0x0A], [CHR 0x0B], [CHR 0x0C], [CHR 0x0D], [CHR 0x20],
     [CHR 0xC2, CHR 0x85], [CHR 0xC2, CHR 0xA0], [CHR 0xE1, CHR 0x9A, CHR 0x80], [CHR 0xE2, CHR 0x81, CHR 0x9F], [CHR 0xE3, CHR 0x80, CHR 0x80]]
     @ map (\<lambda>c. [CHR 0xE2, CHR 0x80, c])
         [CHR 0x80, CHR 0x81, CHR 0x82, CHR 0x83, CHR 0x84, CHR 0x85, 
          CHR 0x86, CHR 0x87, CHR 0x88, CHR 0x89, CHR 0x8A, CHR 0xA8, CHR 0xA9, CHR 0xAF]"

definition starts_with :: "string \<Rightarrow> string \<Rightarrow> bool" where
  "starts_with p s \<longleftrightarrow> take (length p) s = p"

function trim_left :: "string list \<Rightarrow> string \<Rightarrow> string" where
  "trim_left ws s =
     (case find (\<lambda>p. p \<noteq> [] \<and> starts_with p s) ws of
        None \<Rightarrow> s | Some p \<Rightarrow> trim_left ws (drop (length p) s))"
  by pat_completeness auto
termination
proof (relation "measure (\<lambda>(ws, s). length s)")
  fix ws :: "string list" and s p
  assume "find (\<lambda>p. p \<noteq> [] \<and> starts_with p s) ws = Some p"
  then have "p \<noteq> []" "take (length p) s = p" by (auto simp: find_Some_iff starts_with_def)
  then show "((ws, drop (length p) s), (ws, s)) \<in> measure (\<lambda>(ws, s). length s)" by (cases s) auto
qed simp

declare trim_left.simps [simp del]

definition TrimSpace :: "string \<Rightarrow> string" where
  "TrimSpace s = rev (trim_left (map rev spaces) (rev (trim_left spaces s)))"

definition read_int :: "string \<Rightarrow> int" where
  "read_int s = foldl (\<lambda>n c. 10 * n + int (digit_val c)) 0 s"

lemma read_int_nat: "read_int s = int (read_nat s)"
proof -
  have "foldl (\<lambda>n c. 10 * n + int (digit_val c)) (int k) s = int (foldl (\<lambda>n c. 10 * n + digit_val c) k s)" for k
  proof (induction s arbitrary: k)
    case (Cons c s)
    from Cons [of "10 * k + digit_val c"] show ?case by simp
  qed simp
  from this [of 0] show ?thesis by (simp add: read_int_def read_nat_def)
qed

definition clamp_int64 :: "int \<Rightarrow> int" where
  "clamp_int64 i = max (- (2 ^ 63)) (min (2 ^ 63 - 1) i)"

text \<open>The value and whether there was no error: a number out of range is clamped.\<close>

definition Atoi :: "string \<Rightarrow> int \<times> bool" where
  "Atoi s =
     (let neg = (case s of c # _ \<Rightarrow> c = CHR ''-'' | [] \<Rightarrow> False);
          digits = (case s of c # cs \<Rightarrow> if c = CHR ''-'' \<or> c = CHR ''+'' then cs else s | [] \<Rightarrow> s);
          i = (if neg then - read_int digits else read_int digits)
      in if digits = [] \<or> \<not> list_all is_digit digits then (0, False) else (clamp_int64 i, clamp_int64 i = i))"

definition ParseBool :: "string \<Rightarrow> bool option" where
  "ParseBool s =
     (if s \<in> set [''1'', ''t'', ''T'', ''TRUE'', ''true'', ''True''] then Some True
      else if s \<in> set [''0'', ''f'', ''F'', ''FALSE'', ''false'', ''False''] then Some False
      else None)"

text \<open>
  \<open>time.ParseDuration\<close>: numbers with units, added up in 64 unsigned bits with checks
  against \<open>2 ^ 63\<close>. A fraction is scaled in floating point, which is a parameter here:
  \<open>frac f k unit\<close> is the number of nanoseconds of the fraction with the digits \<open>f\<close>, of
  which there are \<open>k\<close>, in the unit.
\<close>

type_synonym fraction = "int \<Rightarrow> nat \<Rightarrow> int \<Rightarrow> int"

definition duration_limit :: int where "duration_limit = 2 ^ 63"

fun leadingInt :: "int \<Rightarrow> string \<Rightarrow> (int \<times> string) option" where
  "leadingInt x [] = Some (x, [])"
| "leadingInt x (c # cs) =
     (if \<not> is_digit c then Some (x, c # cs)
      else if duration_limit div 10 < x then None
      else let y = 10 * x + int (digit_val c)
           in if duration_limit < y then None else leadingInt y cs)"

fun leadingFraction :: "bool \<Rightarrow> int \<Rightarrow> nat \<Rightarrow> string \<Rightarrow> int \<times> nat \<times> string" where
  "leadingFraction over x k [] = (x, k, [])"
| "leadingFraction over x k (c # cs) =
     (if \<not> is_digit c then (x, k, c # cs)
      else if over \<or> (duration_limit - 1) div 10 < x then leadingFraction True x k cs
      else let y = 10 * x + int (digit_val c)
           in if duration_limit < y then leadingFraction True x k cs else leadingFraction False y (Suc k) cs)"

definition unit_of :: "string \<Rightarrow> int option" where
  "unit_of u = map_of
     [(''ns'', 1), (''us'', 1000), (string_of_bytes [0xC2, 0xB5] @ ''s'', 1000), (string_of_bytes [0xCE, 0xBC] @ ''s'', 1000),
      (''ms'', 1000000), (''s'', 1000000000), (''m'', 60000000000), (''h'', 3600000000000)] u"

definition unit_char :: "char \<Rightarrow> bool" where
  "unit_char c \<longleftrightarrow> c \<noteq> CHR ''.'' \<and> \<not> is_digit c"

text \<open>One number with its unit: the nanoseconds and what follows.\<close>

definition parse_segment :: "fraction \<Rightarrow> string \<Rightarrow> (int \<times> string) option" where
  "parse_segment frac s =
     (if s = [] \<or> unit_char (hd s) then None
      else case leadingInt 0 s of None \<Rightarrow> None
        | Some (v, s1) \<Rightarrow>
          (let pre = (length s1 \<noteq> length s);
               (f, k, s2) = (case s1 of c # cs \<Rightarrow> if c = CHR ''.'' then leadingFraction False 0 0 cs else (0, 0, s1) | [] \<Rightarrow> (0, 0, s1));
               post = (case s1 of c # cs \<Rightarrow> c = CHR ''.'' \<and> length s2 \<noteq> length cs | [] \<Rightarrow> False);
               u = takeWhile unit_char s2
           in if (\<not> pre \<and> \<not> post) \<or> u = [] then None
              else case unit_of u of None \<Rightarrow> None
                | Some unit \<Rightarrow>
                  if duration_limit div unit < v then None
                  else let v = v * unit + (if 0 < f then frac f k unit else 0)
                       in if duration_limit < v then None else Some (v, dropWhile unit_char s2)))"

lemma leadingInt_length: "leadingInt x s = Some (y, t) \<Longrightarrow> length t \<le> length s"
  by (induction x s rule: leadingInt.induct) (auto simp: Let_def split: if_splits)

lemma leadingFraction_length: "leadingFraction b x k s = (y, n, t) \<Longrightarrow> length t \<le> length s"
  by (induction b x k s rule: leadingFraction.induct) (auto simp: Let_def split: if_splits)

lemma takeWhile_shorter: "takeWhile P xs \<noteq> [] \<Longrightarrow> length (dropWhile P xs) < length xs"
  by (cases xs) (auto simp: length_dropWhile_le le_imp_less_Suc split: if_splits)

lemma parse_segment_shorter:
  assumes "parse_segment frac s = Some (v, t)"
  shows "length t < length s"
proof -
  obtain x s1 where 1: "leadingInt 0 s = Some (x, s1)"
    using assms by (auto simp: parse_segment_def split: if_splits option.splits)
  obtain f k s2 where 2: "(case s1 of c # cs \<Rightarrow> if c = CHR ''.'' then leadingFraction False 0 0 cs else (0, 0, s1)
      | [] \<Rightarrow> (0, 0, s1)) = (f, k, s2)" by (metis prod_cases3)
  have "length s2 \<le> length s1"
    using 2 by (auto split: list.splits if_splits dest: leadingFraction_length)
  moreover have "t = dropWhile unit_char s2" "takeWhile unit_char s2 \<noteq> []"
    using assms 1 2 by (auto simp: parse_segment_def Let_def split: if_splits option.splits)
  ultimately show ?thesis using leadingInt_length [OF 1] takeWhile_shorter [of unit_char s2] by simp
qed

function parse_segments :: "fraction \<Rightarrow> int \<Rightarrow> string \<Rightarrow> int option" where
  "parse_segments frac d s =
     (if s = [] then Some d
      else case parse_segment frac s of None \<Rightarrow> None
        | Some (v, t) \<Rightarrow> if duration_limit < d + v then None else parse_segments frac (d + v) t)"
  by pat_completeness auto
termination
  by (relation "measure (\<lambda>(frac, d, s). length s)") (auto dest: parse_segment_shorter)

declare parse_segments.simps [simp del]

definition ParseDuration :: "fraction \<Rightarrow> string \<Rightarrow> duration option" where
  "ParseDuration frac s =
     (let neg = (case s of c # _ \<Rightarrow> c = CHR ''-'' | [] \<Rightarrow> False);
          s = (case s of c # cs \<Rightarrow> if c = CHR ''-'' \<or> c = CHR ''+'' then cs else s | [] \<Rightarrow> s)
      in if s = ''0'' then Some 0
         else if s = '''' then None
         else case parse_segments frac 0 s of None \<Rightarrow> None
           | Some d \<Rightarrow> if neg then Some (- d)
               else if duration_limit - 1 < d then None else Some d)"


section \<open>Environment variables\<close>

type_synonym environment = "string \<Rightarrow> string"

definition cenv_CommitSHA :: string where "cenv_CommitSHA = ''COMMIT_SHA''"
definition cenv_GRPCPort :: string where "cenv_GRPCPort = ''GRPC_PORT''"
definition cenv_GCSBucket :: string where "cenv_GCSBucket = ''GCS_BUCKET''"
definition cenv_GCSPrefix :: string where "cenv_GCSPrefix = ''GCS_PREFIX''"
definition cenv_QueueBackend :: string where "cenv_QueueBackend = ''QUEUE_BACKEND''"
definition cenv_DatadogStatsdAddr :: string where "cenv_DatadogStatsdAddr = ''DATADOG_STATSD_ADDR''"
definition cenv_PubSubProject :: string where "cenv_PubSubProject = ''PUBSUB_PROJECT''"
definition cenv_PubSubTopicHigh :: string where "cenv_PubSubTopicHigh = ''PUBSUB_TOPIC_HIGH''"
definition cenv_PubSubTopicMedium :: string where "cenv_PubSubTopicMedium = ''PUBSUB_TOPIC_MEDIUM''"
definition cenv_PubSubTopicLow :: string where "cenv_PubSubTopicLow = ''PUBSUB_TOPIC_LOW''"
definition cenv_PubSubTopicImmediate :: string where "cenv_PubSubTopicImmediate = ''PUBSUB_TOPIC_IMMEDIATE''"
definition cenv_CloudTasksProject :: string where "cenv_CloudTasksProject = ''CLOUD_TASKS_PROJECT''"
definition cenv_CloudTasksLocation :: string where "cenv_CloudTasksLocation = ''CLOUD_TASKS_LOCATION''"
definition cenv_CloudTasksQueue :: string where "cenv_CloudTasksQueue = ''CLOUD_TASKS_QUEUE''"
definition cenv_CallbackBaseURL :: string where "cenv_CallbackBaseURL = ''CALLBACK_BASE_URL''"
definition cenv_CloudTasksServiceAccount :: string where "cenv_CloudTasksServiceAccount = ''CLOUD_TASKS_SERVICE_ACCOUNT''"
definition cenv_ScheduleThreshold :: string where "cenv_ScheduleThreshold = ''SCHEDULE_THRESHOLD''"
definition cenv_LegacyPayloadQueueRouting :: string where
  "cenv_LegacyPayloadQueueRouting = ''LEGACY_PAYLOAD_QUEUE_ROUTING''"

definition cenv_Get :: "environment \<Rightarrow> string \<Rightarrow> string" where
  "cenv_Get getenv key = TrimSpace (getenv key)"

definition cenv_GetOrDefault :: "environment \<Rightarrow> string \<Rightarrow> string \<Rightarrow> string" where
  "cenv_GetOrDefault getenv key dflt = (let v = cenv_Get getenv key in if v = '''' then dflt else v)"

definition cenv_GetInt :: "environment \<Rightarrow> string \<Rightarrow> int" where
  "cenv_GetInt getenv key = fst (Atoi (cenv_Get getenv key))"

definition cenv_GetIntOrDefault :: "environment \<Rightarrow> string \<Rightarrow> int \<Rightarrow> int" where
  "cenv_GetIntOrDefault getenv key dflt = (let (v, ok) = Atoi (cenv_Get getenv key) in if \<not> ok then dflt else v)"

text \<open>The value \<open>ParseBool\<close> returns with an error is false.\<close>

definition cenv_GetBool :: "environment \<Rightarrow> string \<Rightarrow> bool" where
  "cenv_GetBool getenv key = (case ParseBool (cenv_Get getenv key) of None \<Rightarrow> False | Some v \<Rightarrow> v)"

definition cenv_GetBoolOrDefault :: "environment \<Rightarrow> string \<Rightarrow> bool \<Rightarrow> bool" where
  "cenv_GetBoolOrDefault getenv key dflt = (case ParseBool (cenv_Get getenv key) of None \<Rightarrow> dflt | Some v \<Rightarrow> v)"

text \<open>The value \<open>ParseDuration\<close> returns with an error is zero.\<close>

definition cenv_GetDuration :: "fraction \<Rightarrow> environment \<Rightarrow> string \<Rightarrow> duration" where
  "cenv_GetDuration frac getenv key = (case ParseDuration frac (cenv_Get getenv key) of None \<Rightarrow> 0 | Some v \<Rightarrow> v)"

definition cenv_GetDurationOrDefault :: "fraction \<Rightarrow> environment \<Rightarrow> string \<Rightarrow> duration \<Rightarrow> duration" where
  "cenv_GetDurationOrDefault frac getenv key dflt =
     (case ParseDuration frac (cenv_Get getenv key) of None \<Rightarrow> dflt | Some v \<Rightarrow> v)"

definition cenv_IsSet :: "environment \<Rightarrow> string \<Rightarrow> bool" where
  "cenv_IsSet getenv key \<longleftrightarrow> cenv_Get getenv key \<noteq> ''''"


section \<open>The configuration\<close>

record config =
  GRPCPort :: int
  DatadogStatsdAddr :: string
  GCSBucket :: string
  GCSPrefix :: string
  QueueBackend :: string
  PubSubProject :: string
  PubSubTopicHigh :: string
  PubSubTopicMedium :: string
  PubSubTopicLow :: string
  PubSubTopicImmediate :: string
  CloudTasksProject :: string
  CloudTasksLocation :: string
  CloudTasksQueue :: string
  CallbackBaseURL :: string
  CloudTasksServiceAccount :: string
  ScheduleThreshold :: duration
  LegacyPayloadQueueRouting :: bool

text \<open>Loading never fails; the error in the code's signature is always nil.\<close>

definition Load :: "fraction \<Rightarrow> environment \<Rightarrow> config" where
  "Load frac getenv = \<lparr>
     GRPCPort = cenv_GetIntOrDefault getenv cenv_GRPCPort 50051,
     DatadogStatsdAddr = cenv_Get getenv cenv_DatadogStatsdAddr,
     GCSBucket = cenv_Get getenv cenv_GCSBucket,
     GCSPrefix = cenv_Get getenv cenv_GCSPrefix,
     QueueBackend = cenv_GetOrDefault getenv cenv_QueueBackend ''noop'',
     PubSubProject = cenv_Get getenv cenv_PubSubProject,
     PubSubTopicHigh = cenv_Get getenv cenv_PubSubTopicHigh,
     PubSubTopicMedium = cenv_Get getenv cenv_PubSubTopicMedium,
     PubSubTopicLow = cenv_Get getenv cenv_PubSubTopicLow,
     PubSubTopicImmediate = cenv_Get getenv cenv_PubSubTopicImmediate,
     CloudTasksProject = cenv_Get getenv cenv_CloudTasksProject,
     CloudTasksLocation = cenv_Get getenv cenv_CloudTasksLocation,
     CloudTasksQueue = cenv_Get getenv cenv_CloudTasksQueue,
     CallbackBaseURL = cenv_Get getenv cenv_CallbackBaseURL,
     CloudTasksServiceAccount = cenv_Get getenv cenv_CloudTasksServiceAccount,
     ScheduleThreshold = cenv_GetDurationOrDefault frac getenv cenv_ScheduleThreshold minute,
     LegacyPayloadQueueRouting = cenv_GetBool getenv cenv_LegacyPayloadQueueRouting\<rparr>"

section \<open>Numbers and durations\<close>

lemma Atoi_show: "Atoi (show_int i) = (clamp_int64 i, clamp_int64 i = i)"
proof -
  have d: "list_all is_digit (show_nat n)" "show_nat n \<noteq> []" for n by (simp_all add: show_nat_digits)
  have s: "\<exists>c cs. show_nat n = c # cs \<and> c \<noteq> CHR ''-'' \<and> c \<noteq> CHR ''+''" for n
    using d [of n] by (cases "show_nat n") (auto simp: is_digit_def)
  show ?thesis
  proof (cases "i < 0")
    case True
    then show ?thesis using d [of "nat (- i)"] by (simp add: Atoi_def show_int_def Let_def read_int_nat)
  next
    case False
    obtain c cs where c: "show_nat (nat i) = c # cs" "c \<noteq> CHR ''-''" "c \<noteq> CHR ''+''" using s by blast
    have "read_int (c # cs) = i" using False by (simp add: read_int_nat flip: c(1))
    moreover have "list_all is_digit (c # cs)" using d(1) c(1) by metis
    ultimately show ?thesis using False c by (simp add: Atoi_def show_int_def)
  qed
qed

lemma leadingInt_bounds: "leadingInt x s = Some (y, t) \<Longrightarrow> 0 \<le> x \<Longrightarrow> x \<le> duration_limit \<Longrightarrow> 0 \<le> y \<and> y \<le> duration_limit"
  by (induction x s rule: leadingInt.induct) (auto simp: Let_def split: if_splits)

lemma unit_of_pos: "unit_of u = Some k \<Longrightarrow> 0 < k"
  by (auto simp: unit_of_def split: if_splits)

lemma parse_segment_bounds:
  assumes "parse_segment frac s = Some (v, t)" and "\<And>f k u. 0 \<le> frac f k u"
  shows "0 \<le> v \<and> v \<le> duration_limit"
proof -
  obtain x s1 where x: "leadingInt 0 s = Some (x, s1)"
    using assms by (auto simp: parse_segment_def split: if_splits option.splits)
  have "0 \<le> x" using leadingInt_bounds [OF x] by (simp add: duration_limit_def)
  then show ?thesis
    using assms(1) x by (auto simp: parse_segment_def Let_def assms(2) dest: unit_of_pos split: if_splits option.splits prod.splits)
qed

lemma parse_segments_bounds:
  "parse_segments frac d s = Some d' \<Longrightarrow> (\<And>f k u. 0 \<le> frac f k u) \<Longrightarrow> 0 \<le> d \<Longrightarrow> d \<le> duration_limit
    \<Longrightarrow> 0 \<le> d' \<and> d' \<le> duration_limit"
proof (induction frac d s rule: parse_segments.induct)
  case (1 frac d s)
  show ?case
  proof (cases "s = []")
    case True
    with 1(2,4,5) show ?thesis by (subst (asm) parse_segments.simps) simp
  next
    case False
    with 1(2) obtain v t where v: "parse_segment frac s = Some (v, t)" "d + v \<le> duration_limit"
      "parse_segments frac (d + v) t = Some d'"
      by (subst (asm) parse_segments.simps) (auto split: option.splits if_splits)
    have "0 \<le> v" using parse_segment_bounds [OF v(1) 1(3)] by blast
    then show ?thesis using 1(1) [OF False v(1) refl _ v(3) 1(3)] v(2) 1(4) by simp
  qed
qed

section \<open>Properties\<close>

text \<open>
  C40. A number written in decimal is read back exactly when it fits 64 signed bits. Out of
  that range \<open>GetIntOrDefault\<close> gives the default, while \<open>GetInt\<close> gives the nearest number
  in range and not the 0 its comment promises for an invalid value.
\<close>

lemma port_roundtrip:
  assumes "cenv_Get getenv key = show_int i"
  shows "cenv_GetIntOrDefault getenv key dflt = (if - (2 ^ 63) \<le> i \<and> i < 2 ^ 63 then i else dflt)
    \<and> cenv_GetInt getenv key = max (- (2 ^ 63)) (min (2 ^ 63 - 1) i)"
proof -
  have "clamp_int64 i = i \<longleftrightarrow> - (2 ^ 63) \<le> i \<and> i < 2 ^ 63" by (auto simp: clamp_int64_def)
  moreover have "cenv_GetInt getenv key = clamp_int64 i" using assms by (simp add: cenv_GetInt_def Atoi_show)
  ultimately show ?thesis using assms by (auto simp: cenv_GetIntOrDefault_def Atoi_show clamp_int64_def)
qed

text \<open>
  A duration that parses fits 64 signed bits, whatever number of units it adds up and
  however the fractions are rounded.
\<close>

lemma ParseDuration_bounds:
  assumes "\<And>f k u. 0 \<le> frac f k u" and "ParseDuration frac s = Some d"
  shows "is_duration d"
proof -
  let ?t = "case s of c # cs \<Rightarrow> if c = CHR ''-'' \<or> c = CHR ''+'' then cs else s | [] \<Rightarrow> s"
  have "d = 0 \<or> (\<exists>n. parse_segments frac 0 ?t = Some n \<and> (d = - n \<or> d = n \<and> n \<le> duration_limit - 1))"
    using assms(2) unfolding ParseDuration_def Let_def by (auto split: if_splits option.splits)
  then show ?thesis
    using parse_segments_bounds [OF _ assms(1)]
    by (fastforce simp: is_duration_def min_duration_def max_duration_def duration_limit_def)
qed

text \<open>
  With nothing set, the service runs on the no-op backend with the in-memory store,
  without Cloud Tasks, on port 50051, and a threshold of one minute.
\<close>

lemma default_configuration:
  assumes "\<And>key. cenv_Get getenv key = []"
  shows "Load frac getenv = \<lparr>GRPCPort = 50051, DatadogStatsdAddr = [], GCSBucket = [], GCSPrefix = [],
     QueueBackend = ''noop'', PubSubProject = [], PubSubTopicHigh = [], PubSubTopicMedium = [], PubSubTopicLow = [],
     PubSubTopicImmediate = [], CloudTasksProject = [], CloudTasksLocation = [], CloudTasksQueue = [],
     CallbackBaseURL = [], CloudTasksServiceAccount = [], ScheduleThreshold = minute, LegacyPayloadQueueRouting = False\<rparr>"
  using assms
  by (simp add: Load_def cenv_GetIntOrDefault_def cenv_GetOrDefault_def cenv_GetDurationOrDefault_def cenv_GetBool_def
      Atoi_def ParseDuration_def ParseBool_def)

lemma default_configuration_witness:
  "QueueBackend (Load (\<lambda>_ _ _. 0) (\<lambda>_. '' '')) = ''noop''"
proof -
  have "cenv_Get (\<lambda>_. '' '') key = []" for key unfolding cenv_Get_def by code_simp
  from default_configuration [OF this] show ?thesis by simp
qed

lemma ParseDuration_bounds_witness: "is_duration 5400000000000"
proof -
  have "ParseDuration (\<lambda>_ _ _. 0) ''1h30m'' = Some 5400000000000" by code_simp
  from ParseDuration_bounds [OF _ this] show ?thesis by simp
qed

lemma port_roundtrip_witness: "cenv_GetIntOrDefault (\<lambda>_. ''80'') cenv_GRPCPort 50051 = 80"
proof -
  have "cenv_Get (\<lambda>_. ''80'') cenv_GRPCPort = show_int 80" unfolding cenv_Get_def by code_simp
  from port_roundtrip [OF this, of 50051] show ?thesis by simp
qed

end
