(* ===== verification/JackMain.thy ===== *)
theory JackMain
  imports Server CloudTasks AdminServer Callback Config
begin

text \<open>
  cmd/jack/main.go: how the process wires its components together from the
  configuration, which handler a request reaches, and the order in which the
  components are closed. Listening, signals and log lines are left out.
\<close>


section \<open>Wiring\<close>

text \<open>
  What the clients outside this repository contribute: whether each could be created, what
  it reports when it is closed, and the library functions the components use.
\<close>

record externals =
  ext_lib :: gcs_lib
  ext_statsd_error :: "go_error option"
  ext_gcs_error :: "go_error option"
  ext_pubsub_error :: "go_error option"
  ext_tasks_error :: "go_error option"
  ext_pubsub_close :: "go_error option"
  ext_tasks_close :: "go_error option"
  ext_statsd_close :: "go_error option"

record 'w service =
  svc_store :: "'w store"
  svc_backend :: "'w backend"
  svc_scheduler :: "'w scheduler"
  svc_server :: "'w server"
  svc_admin :: "'w admin_server"
  svc_callback :: "'w callback_handler"
  svc_statsd_Close :: "('w, go_error option) state"

text \<open>\<open>log.Fatalf\<close> ends the process; its text is the left result.\<close>

definition init_statsd :: "externals \<Rightarrow> config \<Rightarrow> string + unit" where
  "init_statsd ext cfg =
     (if DatadogStatsdAddr cfg \<noteq> '''' then
        (case ext_statsd_error ext of
           Some e \<Rightarrow> Inl (''Failed to initialize DogStatsD client: '' @ error_text e)
         | None \<Rightarrow> Inr ())
      else Inr ())"

text \<open>The client that was made, or the one that does nothing, whose \<open>Close\<close> does not fail.\<close>

definition statsd_Close :: "externals \<Rightarrow> config \<Rightarrow> ('w, go_error option) state" where
  "statsd_Close ext cfg = ret (if DatadogStatsdAddr cfg \<noteq> [] then ext_statsd_close ext else None)"

definition main_gcs :: "config \<Rightarrow> gcs_config" where
  "main_gcs cfg = \<lparr>gcs_Bucket = GCSBucket cfg, gcs_Prefix = GCSPrefix cfg\<rparr>"

definition init_store :: "externals \<Rightarrow> config \<Rightarrow> ('a gcs_world_scheme, string + 'a gcs_world_scheme store) state" where
  "init_store ext cfg =
     (if GCSBucket cfg \<noteq> '''' then do {
        err \<leftarrow> NewGCSStore (ext_lib ext) (main_gcs cfg) (ext_gcs_error ext);
        ret (case err of
            Some e \<Rightarrow> Inl (''Failed to initialize storage: '' @ error_text e)
          | None \<Rightarrow> Inr (gcs_store (ext_lib ext) (main_gcs cfg))) }
      else do {
        NewMemoryStore;
        ret (Inr (memory_store (gcs_pb (ext_lib ext)))) })"

definition main_pubsub :: "externals \<Rightarrow> config \<Rightarrow> go_error + 'a pubsub_world_scheme pubsub_backend" where
  "main_pubsub ext cfg = NewPubSubBackend (ext_pubsub_error ext) \<lparr>
     Project = PubSubProject cfg,
     HighTopic = PubSubTopicHigh cfg,
     MediumTopic = PubSubTopicMedium cfg,
     LowTopic = PubSubTopicLow cfg,
     ImmediateTopic = PubSubTopicImmediate cfg,
     Adapter = Some LegacyAdapter_Marshal\<rparr>"

definition init_backend :: "externals \<Rightarrow> config \<Rightarrow> string + 'a pubsub_world_scheme backend" where
  "init_backend ext cfg =
     (if QueueBackend cfg = ''pubsub'' then
        (case main_pubsub ext cfg of
           Inl e \<Rightarrow> Inl (''Failed to initialize pubsub backend: '' @ error_text e)
         | Inr b \<Rightarrow> Inr (pubsub_queue (ext_pubsub_close ext) b))
      else if QueueBackend cfg = ''noop'' then Inr (noop_queue (NewNoopBackend DefaultConfig))
      else Inr (noop_queue (NewNoopBackend DefaultConfig)))"

definition main_cloud_tasks :: "externals \<Rightarrow> config \<Rightarrow> go_error + cloudtasks_scheduler" where
  "main_cloud_tasks ext cfg = NewCloudTasksScheduler (gcs_pb (ext_lib ext)) (ext_tasks_error ext) \<lparr>
     ct_Project = CloudTasksProject cfg,
     ct_Location = CloudTasksLocation cfg,
     ct_Queue = CloudTasksQueue cfg,
     ct_CallbackBaseURL = CallbackBaseURL cfg,
     ct_ServiceAccountEmail = CloudTasksServiceAccount cfg\<rparr>"

definition init_scheduler :: "externals \<Rightarrow> config \<Rightarrow> string + 'a tasks_world_scheme scheduler" where
  "init_scheduler ext cfg =
     (if CloudTasksProject cfg \<noteq> '''' then
        (case main_cloud_tasks ext cfg of
           Inl e \<Rightarrow> Inl (''Failed to initialize Cloud Tasks scheduler: '' @ error_text e)
         | Inr s \<Rightarrow> Inr (cloud_tasks (ext_tasks_close ext) s))
      else Inr NewNoopScheduler)"

definition main_server_config :: "config \<Rightarrow> server_config" where
  "main_server_config cfg = DefaultServerConfig\<lparr>
     sc_ScheduleThreshold := ScheduleThreshold cfg,
     sc_LegacyPayloadQueueRouting := LegacyPayloadQueueRouting cfg\<rparr>"

definition wire :: "externals \<Rightarrow> config \<Rightarrow> 'w store \<Rightarrow> 'w backend \<Rightarrow> 'w scheduler \<Rightarrow> 'w service" where
  "wire ext cfg store backend sched = \<lparr>
     svc_store = store,
     svc_backend = backend,
     svc_scheduler = sched,
     svc_server = NewServer (as_time (gcs_pb (ext_lib ext))) (Some store) backend (Some sched) (main_server_config cfg),
     svc_admin = NewAdminServer store,
     svc_callback = NewCallbackHandler backend,
     svc_statsd_Close = statsd_Close ext cfg\<rparr>"

definition main_init :: "externals \<Rightarrow> config \<Rightarrow> ('a tasks_world_scheme, string + 'a tasks_world_scheme service) state" where
  "main_init ext cfg =
     (case init_statsd ext cfg of
        Inl e \<Rightarrow> ret (Inl e)
      | Inr _ \<Rightarrow> do {
          store \<leftarrow> init_store ext cfg;
          ret (case store of Inl e \<Rightarrow> Inl e
            | Inr store \<Rightarrow> (case init_backend ext cfg of Inl e \<Rightarrow> Inl e
              | Inr backend \<Rightarrow> (case init_scheduler ext cfg of Inl e \<Rightarrow> Inl e
                | Inr sched \<Rightarrow> Inr (wire ext cfg store backend sched)))) })"

text \<open>
  Each client is closed by a deferred call, which runs when \<open>main\<close> returns, the last one first.
  Before all of them \<open>main\<close> defers \<open>cancel\<close>, which ends a context nothing waits for then.
\<close>

definition defer_statsd :: "'w service \<Rightarrow> ('w, go_error option) state" where
  "defer_statsd svc = svc_statsd_Close svc"

definition defer_store :: "'w service \<Rightarrow> ('w, go_error option) state" where
  "defer_store svc = store_Close (svc_store svc)"

definition defer_backend :: "'w service \<Rightarrow> ('w, go_error option) state" where
  "defer_backend svc = backend_Close (svc_backend svc)"

definition defer_scheduler :: "'w service \<Rightarrow> ('w, go_error option) state" where
  "defer_scheduler svc = scheduler_Close (svc_scheduler svc)"

definition deferred_closes :: "'w service \<Rightarrow> ('w, go_error option) state list" where
  "deferred_closes svc = [defer_scheduler svc, defer_backend svc, defer_store svc, defer_statsd svc]"


section \<open>Requests\<close>

text \<open>Which of the two servers takes an HTTP request.\<close>

datatype route = ToGrpc | ToMux

definition dispatch :: "nat \<Rightarrow> string \<Rightarrow> route" where
  "dispatch proto_major content_type =
     (if proto_major = 2 \<and> starts_with ''application/grpc'' content_type then ToGrpc else ToMux)"

datatype rpc_request =
    RpcEnqueue rpc_context enqueue_request
  | RpcEnqueueBulk rpc_context enqueue_bulk_request
  | RpcCreateProducer create_producer_request
  | RpcGetProducer get_producer_request
  | RpcListProducers
  | RpcCreateJobType create_job_type_request
  | RpcListJobTypes list_job_types_request

datatype rpc_response =
    EnqueueReply "rpc_status + enqueue_response"
  | EnqueueBulkReply "rpc_status + enqueue_bulk_response"
  | CreateProducerReply "rpc_status + create_producer_response"
  | GetProducerReply "rpc_status + get_producer_response"
  | ListProducersReply "rpc_status + list_producers_response"
  | CreateJobTypeReply "rpc_status + create_job_type_response"
  | ListJobTypesReply "rpc_status + list_job_types_response"

definition reply :: "('b \<Rightarrow> 'c) \<Rightarrow> ('w, 'b) state \<Rightarrow> ('w, 'c) state" where
  "reply f m = do { x \<leftarrow> m; ret (f x) }"

fun serve :: "'a env_scheme service \<Rightarrow> rpc_request \<Rightarrow> ('a env_scheme, rpc_response) state" where
  "serve svc (RpcEnqueue ctx r) = reply EnqueueReply (Server_Enqueue (svc_server svc) ctx r)"
| "serve svc (RpcEnqueueBulk ctx r) = reply EnqueueBulkReply (Server_EnqueueBulk (svc_server svc) ctx r)"
| "serve svc (RpcCreateProducer r) = reply CreateProducerReply (AdminServer_CreateProducer (svc_admin svc) r)"
| "serve svc (RpcGetProducer r) = reply GetProducerReply (AdminServer_GetProducer (svc_admin svc) r)"
| "serve svc RpcListProducers = reply ListProducersReply (AdminServer_ListProducers (svc_admin svc))"
| "serve svc (RpcCreateJobType r) = reply CreateJobTypeReply (AdminServer_CreateJobType (svc_admin svc) r)"
| "serve svc (RpcListJobTypes r) = reply ListJobTypesReply (AdminServer_ListJobTypes (svc_admin svc) r)"

lemma run_reply: "run_state (reply f m) w = (case run_state m w of (x, w') \<Rightarrow> (f x, w'))"
  by (simp add: reply_def split: prod.split)

end
