(* ===== verification/Service.thy ===== *)
theory Service
  imports JackMain
begin

text \<open>
  The whole service: what holds in every world it can reach by serving requests and
  having its scheduled tasks delivered. The invariant of the world is carried through
  the handlers by the locale of the enqueue service and the contract of the store.
\<close>


section \<open>Lookups that change nothing\<close>

interpretation mem_quiet: quiet_store "memory_store pb"
  by unfold_locales (simp_all add: quietly_def memory_store_def run_MemoryStore_reads split: option.split)

interpretation gcs_quiet: quiet_store "gcs_store lib gc"
  by unfold_locales (simp_all add: quietly_def gcs_store_def run_GCSStore_reads run_MemoryStore_reads split: option.split)


section \<open>The invariant\<close>

text \<open>The registries hold what the admin service writes into them.\<close>

definition registry_ok :: "'a store_world_scheme \<Rightarrow> bool" where
  "registry_ok w \<longleftrightarrow>
     (\<forall>i p. map_of (producers w) i = Some p \<longrightarrow>
          producer_id_ok i \<and> producer_Name p \<noteq> [] \<and> producer_RateLimitRps p = 1000)
     \<and> (\<forall>k j. map_of (jobTypes w) k = Some j \<longrightarrow> job_type_Name j \<noteq> [] \<and> 0 < sint (job_type_MaxRetries j))"

text \<open>A job the service lets through, whatever its times.\<close>

definition good_job :: "job \<Rightarrow> bool" where
  "good_job j \<longleftrightarrow> job_ProducerID j \<noteq> [] \<and> job_Type j \<noteq> [] \<and> slice_len (job_Payload j) \<le> 1048576
     \<and> set (job_ID j) \<subseteq> set base62Alphabet \<union> {CHR ''_''}
     \<and> valid_utf8 (job_ProducerID j) \<and> valid_utf8 (job_Type j) \<and> valid_utf8 (job_TraceID j)
     \<and> known_priority (job_Priority j) \<and> 0 < job_MaxRetries j \<and> is_int32 (job_MaxRetries j)"

definition service_inv :: "('a tasks_world_scheme \<Rightarrow> bool) \<Rightarrow> 'a tasks_world_scheme pubsub_backend
    \<Rightarrow> 'a tasks_world_scheme \<Rightarrow> bool" where
  "service_inv I b w \<longleftrightarrow> I w \<and> registry_ok w
     \<and> (\<forall>m \<in> set (published w). \<exists>j. good_job j \<and> message_for b j m)
     \<and> (\<forall>t \<in> set (tasks w). \<exists>j s. good_job j \<and> task_of s j t)"

lemma base62_ascii: "c \<in> set base62Alphabet \<union> {CHR ''_''} \<Longrightarrow> (of_char c :: nat) < 128"
  by (auto simp: base62Alphabet_def)

lemma good_job_encodable: "good_job j \<Longrightarrow> encodable j"
proof -
  assume j: "good_job j"
  have "list_all (\<lambda>c. (of_char c :: nat) < 128) (job_ID j)"
    using j base62_ascii by (auto simp: good_job_def list_all_iff)
  then have "valid_utf8 (job_ID j)" by (intro valid_utf8_ascii) (simp add: list_all_iff)
  with j show ?thesis
    by (simp add: encodable_def good_job_def known_priority_def priority_defs is_int64_def is_int32_def)
qed

lemma good_job_times [simp]: "good_job (j\<lparr>job_RunAt := t\<rparr>) = good_job j" "good_job (j\<lparr>job_CreatedAt := t\<rparr>) = good_job j"
  by (simp_all add: good_job_def)

section \<open>Stores of a deployment\<close>

locale deployed_store = admin_service S I "\<lambda>w. map_of (producers w)" "\<lambda>w. map_of (jobTypes w)" + quiet_store S
  for S :: "'a tasks_world_scheme store" and I +
  assumes inv_env: "I w \<Longrightarrow> I (w\<lparr>ticks := n, entropy_pos := d, choice_pos := c, metrics := ms\<rparr>)"
    and inv_published: "I w \<Longrightarrow> I (w\<lparr>published := pb\<rparr>)"
    and inv_tasks: "I w \<Longrightarrow> I (w\<lparr>task_calls := k, tasks := ts\<rparr>)"
    and frame_create_producer: "run_state (store_CreateProducer S p) w = (x, w') \<Longrightarrow>
      published w' = published w \<and> tasks w' = tasks w \<and> publish_errors w' = publish_errors w \<and> clock w' = clock w
      \<and> gcs_faults w' = gcs_faults w"
    and frame_create_job_type: "run_state (store_CreateJobType S j) w = (y, w') \<Longrightarrow>
      published w' = published w \<and> tasks w' = tasks w \<and> publish_errors w' = publish_errors w \<and> clock w' = clock w
      \<and> gcs_faults w' = gcs_faults w"
    and frame_lists: "quietly (store_ListProducers S)" "quietly (store_ListJobTypes S i)"

definition gcs_frame :: "'a tasks_world_scheme \<Rightarrow> 'a tasks_world_scheme \<Rightarrow> bool" where
  "gcs_frame w w' \<longleftrightarrow> gcs_world.more w' = gcs_world.more w \<and> clock w' = clock w \<and> gcs_faults w' = gcs_faults w"

lemma gcs_frameD:
  "gcs_frame w w' \<Longrightarrow>
     published w' = published w \<and> tasks w' = tasks w \<and> publish_errors w' = publish_errors w \<and> clock w' = clock w
      \<and> gcs_faults w' = gcs_faults w"
  by (cases w; cases w') (simp add: gcs_frame_def)

lemma gcs_create_frame:
  fixes w w' :: "'a tasks_world_scheme"
  shows "run_state (GCSStore_CreateProducer lib gc p) w = (x, w') \<Longrightarrow> gcs_frame w w'"
    and "run_state (GCSStore_CreateJobType lib gc j) w = (y, w') \<Longrightarrow> gcs_frame w w'"
proof -
  assume run: "run_state (GCSStore_CreateProducer lib gc p) w = (x, w')"
  obtain p' e where x: "x = (p', e)" by fastforce
  show "gcs_frame w w'"
  proof (cases "map_of (producers w) (producer_ProducerId p)")
    case None
    show ?thesis
      by (rule GCSStore_CreateProducer_outcome [OF run [unfolded x] None], drule saved_frame, elim exE) (simp add: gcs_frame_def)
  next
    case (Some q)
    then show ?thesis using run run_GCSStore_taken(1) [of w p lib gc] by (simp add: gcs_frame_def)
  qed
next
  assume run: "run_state (GCSStore_CreateJobType lib gc j) w = (y, w')"
  obtain j' e where y: "y = (j', e)" by fastforce
  consider "map_of (producers w) (job_type_ProducerId j) = None"
    | "map_of (producers w) (job_type_ProducerId j) \<noteq> None" "map_of (jobTypes w) (job_type_key j) \<noteq> None"
    | (free) "map_of (producers w) (job_type_ProducerId j) \<noteq> None" "map_of (jobTypes w) (job_type_key j) = None"
    by fastforce
  then show "gcs_frame w w'"
  proof cases
    case free
    show ?thesis
      by (rule GCSStore_CreateJobType_outcome [OF run [unfolded y] free], drule saved_frame, elim exE) (simp add: gcs_frame_def)
  qed (use run run_GCSStore_taken(2,3) [of w j lib gc] in \<open>simp_all add: gcs_frame_def\<close>)
qed

lemma quietly_memory_lists: "quietly MemoryStore_ListProducers" "quietly (MemoryStore_ListJobTypes i)"
  by (rule quietly_run [where n = ticks and p = entropy_pos and c = "\<lambda>w. Suc (choice_pos w)" and ms = metrics];
      simp add: run_MemoryStore_reads)+

interpretation mem_deployed: deployed_store "memory_store pb" store_inv
proof unfold_locales
  fix p :: producer and j :: job_type and w w' :: "'a tasks_world_scheme" and x y
  show "run_state (store_CreateProducer (memory_store pb) p) w = (x, w') \<Longrightarrow>
      published w' = published w \<and> tasks w' = tasks w \<and> publish_errors w' = publish_errors w \<and> clock w' = clock w
      \<and> gcs_faults w' = gcs_faults w"
    by (auto simp: memory_store_def run_MemoryStore_CreateProducer Let_def split: if_splits)
  show "run_state (store_CreateJobType (memory_store pb) j) w = (y, w') \<Longrightarrow>
      published w' = published w \<and> tasks w' = tasks w \<and> publish_errors w' = publish_errors w \<and> clock w' = clock w
      \<and> gcs_faults w' = gcs_faults w"
    by (auto simp: memory_store_def run_MemoryStore_CreateJobType Let_def split: if_splits)
qed (simp_all add: store_inv_def memory_store_def quietly_memory_lists)

interpretation gcs_deployed: deployed_store "gcs_store lib gc" "gcs_inv lib"
proof unfold_locales
  fix p :: producer and j :: job_type and w w' :: "'a tasks_world_scheme" and x y
  show "run_state (store_CreateProducer (gcs_store lib gc) p) w = (x, w') \<Longrightarrow>
      published w' = published w \<and> tasks w' = tasks w \<and> publish_errors w' = publish_errors w \<and> clock w' = clock w
      \<and> gcs_faults w' = gcs_faults w"
    by (rule gcs_frameD, rule gcs_create_frame(1)) (simp add: gcs_store_def)
  show "run_state (store_CreateJobType (gcs_store lib gc) j) w = (y, w') \<Longrightarrow>
      published w' = published w \<and> tasks w' = tasks w \<and> publish_errors w' = publish_errors w \<and> clock w' = clock w
      \<and> gcs_faults w' = gcs_faults w"
    by (rule gcs_frameD, rule gcs_create_frame(2)) (simp add: gcs_store_def)
  show "quietly (store_ListProducers (gcs_store lib gc) :: ('a tasks_world_scheme, _) state)"
    "quietly (store_ListJobTypes (gcs_store lib gc) i :: ('a tasks_world_scheme, _) state)" for i
    using quietly_memory_lists by (simp_all add: quietly_def gcs_store_def run_GCSStore_reads)
qed (simp_all add: gcs_inv_def store_inv_def foreign_errors_def clean_faults_def)

section \<open>Steps of the service\<close>

text \<open>
  The transport hands over texts that are UTF-8, as proto3 demands of every string field.
\<close>

definition request_ok :: "enqueue_request \<Rightarrow> bool" where
  "request_ok r \<longleftrightarrow> valid_utf8 (enqueue_request_ProducerId r) \<and> valid_utf8 (enqueue_request_JobType r)
     \<and> valid_utf8 (enqueue_request_TraceId r)"

fun rpc_ok :: "rpc_request \<Rightarrow> bool" where
  "rpc_ok (RpcEnqueue ctx r) = request_ok r"
| "rpc_ok (RpcEnqueueBulk ctx req) = list_all request_ok (enqueue_bulk_request_Jobs req)"
| "rpc_ok _ = True"

text \<open>
  The service serves a request, or Cloud Tasks delivers a task it holds, once or again.
\<close>

inductive service_step :: "'a tasks_world_scheme service \<Rightarrow> 'a tasks_world_scheme \<Rightarrow> 'a tasks_world_scheme \<Rightarrow> bool"
  for svc where
  serves: "rpc_ok req \<Longrightarrow> run_state (serve svc req) w = (resp, w') \<Longrightarrow> service_step svc w w'"
| delivers: "t \<in> set (tasks w) \<Longrightarrow> run_state (handleEnqueueCallback (svc_callback svc) (Inr (task_Body t))) w = (hr, w')
    \<Longrightarrow> service_step svc w w'"

inductive_cases service_stepE: "service_step svc w w'"

abbreviation reachable :: "'a tasks_world_scheme service \<Rightarrow> 'a tasks_world_scheme \<Rightarrow> 'a tasks_world_scheme \<Rightarrow> bool" where
  "reachable svc \<equiv> (service_step svc)\<^sup>*\<^sup>*"

definition backend_of :: "'a tasks_world_scheme pubsub_backend \<Rightarrow> 'a tasks_world_scheme backend \<Rightarrow> bool" where
  "backend_of b B \<longleftrightarrow> (\<exists>n. B = noop_queue n) \<or> (adapter b = LegacyAdapter_Marshal \<and> (\<exists>ce. B = pubsub_queue ce b))"

definition scheduler_of :: "'a tasks_world_scheme scheduler \<Rightarrow> bool" where
  "scheduler_of sched \<longleftrightarrow> sched = NewNoopScheduler \<or> (\<exists>ce s. sched = cloud_tasks ce s)"


section \<open>The steps keep the invariant\<close>

context deployed_store begin

lemma service_inv_quiet:
  assumes "service_inv I b w" and "quiet w w'"
  shows "service_inv I b w'"
proof -
  from assms(2) obtain n d c ms where w': "w' = w\<lparr>ticks := n, entropy_pos := d, choice_pos := c, metrics := ms\<rparr>"
    by (auto simp: quiet_def)
  have "I w'" using assms(1) inv_env by (simp add: w' service_inv_def)
  with assms(1) show ?thesis by (simp add: service_inv_def registry_ok_def w')
qed

lemma service_inv_published:
  assumes "service_inv I b w" and "quiet (w\<lparr>published := published w @ pb\<rparr>) w'"
    and "\<forall>m \<in> set pb. \<exists>j. good_job j \<and> message_for b j m"
  shows "service_inv I b w'"
proof (rule service_inv_quiet [OF _ assms(2)])
  show "service_inv I b (w\<lparr>published := published w @ pb\<rparr>)"
    using assms(1,3) inv_published by (auto simp: service_inv_def registry_ok_def)
qed

lemma service_inv_tasks:
  assumes "service_inv I b w" and "quiet (w\<lparr>task_calls := k, tasks := tasks w @ ts\<rparr>) w'"
    and "\<forall>t \<in> set ts. \<exists>j s. good_job j \<and> task_of s j t"
  shows "service_inv I b w'"
proof (rule service_inv_quiet [OF _ assms(2)])
  show "service_inv I b (w\<lparr>task_calls := k, tasks := tasks w @ ts\<rparr>)"
    using assms(1,3) inv_tasks by (auto simp: service_inv_def registry_ok_def)
qed

lemma backend_keeps:
  assumes B: "backend_of b B" and inv: "service_inv I b w" and j: "good_job j"
    and run: "run_state (backend_Enqueue B j) w = (e, w')"
  shows "service_inv I b w'"
  using B unfolding backend_of_def
proof (elim disjE exE conjE)
  fix n assume "B = noop_queue n"
  then have "w' = w" using run by (simp add: noop_queue_def NoopBackend_Enqueue_def)
  with inv show ?thesis by simp
next
  fix ce assume b: "adapter b = LegacyAdapter_Marshal" and "B = pubsub_queue ce b"
  then have "run_state (PubSubBackend_Enqueue b j) w = (e, w')" using run by (simp add: pubsub_queue_def)
  from PubSubBackend_Enqueue_effect [OF b this] obtain n ms pb where
    w': "w' = w\<lparr>ticks := n, metrics := ms, published := published w @ pb\<rparr>" and m: "\<forall>m \<in> set pb. message_for b j m" by blast
  have "quiet (w\<lparr>published := published w @ pb\<rparr>) w'"
    by (rule quietI [where n = n and p = "entropy_pos w" and c = "choice_pos w" and ms = ms]) (simp add: w')
  from service_inv_published [OF inv this] m j show ?thesis by blast
qed

lemma backend_bulk_keeps:
  assumes B: "backend_of b B" and inv: "service_inv I b w" and js: "\<forall>j \<in> set js. good_job j"
    and run: "run_state (backend_EnqueueBulk B js) w = (rs, w')"
  shows "service_inv I b w'"
  using B unfolding backend_of_def
proof (elim disjE exE conjE)
  fix n assume "B = noop_queue n"
  then have "w' = w" using run by (simp add: noop_queue_def run_NoopBackend_EnqueueBulk)
  with inv show ?thesis by simp
next
  fix ce assume b: "adapter b = LegacyAdapter_Marshal" and "B = pubsub_queue ce b"
  then have "run_state (PubSubBackend_EnqueueBulk b js) w = (rs, w')" using run by (simp add: pubsub_queue_def)
  from PubSubBackend_EnqueueBulk_effect [OF b this] obtain n c ms pb where
    w': "w' = w\<lparr>ticks := n, published := published w @ pb, choice_pos := c, metrics := ms\<rparr>"
    and m: "\<forall>m \<in> set pb. \<exists>j \<in> set js. message_for b j m" by blast
  have "quiet (w\<lparr>published := published w @ pb\<rparr>) w'"
    by (rule quietI [where n = n and p = "entropy_pos w" and c = c and ms = ms]) (simp add: w')
  from service_inv_published [OF inv this] m js show ?thesis by blast
qed

lemma scheduler_keeps:
  assumes S: "scheduler_of sched" and inv: "service_inv I b w" and j: "good_job j"
    and run: "run_state (scheduler_Schedule sched j) w = (e, w')"
  shows "service_inv I b w'"
  using S unfolding scheduler_of_def
proof (elim disjE exE)
  assume "sched = NewNoopScheduler"
  then have "w' = w" using run by (simp add: NewNoopScheduler_def NoopScheduler_Schedule_def)
  with inv show ?thesis by simp
next
  fix ce s assume "sched = cloud_tasks ce s"
  then have "run_state (CloudTasksScheduler_Schedule s j) w = (e, w')" using run by (simp add: cloud_tasks_def)
  from CloudTasksScheduler_Schedule_effect [OF this] obtain n c ts ms where
    w': "w' = w\<lparr>ticks := n, task_calls := c, tasks := tasks w @ ts, metrics := ms\<rparr>" and t: "\<forall>t \<in> set ts. task_of s j t" by blast
  have "quiet (w\<lparr>task_calls := c, tasks := tasks w @ ts\<rparr>) w'"
    by (rule quietI [where n = n and p = "entropy_pos w" and c = "choice_pos w" and ms = ms]) (simp add: w')
  from service_inv_tasks [OF inv this] t j show ?thesis by blast
qed

lemma scheduler_bulk_keeps:
  assumes S: "scheduler_of sched" and inv: "service_inv I b w" and js: "\<forall>j \<in> set js. good_job j"
    and run: "run_state (scheduler_ScheduleBulk sched js) w = (rs, w')"
  shows "service_inv I b w'"
  using S unfolding scheduler_of_def
proof (elim disjE exE)
  assume "sched = NewNoopScheduler"
  then have "w' = w" using run by (simp add: NewNoopScheduler_def run_NoopScheduler_ScheduleBulk)
  with inv show ?thesis by simp
next
  fix ce s assume "sched = cloud_tasks ce s"
  then have "run_state (CloudTasksScheduler_ScheduleBulk s js) w = (rs, w')" using run by (simp add: cloud_tasks_def)
  from CloudTasksScheduler_ScheduleBulk_effect [OF this] obtain p n c ts ms where
    w': "w' = w\<lparr>choice_pos := p, ticks := n, task_calls := c, tasks := tasks w @ ts, metrics := ms\<rparr>"
    and t: "\<forall>t \<in> set ts. \<exists>j \<in> set js. task_of s j t" by blast
  have "quiet (w\<lparr>task_calls := c, tasks := tasks w @ ts\<rparr>) w'"
    by (rule quietI [where n = n and p = "entropy_pos w" and c = p and ms = ms]) (simp add: w')
  from service_inv_tasks [OF inv this] t js show ?thesis by blast
qed

end

section \<open>Jobs that the service prepares\<close>

context deployed_store begin

lemma routing_retries:
  assumes "I w" and reg: "registry_ok w" and S: "srv_store srv = Some S" and d: "0 < sc_DefaultMaxRetries (srv_config srv)"
    and run: "run_state (routingConfig srv i t bts) w = ((p, n, warning), w')"
  shows "0 < n"
proof (cases "sc_LegacyPayloadQueueRouting (srv_config srv) \<and> snd (legacyPayloadPriority bts)")
  case True
  then show ?thesis using run d by (auto simp: routingConfig_def split: prod.splits)
next
  case False
  obtain r v where g: "run_state (store_GetJobType S i t) w = (r, v)" by fastforce
  have "run_state (getJobTypeConfig srv i t) w = ((p, n, warning), w')"
    using run False by (auto simp: routingConfig_def split: prod.splits)
  then have n: "n = (case r of Inl e \<Rightarrow> sc_DefaultMaxRetries (srv_config srv) | Inr jt \<Rightarrow> sint (job_type_MaxRetries jt))"
    using S g by (auto simp: getJobTypeConfig_def split: sum.splits)
  show ?thesis
  proof (cases "map_of (jobTypes w) (jobTypeKey i t)")
    case None
    then show ?thesis using get_job_type [OF assms(1) g] n d by auto
  next
    case (Some jt)
    then show ?thesis using get_job_type [OF assms(1) g] n reg by (auto simp: registry_ok_def)
  qed
qed

lemma quiet_server: "srv_store srv = Some S \<Longrightarrow> quiet_server srv"
  by (simp add: quiet_server_def quiet_store_axioms)

lemma prepared_good:
  assumes inv: "service_inv I b w" and r: "request_ok r" and S: "srv_store srv = Some S"
    and cfg: "srv_config srv = main_server_config cfg"
    and ok: "rejection srv r = None" and run: "run_state (prepare_job srv shadow r) w = ((ws, j), w')"
  shows "good_job j"
proof -
  have c: "sc_DefaultQueue (srv_config srv) = PriorityMedium" "sc_DefaultMaxRetries (srv_config srv) = 10"
    "sc_MaxPayloadSize (srv_config srv) = 1048576" by (simp_all add: cfg main_server_config_def DefaultServerConfig_def)
  note q = quiet_server [OF S]
  from prepare_routing [OF q run] obtain w1 w2 warning where
    w1: "quiet w w1" and rt: "run_state (routingConfig srv (enqueue_request_ProducerId r) (enqueue_request_JobType r)
      (enqueue_request_Payload r)) w1 = ((job_Priority j, job_MaxRetries j, warning), w2)" by blast
  have "service_inv I b w1" by (rule service_inv_quiet [OF inv w1])
  then have "0 < job_MaxRetries j"
    using routing_retries [OF _ _ S _ rt] c by (simp add: service_inv_def)
  moreover have sj: "server_job srv shadow (clock w) r j" by (rule prepare_server_job [OF q run])
  then have "known_priority (job_Priority j)" "is_int32 (job_MaxRetries j)"
    by (auto simp: server_job_def routed_def c is_int32_def)
  moreover have "enqueue_request_ProducerId r \<noteq> []" "enqueue_request_JobType r \<noteq> []"
    "slice_len (enqueue_request_Payload r) \<le> 1048576"
    using ok c(3) by (auto simp: rejection_def split: if_splits)
  ultimately show ?thesis
    using sj r unfolding good_job_def server_job_def job_of_def request_ok_def by simp
qed

end


section \<open>A deployment\<close>

text \<open>
  A service wired by \<open>main\<close> from a store with the contract, one of the two backends and
  one of the two schedulers.
\<close>

locale deployment = deployed_store S I
  for S :: "'a tasks_world_scheme store" and I +
  fixes ext :: externals and cfg :: config and b :: "'a tasks_world_scheme pubsub_backend"
    and B :: "'a tasks_world_scheme backend" and sched :: "'a tasks_world_scheme scheduler"
  assumes backend: "backend_of b B" and scheduler: "scheduler_of sched"

lemma wire_simps [simp]:
  "srv_store (svc_server (wire ext cfg S B sched)) = Some S" "srv_backend (svc_server (wire ext cfg S B sched)) = B"
  "srv_scheduler (svc_server (wire ext cfg S B sched)) = Some sched"
  "srv_config (svc_server (wire ext cfg S B sched)) = main_server_config cfg"
  "svc_admin (wire ext cfg S B sched) = NewAdminServer S"
  "callback_backend (svc_callback (wire ext cfg S B sched)) = B"
  by (simp_all add: wire_def NewServer_def NewCallbackHandler_def)

sublocale deployment \<subseteq> enqueueing: invariant_server "svc_server (wire ext cfg S B sched)" "service_inv I b" good_job request_ok
proof unfold_locales
  show "quiet_server (svc_server (wire ext cfg S B sched))" by (rule quiet_server) simp
  fix w w' assume "service_inv I b w" "quiet w w'"
  then show "service_inv I b w'" by (rule service_inv_quiet)
next
  fix w j e w' assume "service_inv I b w" "good_job j"
    "run_state (backend_Enqueue (srv_backend (svc_server (wire ext cfg S B sched))) j) w = (e, w')"
  then show "service_inv I b w'" using backend_keeps [OF backend] by simp
next
  fix w js rs w' assume "service_inv I b w" "\<forall>j \<in> set js. good_job j"
    "run_state (backend_EnqueueBulk (srv_backend (svc_server (wire ext cfg S B sched))) js) w = (rs, w')"
  then show "service_inv I b w'" using backend_bulk_keeps [OF backend] by simp
next
  fix s w j e w' assume "srv_scheduler (svc_server (wire ext cfg S B sched)) = Some s" "service_inv I b w" "good_job j"
    "run_state (scheduler_Schedule s j) w = (e, w')"
  then show "service_inv I b w'" using scheduler_keeps [OF scheduler] by simp
next
  fix s w js rs w' assume "srv_scheduler (svc_server (wire ext cfg S B sched)) = Some s" "service_inv I b w"
    "\<forall>j \<in> set js. good_job j" "run_state (scheduler_ScheduleBulk s js) w = (rs, w')"
  then show "service_inv I b w'" using scheduler_bulk_keeps [OF scheduler] by simp
next
  fix w r shadow ws j w' assume h: "service_inv I b w" "request_ok r" "rejection (svc_server (wire ext cfg S B sched)) r = None"
    "run_state (prepare_job (svc_server (wire ext cfg S B sched)) shadow r) w = ((ws, j), w')"
  show "good_job j" by (rule prepared_good [OF h(1,2) _ _ h(3,4)]) (rule wire_simps)+
qed

section \<open>Every step keeps the invariant\<close>

context deployed_store begin

lemma store_create_producer_keeps:
  assumes inv: "service_inv I b w" and i: "producer_id_ok i" and n: "create_producer_request_Name req \<noteq> []"
    and run: "run_state (store_CreateProducer S (new_producer req i)) w = ((p', e), w')"
  shows "service_inv I b w'"
    and "published w' = published w \<and> tasks w' = tasks w \<and> publish_errors w' = publish_errors w
      \<and> clock w' = clock w \<and> gcs_faults w' = gcs_faults w \<and> map_of (jobTypes w') = map_of (jobTypes w)"
    and "case e of
        None \<Rightarrow> map_of (producers w) i = None \<and> map_of (producers w') = (map_of (producers w))(i \<mapsto> p')
          \<and> (\<exists>t. p' = stamped_producer (new_producer req i) t)
      | Some _ \<Rightarrow> map_of (producers w') = map_of (producers w)"
proof -
  have I: "I w" using inv by (simp add: service_inv_def)
  have id: "producer_ProducerId (new_producer req i) = i" by (simp add: new_producer_def)
  note out = create_producer [OF I run, unfolded id] and f = frame_create_producer [OF run]
  show "published w' = published w \<and> tasks w' = tasks w \<and> publish_errors w' = publish_errors w
      \<and> clock w' = clock w \<and> gcs_faults w' = gcs_faults w \<and> map_of (jobTypes w') = map_of (jobTypes w)" using out f by simp
  show "case e of
        None \<Rightarrow> map_of (producers w) i = None \<and> map_of (producers w') = (map_of (producers w))(i \<mapsto> p')
          \<and> (\<exists>t. p' = stamped_producer (new_producer req i) t)
      | Some _ \<Rightarrow> map_of (producers w') = map_of (producers w)" using out by (auto split: option.splits)
  have "registry_ok w'"
  proof (cases e)
    case (Some _)
    then show ?thesis using out inv by (simp add: service_inv_def registry_ok_def)
  next
    case None
    then obtain t where p: "p' = stamped_producer (new_producer req i) t"
      and m: "map_of (producers w') = (map_of (producers w))(i \<mapsto> p')" using out by auto
    show ?thesis using inv out n i unfolding registry_ok_def m p
      by (auto simp: service_inv_def registry_ok_def new_producer_def)
  qed
  with out inv f show "service_inv I b w'" by (simp add: service_inv_def)
qed

lemma create_producer_keeps:
  assumes inv: "service_inv I b w" and run: "run_state (AdminServer_CreateProducer (NewAdminServer S) req) w = (r, w')"
  shows "service_inv I b w'"
proof (cases "create_producer_request_Name req = []")
  case True
  then have "w' = w" using run by (simp add: AdminServer_CreateProducer_def)
  with inv show ?thesis by simp
next
  case False
  let ?w = "w\<lparr>entropy_pos := entropy_pos w + 4\<rparr>"
  obtain p' e where c: "run_state (store_CreateProducer S (new_producer req (next_producer_id w))) ?w = ((p', e), w')"
    using run False by (auto simp: AdminServer_CreateProducer_def NewAdminServer_def run_generateProducerID
        new_producer_def split: prod.splits)
  have "quiet w ?w"
    by (rule quietI [where n = "ticks w" and p = "entropy_pos w + 4" and c = "choice_pos w" and ms = "metrics w"]) simp
  from store_create_producer_keeps(1) [OF service_inv_quiet [OF inv this] next_producer_id_ok False c] show ?thesis .
qed

lemma create_job_type_keeps:
  assumes inv: "service_inv I b w" and run: "run_state (AdminServer_CreateJobType (NewAdminServer S) req) w = (r, w')"
  shows "service_inv I b w'"
proof (cases "create_job_type_request_ProducerId req = [] \<or> create_job_type_request_Name req = []")
  case True
  then have "w' = w" using run by (auto simp: AdminServer_CreateJobType_def split: if_splits)
  with inv show ?thesis by simp
next
  case False
  have I: "I w" using inv by (simp add: service_inv_def)
  note out = create_job_type_outcome [OF I run]
  obtain x where "run_state (store_CreateJobType S (new_job_type req)) w = (x, w')"
    using run False by (auto simp: AdminServer_CreateJobType_def NewAdminServer_def
        new_job_type_def effective_retries_def Let_def split: prod.splits)
  from frame_create_job_type [OF this] have f: "published w' = published w" "tasks w' = tasks w" by simp_all
  have "registry_ok w'"
  proof (cases r)
    case (Inl s)
    then show ?thesis using out False inv by (simp add: service_inv_def registry_ok_def)
  next
    case (Inr resp)
    then obtain t where j: "create_job_type_response_JobType resp = stamped_job_type (new_job_type req) t"
      and m: "map_of (jobTypes w') = (map_of (jobTypes w))(job_type_key (new_job_type req) \<mapsto> create_job_type_response_JobType resp)"
      and p: "map_of (producers w') = map_of (producers w)"
      using out False by auto
    show ?thesis
      using inv False effective_retries_pos unfolding registry_ok_def m p j
      by (auto simp: service_inv_def registry_ok_def new_job_type_def)
  qed
  with out False inv f show ?thesis by (simp add: service_inv_def)
qed

lemma reads_quiet:
  "quietly (AdminServer_GetProducer (NewAdminServer S) req)"
  "quietly (AdminServer_ListProducers (NewAdminServer S))"
  "quietly (AdminServer_ListJobTypes (NewAdminServer S) req')"
  by (simp_all add: AdminServer_GetProducer_def AdminServer_ListProducers_def AdminServer_ListJobTypes_def NewAdminServer_def
      quietlyI frame_lists get_producer_quiet)

text \<open>What a task's body decodes to, if it decodes: its job at the times of the body.\<close>

lemma task_job:
  assumes "good_job j" and "task_of s j t" and "UnmarshalJob (task_Body t) = Inr j'"
  shows "good_job j'"
proof -
  obtain data where d: "marshalJob j = Inr data" "task_Body t = data"
    using assms(2) by (auto simp: task_of_def task_for_def)
  from assms(3) unmarshal_marshalled [OF good_job_encodable [OF assms(1)] d(1)] d(2)
  obtain r c where "j' = j\<lparr>job_RunAt := r, job_CreatedAt := c\<rparr>" by (auto split: option.splits)
  with assms(1) show ?thesis by simp
qed

lemma callback_keeps:
  assumes inv: "service_inv I b w" and B: "backend_of b (callback_backend h)" and t: "t \<in> set (tasks w)"
    and run: "run_state (handleEnqueueCallback h (Inr (task_Body t))) w = (resp, w')"
  shows "service_inv I b w'"
proof (cases "UnmarshalJob (task_Body t)")
  case (Inl e)
  then have "w' = snd (run_state (do { start \<leftarrow> time_now;
      emit (Incr ''jack.callback.count'' [''status:error'', ''reason:unmarshal'']) }) w)"
    using run by (simp add: handleEnqueueCallback_def)
  moreover have "quietly (do { start \<leftarrow> time_now; emit (Incr ''jack.callback.count'' [''status:error'', ''reason:unmarshal'']) })"
    by (intro quietlyI)
  ultimately show ?thesis using service_inv_quiet [OF inv] unfolding quietly_def by blast
next
  case (Inr j')
  obtain j s where "good_job j" "task_of s j t" using inv t by (auto simp: service_inv_def)
  from task_job [OF this Inr] have g: "good_job (j'\<lparr>job_RunAt := clock w (Suc (ticks w))\<rparr>)" by simp
  let ?w1 = "w\<lparr>ticks := ticks w + 2\<rparr>"
  have q1: "quiet w ?w1"
    by (rule quietI [where n = "ticks w + 2" and p = "entropy_pos w" and c = "choice_pos w" and ms = "metrics w"]) simp
  from run_handleEnqueueCallback [OF run Inr] obtain e w2 n ms where
    e: "run_state (backend_Enqueue (callback_backend h) (j'\<lparr>job_RunAt := clock w (Suc (ticks w))\<rparr>)) ?w1 = (e, w2)"
    and w': "w' = w2\<lparr>ticks := n, metrics := ms\<rparr>" by blast
  have "service_inv I b w2" by (rule backend_keeps [OF B service_inv_quiet [OF inv q1] g e])
  moreover have "quiet w2 w'"
    by (rule quietI [where n = n and p = "entropy_pos w2" and c = "choice_pos w2" and ms = ms]) (simp add: w')
  ultimately show ?thesis by (rule service_inv_quiet)
qed

end

context deployment begin

lemma serve_keeps:
  assumes inv: "service_inv I b w" and ok: "rpc_ok req" and run: "run_state (serve (wire ext cfg S B sched) req) w = (resp, w')"
  shows "service_inv I b w'"
proof (cases req)
  case (RpcEnqueue ctx r)
  obtain x where "run_state (Server_Enqueue (svc_server (wire ext cfg S B sched)) ctx r) w = (x, w')"
    using run by (auto simp: RpcEnqueue run_reply split: prod.splits)
  then show ?thesis using enqueueing.enqueue_keeps [OF inv] ok by (simp add: RpcEnqueue)
next
  case (RpcEnqueueBulk ctx r)
  obtain x where "run_state (Server_EnqueueBulk (svc_server (wire ext cfg S B sched)) ctx r) w = (x, w')"
    using run by (auto simp: RpcEnqueueBulk run_reply split: prod.splits)
  then show ?thesis using enqueueing.enqueue_bulk_keeps [OF inv] ok by (simp add: RpcEnqueueBulk list_all_iff)
next
  case (RpcCreateProducer r)
  then show ?thesis using run create_producer_keeps [OF inv] by (auto simp: run_reply split: prod.splits)
next
  case (RpcCreateJobType r)
  then show ?thesis using run create_job_type_keeps [OF inv] by (auto simp: run_reply split: prod.splits)
next
  case (RpcGetProducer r)
  then show ?thesis using run service_inv_quiet [OF inv quietlyD [OF reads_quiet(1)]] by (auto simp: run_reply split: prod.splits)
next
  case RpcListProducers
  then show ?thesis using run service_inv_quiet [OF inv quietlyD [OF reads_quiet(2)]] by (auto simp: run_reply split: prod.splits)
next
  case (RpcListJobTypes r)
  then show ?thesis using run service_inv_quiet [OF inv quietlyD [OF reads_quiet(3)]] by (auto simp: run_reply split: prod.splits)
qed

lemma step_keeps:
  assumes "service_step (wire ext cfg S B sched) w w'" and inv: "service_inv I b w"
  shows "service_inv I b w'"
  using assms(1)
proof (cases rule: service_step.cases)
  case (serves req resp)
  then show ?thesis using serve_keeps [OF inv] by blast
next
  case (delivers t hr)
  have "backend_of b (callback_backend (svc_callback (wire ext cfg S B sched)))" by (simp add: backend)
  from callback_keeps [OF inv this delivers] show ?thesis .
qed

lemma reachable_keeps: "reachable (wire ext cfg S B sched) w w' \<Longrightarrow> service_inv I b w \<Longrightarrow> service_inv I b w'"
  by (induction rule: rtranclp_induct) (auto intro: step_keeps)

end

text \<open>The two deployments the configuration documents: in production, and with nothing configured.\<close>

interpretation production: deployment "gcs_store lib gc" "gcs_inv lib" ext cfg "legacy_pubsub ts"
    "pubsub_queue pe (legacy_pubsub ts)" "cloud_tasks ce s"
  for lib gc ext cfg ts pe ce s
  by unfold_locales (auto simp: backend_of_def scheduler_of_def)

interpretation default_wiring: deployment "memory_store pb" store_inv ext cfg b "noop_queue n" NewNoopScheduler
  for pb ext cfg b n
  by unfold_locales (auto simp: backend_of_def scheduler_of_def)

section \<open>What \<open>main\<close> starts\<close>

lemma NewPubSubBackend_adapter: "NewPubSubBackend ce c = Inr b \<Longrightarrow> Adapter c = Some a \<Longrightarrow> adapter b = a"
  by (auto simp: NewPubSubBackend_def split: if_splits option.splits)

lemma init_backend_of: "init_backend ext cfg = Inr B \<Longrightarrow> \<exists>b. backend_of b B"
proof (cases "QueueBackend cfg = ''pubsub''")
  case True
  assume "init_backend ext cfg = Inr B"
  with True obtain c b where "NewPubSubBackend (ext_pubsub_error ext) c = Inr b" "Adapter c = Some LegacyAdapter_Marshal"
    "B = pubsub_queue (ext_pubsub_close ext) b" by (auto simp: init_backend_def main_pubsub_def split: sum.splits)
  then show ?thesis unfolding backend_of_def using NewPubSubBackend_adapter by blast
next
  case False
  assume "init_backend ext cfg = Inr B"
  with False show ?thesis by (auto simp: init_backend_def backend_of_def split: if_splits)
qed

lemma init_scheduler_of: "init_scheduler ext cfg = Inr sched \<Longrightarrow> scheduler_of sched"
  unfolding init_scheduler_def scheduler_of_def by (auto split: if_splits sum.splits)

lemma init_store_of:
  "run_state (init_store ext cfg) w = (Inr S, w') \<Longrightarrow>
     S = memory_store (gcs_pb (ext_lib ext)) \<or> S = gcs_store (ext_lib ext) (main_gcs cfg)"
  unfolding init_store_def by (auto split: if_splits prod.splits option.splits)

lemma main_init_wires:
  fixes w :: "'a tasks_world_scheme"
  assumes "run_state (main_init ext cfg) w = (Inr svc, w')"
  obtains S b B sched where "svc = wire ext cfg S B sched" and "backend_of b B" and "scheduler_of sched"
    and "S = memory_store (gcs_pb (ext_lib ext)) \<or> S = gcs_store (ext_lib ext) (main_gcs cfg)"
proof -
  obtain r v where st: "run_state (init_store ext cfg) w = (r, v)" by fastforce
  from assms st obtain S B sched where s: "r = Inr S" "init_backend ext cfg = Inr B" "init_scheduler ext cfg = Inr sched"
    "svc = wire ext cfg S B sched"
    by (auto simp: main_init_def split: sum.splits)
  obtain b where "backend_of b B" using init_backend_of [OF s(2)] by blast
  with that s init_scheduler_of [OF s(3)] init_store_of [of ext cfg w S v] st show ?thesis by blast
qed

lemma deployment_intro:
  assumes "deployed_store S I" and "backend_of b B" and "scheduler_of sched"
  shows "deployment S I b B sched"
  using assms by (intro deployment.intro deployment_axioms.intro)

lemma service_reaches:
  fixes w :: "'a tasks_world_scheme"
  assumes init: "run_state (main_init ext cfg) w0 = (Inr svc, w1)"
    and w1: "store_inv w1" "foreign_errors (ext_lib ext) w1" "registry_ok w1" "published w1 = []" "tasks w1 = []"
    and reach: "reachable svc w1 w"
  shows "\<exists>b. store_inv w \<and> service_inv (\<lambda>_. True) b w"
proof -
  obtain S b B sched where svc: "svc = wire ext cfg S B sched" and B: "backend_of b B" "scheduler_of sched"
    and S: "S = memory_store (gcs_pb (ext_lib ext)) \<or> S = gcs_store (ext_lib ext) (main_gcs cfg)"
    using main_init_wires [OF init] .
  have inv1: "service_inv I b w1" if "I w1" for I using w1 that by (simp add: service_inv_def)
  from S show ?thesis
  proof
    assume "S = memory_store (gcs_pb (ext_lib ext))"
    then have "deployment S store_inv b B sched" using deployment_intro [OF mem_deployed.deployed_store_axioms B] by simp
    from deployment.reachable_keeps [OF this reach [unfolded svc] inv1 [where I = store_inv, OF w1(1)]] show ?thesis
      unfolding service_inv_def by blast
  next
    assume "S = gcs_store (ext_lib ext) (main_gcs cfg)"
    then have "deployment S (gcs_inv (ext_lib ext)) b B sched"
      using deployment_intro [OF gcs_deployed.deployed_store_axioms B] by simp
    moreover have "gcs_inv (ext_lib ext) w1" using w1 by (simp add: gcs_inv_def)
    ultimately show ?thesis
      using deployment.reachable_keeps [OF _ reach [unfolded svc] inv1 [where I = "gcs_inv (ext_lib ext)"]] unfolding service_inv_def gcs_inv_def by blast
  qed
qed

text \<open>With colon-free ids of producers, a job type is found under its own producer and name only.\<close>

lemma registry_lookup:
  assumes inv: "store_inv w" and reg: "registry_ok w" and i: "map_of (producers w) i \<noteq> None"
    and j: "map_of (jobTypes w) (jobTypeKey i n) = Some j"
  shows "job_type_ProducerId j = i \<and> job_type_Name j = n"
proof -
  have k: "jobTypeKey (job_type_ProducerId j) (job_type_Name j) = jobTypeKey i n"
    "map_of (producers w) (job_type_ProducerId j) \<noteq> None"
    using inv map_of_SomeD [OF j] by (auto simp: store_inv_def job_type_key_def)
  have "producer_id_ok i" "producer_id_ok (job_type_ProducerId j)" using reg i k(2) by (auto simp: registry_ok_def)
  then have "colon_free (job_type_ProducerId j)" "colon_free i" by (simp_all add: producer_id_ok_colon_free)
  from split_at_colon [OF this] k(1) show ?thesis by (simp add: jobTypeKey_def)
qed


section \<open>Properties\<close>

text \<open>
  C21. In every world the service reaches, a registered producer's lookup of a job type
  answers with the job type of that very producer and name: the colon of the joint key
  is no source of confusion between the producers the service registers.
\<close>

lemma routing_is_unambiguous:
  fixes w :: "'a tasks_world_scheme"
  assumes "run_state (main_init ext cfg) w0 = (Inr svc, w1)"
    and "store_inv w1" and "foreign_errors (ext_lib ext) w1" and "registry_ok w1" and "published w1 = []" and "tasks w1 = []"
    and "reachable svc w1 w"
    and "map_of (producers w) i \<noteq> None" and "run_state (store_GetJobType (svc_store svc) i n) w = (Inr j, w')"
  shows "job_type_ProducerId j = i \<and> job_type_Name j = n"
proof -
  obtain S b B sched where svc: "svc = wire ext cfg S B sched"
    and S: "S = memory_store (gcs_pb (ext_lib ext)) \<or> S = gcs_store (ext_lib ext) (main_gcs cfg)"
    using main_init_wires [OF assms(1)] .
  have "map_of (jobTypes w) (jobTypeKey i n) = Some j"
    using assms(9) S by (auto simp: svc wire_def memory_store_def gcs_store_def run_GCSStore_reads run_MemoryStore_reads
        split: option.splits)
  moreover from service_reaches [OF assms(1-7)] have "store_inv w" "registry_ok w" by (auto simp: service_inv_def)
  ultimately show ?thesis using registry_lookup assms(8) by blast
qed

section \<open>Witnesses\<close>

definition sample_externals :: externals where
  "sample_externals = \<lparr>ext_lib = sample_total_lib, ext_statsd_error = None, ext_gcs_error = None, ext_pubsub_error = None,
     ext_tasks_error = None, ext_pubsub_close = None, ext_tasks_close = None, ext_statsd_close = None\<rparr>"

definition sample_config :: config where
  "sample_config = \<lparr>GRPCPort = 50051, DatadogStatsdAddr = [], GCSBucket = [], GCSPrefix = [],
     QueueBackend = ''pubsub'', PubSubProject = ''p'', PubSubTopicHigh = [], PubSubTopicMedium = ''jobs'', PubSubTopicLow = [],
     PubSubTopicImmediate = [], CloudTasksProject = ''p'', CloudTasksLocation = ''l'', CloudTasksQueue = ''q'',
     CallbackBaseURL = ''http://jack/'', CloudTasksServiceAccount = [], ScheduleThreshold = minute,
     LegacyPayloadQueueRouting = False\<rparr>"

definition sample_service :: "tasks_world service" where
  "sample_service = wire sample_externals sample_config (memory_store sample_pb)
     (pubsub_queue None (legacy_pubsub [(PriorityMedium, ''jobs'')]))
     (cloud_tasks None \<lparr>ct_queuePath = ''projects/p/locations/l/queues/q'',
        ct_callbackURL = ''http://jack/internal/callback/enqueue'', ct_saEmail = [], ct_pb = sample_pb\<rparr>)"

lemma trim_sample: "trim_right_slashes ''http://jack/'' = ''http://jack''"
  by (simp add: trim_right_slashes_def)

lemma sample_init: "run_state (main_init sample_externals sample_config) sample_tasks_world = (Inr sample_service, sample_tasks_world)"
proof -
  have "sample_tasks_world\<lparr>producers := [], jobTypes := []\<rparr> = sample_tasks_world" by (simp add: sample_tasks_world_def)
  then show ?thesis
    by (simp add: main_init_def init_statsd_def init_store_def init_backend_def main_pubsub_def init_scheduler_def main_cloud_tasks_def sample_externals_def
        sample_config_def NewPubSubBackend_def NewCloudTasksScheduler_def NewMemoryStore_def trim_sample add_topic_def
        legacy_pubsub_def sample_service_def sample_total_lib_def sample_lib_def)
qed

lemma sample_start:
  "store_inv sample_tasks_world" "foreign_errors (ext_lib sample_externals) sample_tasks_world" "registry_ok sample_tasks_world"
  "published sample_tasks_world = []" "tasks sample_tasks_world = []"
  by (simp_all add: sample_tasks_world_def store_inv_def foreign_errors_def sample_externals_def sample_total_lib_def
      registry_ok_def)

definition sample_world_1 :: tasks_world where
  "sample_world_1 = snd (run_state (serve sample_service (RpcCreateProducer sample_create_producer)) sample_tasks_world)"

definition sample_world_2 :: tasks_world where
  "sample_world_2 = snd (run_state (serve sample_service
     (RpcCreateJobType (sample_create_job_type\<lparr>create_job_type_request_ProducerId := ''prod_00000000''\<rparr>))) sample_world_1)"

lemma sample_reachable: "reachable sample_service sample_tasks_world sample_world_2"
proof -
  have 1: "service_step sample_service sample_tasks_world sample_world_1"
    unfolding sample_world_1_def by (rule serves [OF _ prod.collapse [symmetric]]) simp
  have 2: "service_step sample_service sample_world_1 sample_world_2"
    unfolding sample_world_2_def by (rule serves [OF _ prod.collapse [symmetric]]) simp
  show ?thesis by (rule rtranclp.rtrancl_into_rtrancl [OF r_into_rtranclp [of "service_step sample_service", OF 1] 2])
qed

lemma sample_next_id: "next_producer_id sample_tasks_world = ''prod_00000000''"
proof -
  have "[0..<4] = [0, 1, 2, 3 :: nat]" by (simp add: upt_rec)
  then show ?thesis by (simp add: next_producer_id_def sample_tasks_world_def hex_encode_def hex_digit_def)
qed

lemma sample_producers: "producers sample_world_1 = [(''prod_00000000'', stamped_producer
     (new_producer sample_create_producer ''prod_00000000'') (ts_new sample_pb 0))]" "jobTypes sample_world_1 = []"
  by (simp_all add: sample_world_1_def run_reply sample_service_def AdminServer_CreateProducer_def NewAdminServer_def
      sample_create_producer_def run_generateProducerID sample_next_id memory_store_def run_MemoryStore_CreateProducer
      new_producer_def Let_def) (simp_all add: sample_tasks_world_def)

lemma sample_lookup:
  "\<exists>j. run_state (store_GetJobType (svc_store sample_service) ''prod_00000000'' ''mail'') sample_world_2 = (Inr j, sample_world_2)"
  "map_of (producers sample_world_2) ''prod_00000000'' \<noteq> None"
  by (simp_all add: sample_world_2_def run_reply sample_service_def AdminServer_CreateJobType_def NewAdminServer_def
      sample_create_job_type_def memory_store_def run_MemoryStore_CreateJobType run_MemoryStore_reads job_type_key_def
      stamped_job_type_def sample_producers jobTypeKey_def Let_def wire_def)

lemma routing_is_unambiguous_witness:
  "\<exists>j. run_state (store_GetJobType (svc_store sample_service) ''prod_00000000'' ''mail'') sample_world_2 = (Inr j, sample_world_2)
     \<and> job_type_ProducerId j = ''prod_00000000'' \<and> job_type_Name j = ''mail''"
proof -
  obtain j where j: "run_state (store_GetJobType (svc_store sample_service) ''prod_00000000'' ''mail'') sample_world_2 = (Inr j, sample_world_2)"
    using sample_lookup(1) by blast
  with routing_is_unambiguous [OF sample_init sample_start sample_reachable sample_lookup(2) j] show ?thesis by blast
qed

end
