(* ===== verification/TaskSize.thy ===== *)
theory TaskSize
  imports CloudTasks
begin

text \<open>
  How long the body of a task is, from above: the texts of a job at most sixfold, its
  payload in base64 and less than a thousand bytes around them. With the limit of
  internal/scheduler/cloudtasks.go this tells which jobs can always be scheduled.
\<close>


section \<open>Lengths of encoded values\<close>

lemma length_quote_body: "length (quote_body s) \<le> 6 * length s"
proof (induction s rule: quote_body.induct)
  case (1 s)
  show ?case
  proof (cases s)
    case Nil
    then show ?thesis by (simp add: quote_body.simps)
  next
    case (Cons c cs)
    note IH = "1.IH" [OF Cons]
    consider "ord c < 128" | "128 \<le> ord c" "utf8_size s = 0"
      | "128 \<le> ord c" "utf8_size s \<noteq> 0" "is_line_sep s" | "128 \<le> ord c" "utf8_size s \<noteq> 0" "\<not> is_line_sep s"
      by linarith
    then show ?thesis
    proof cases
      case 1
      moreover have "length (escape_ascii c) \<le> 6" by (simp add: escape_ascii_def)
      ultimately show ?thesis using IH(1) by (subst quote_body.simps) (simp add: Cons)
    next
      case 2
      then show ?thesis using IH(2) by (subst quote_body.simps) (simp add: Cons del: utf8_size.simps)
    next
      case 3
      then have "3 \<le> length s" by (auto simp: is_line_sep_def split: list.splits)
      then show ?thesis using 3 IH(3) by (subst quote_body.simps) (simp add: Cons del: utf8_size.simps)
    next
      case 4
      have "length (take (utf8_size s) s) + 6 * length (drop (utf8_size s) s) \<le> 6 * length s"
        by (cases "length s \<le> utf8_size s") (simp_all, linarith?)
      then show ?thesis using 4 IH(4) by (subst quote_body.simps) (simp add: Cons del: utf8_size.simps)
    qed
  qed
qed

lemma length_enc_string: "length (enc_string s) \<le> 6 * length s + 2"
  using length_quote_body [of s] by (simp add: enc_string_def quote_string_def)

lemma length_enc_int: "is_int64 i \<Longrightarrow> length (enc_int i) \<le> 20"
  using length_show_nat [of "nat i" 19] length_show_nat [of "nat (- i)" 19]
  by (auto simp: enc_int_def show_int_def is_int64_def nat_less_iff)

lemma length_enc_bool: "length (enc_bool b) \<le> 5"
  by (simp add: enc_bool_def)

lemma length_enc_bytes: "length (enc_bytes b) \<le> 4 * ((slice_len b + 2) div 3) + 4"
  by (cases b) (simp_all add: enc_bytes_def length_b64_encode)

lemma length_append_int: "0 \<le> x \<Longrightarrow> x < 10 ^ w \<Longrightarrow> 0 < w \<Longrightarrow> length (append_int x w) = w"
  using pad_nat_facts(1) [of "nat x" w] by (simp add: append_int_def nat_less_iff)

lemma length_frac_text: "0 \<le> ns \<Longrightarrow> ns < nanos_per_second \<Longrightarrow> length (frac_text ns) \<le> 10"
  using pad_nat_facts(1) [of "nat ns" 9]
  by (auto simp: frac_text_def strip_zeros_def nanos_per_second_def nat_less_iff intro: order_trans [OF length_dropWhile_le])

lemma length_format: "year_ok t \<Longrightarrow> length (format_rfc3339nano t) \<le> 30"
proof -
  assume ok: "year_ok t"
  obtain y m d where c: "civil_of_day (t div nanos_per_second div 86400 + unix_epoch_day) = (y, m, d)"
    by (metis prod_cases3)
  note cc = civil_of_day_correct [OF c]
  define sod where "sod = t div nanos_per_second mod 86400"
  have y: "0 \<le> y" "y < 10 ^ 4" using ok c by (simp_all add: year_ok_def year_of_def)
  have md: "0 \<le> m" "m < 10 ^ 2" "0 \<le> d" "d < 10 ^ 2" using cc(2,3,4,6) by simp_all
  have sod: "0 \<le> sod" "sod < 86400" by (simp_all add: sod_def)
  have hm: "0 \<le> sod div 3600" "0 \<le> sod mod 3600 div 60" "0 \<le> sod mod 60" using sod(1) by simp_all
  have "sod div 3600 < 10 ^ 2" using sod by (simp add: div_less_iff_less_mult)
  moreover have "sod mod 3600 < 3600" "sod mod 60 < 60" by simp_all
  then have "sod mod 3600 div 60 < 10 ^ 2" "sod mod 60 < 10 ^ 2" by (simp_all add: div_less_iff_less_mult)
  moreover have "length (frac_text (t mod nanos_per_second)) \<le> 10"
    by (rule length_frac_text) (simp_all add: nanos_per_second_def)
  ultimately show ?thesis
    unfolding format_parts [OF c] sod_def [symmetric]
    using length_append_int [OF y] length_append_int [OF md(1,2)] length_append_int [OF md(3,4)]
      length_append_int [OF hm(1)] length_append_int [OF hm(2)] length_append_int [OF hm(3)] by simp
qed

lemma length_json_fields:
  "length (json_fields kvs) \<le> sum_list (map (\<lambda>(k, v). length (quote_string k) + length v + 2) kvs)"
  by (induction kvs rule: json_fields.induct) auto

lemma key_lengths:
  "length (quote_string ''id'') = 4" "length (quote_string ''producer_id'') = 13" "length (quote_string ''type'') = 6"
  "length (quote_string ''priority'') = 10" "length (quote_string ''payload'') = 9" "length (quote_string ''run_at'') = 8"
  "length (quote_string ''trace_id'') = 10" "length (quote_string ''max_retries'') = 13"
  "length (quote_string ''created_at'') = 12" "length (quote_string ''shadow'') = 8"
  by code_simp+


section \<open>The body of a task\<close>

definition scheduled_members :: "scheduledJob \<Rightarrow> (string \<times> string) list" where
  "scheduled_members s =
     [(''id'', enc_string (sj_ID s)), (''producer_id'', enc_string (sj_ProducerID s)), (''type'', enc_string (sj_Type s)),
      (''priority'', enc_int (sj_Priority s)), (''payload'', enc_bytes (sj_Payload s)), (''run_at'', enc_string (sj_RunAt s)),
      (''trace_id'', enc_string (sj_TraceID s)), (''max_retries'', enc_int (sj_MaxRetries s)),
      (''created_at'', enc_string (sj_CreatedAt s)), (''shadow'', enc_bool (sj_Shadow s))]"

lemma encode_members: "encode_scheduledJob s = json_object (scheduled_members s)"
  by (simp only: encode_scheduledJob_def scheduled_members_def)

definition body_size_bound :: "job \<Rightarrow> nat" where
  "body_size_bound j = 6 * (length (job_ID j) + length (job_ProducerID j) + length (job_Type j) + length (job_TraceID j))
     + 4 * ((slice_len (job_Payload j) + 2) div 3) + 1000"

lemma body_length_at_most:
  assumes "marshalJob j = Inr data" and "year_ok (job_RunAt j)" and "year_ok (job_CreatedAt j)"
    and "is_int64 (job_Priority j)" and "is_int64 (job_MaxRetries j)"
  shows "length data \<le> body_size_bound j"
proof -
  have times: "length (enc_string (format_rfc3339nano (job_RunAt j))) \<le> 182"
    "length (enc_string (format_rfc3339nano (job_CreatedAt j))) \<le> 182"
    using length_enc_string [of "format_rfc3339nano (job_RunAt j)"] length_format [OF assms(2)]
      length_enc_string [of "format_rfc3339nano (job_CreatedAt j)"] length_format [OF assms(3)] by linarith+
  note ints = length_enc_int [OF assms(4)] length_enc_int [OF assms(5)]
  note texts = length_enc_string [of "job_ID j"] length_enc_string [of "job_ProducerID j"] length_enc_string [of "job_Type j"]
    length_enc_string [of "job_TraceID j"]
  define k where "k = (slice_len (job_Payload j) + 2) div 3"
  note payload = length_enc_bytes [of "job_Payload j", folded k_def]
  have "length data = length (encode_scheduledJob \<lparr>sj_ID = job_ID j, sj_ProducerID = job_ProducerID j, sj_Type = job_Type j,
      sj_Priority = job_Priority j, sj_Payload = job_Payload j, sj_RunAt = format_rfc3339nano (job_RunAt j),
      sj_TraceID = job_TraceID j, sj_MaxRetries = job_MaxRetries j, sj_CreatedAt = format_rfc3339nano (job_CreatedAt j),
      sj_Shadow = job_Shadow j\<rparr>)" (is "_ = length (encode_scheduledJob ?s)")
    using assms(1) by (simp only: marshalJob_def sum.inject) (metis length_string_bytes(1))
  also have "\<dots> \<le> 2 + sum_list (map (\<lambda>(k, v). length (quote_string k) + length v + 2) (scheduled_members ?s))"
    unfolding encode_members json_object_def using length_json_fields [of "scheduled_members ?s"] by simp
  also have "\<dots> \<le> body_size_bound j"
    using times ints texts length_enc_bool [of "job_Shadow j"] payload
    unfolding scheduled_members_def body_size_bound_def list.map sum_list.Cons sum_list.Nil prod.case scheduledJob.select_convs
      key_lengths k_def [symmetric] distrib_left by linarith
  finally show ?thesis .
qed

end
