(* ===== verification/Delivery.thy ===== *)
theory Delivery
  imports Service TaskSize
begin

text \<open>
  From a request to a message: what a single call, a bulk call and the delivery of a task
  do in the production wiring (GCS store, Pub/Sub, Cloud Tasks), and what is lost in the
  wirings that fall back to a no-op component.
\<close>


section \<open>The production wiring\<close>

abbreviation production_backend :: "(priority, string) gomap \<Rightarrow> 'a tasks_world_scheme backend" where
  "production_backend ts \<equiv> pubsub_queue None (legacy_pubsub ts)"

abbreviation production_service :: "externals \<Rightarrow> config \<Rightarrow> gcs_lib \<Rightarrow> gcs_config \<Rightarrow> (priority, string) gomap
    \<Rightarrow> cloudtasks_scheduler \<Rightarrow> 'a tasks_world_scheme service" where
  "production_service ext cfg lib gc ts s \<equiv>
     wire ext cfg (gcs_store lib gc) (production_backend ts) (cloud_tasks None s)"

lemma production_quiet:
  fixes B :: "'a tasks_world_scheme backend"
  shows "quiet_server (svc_server (wire ext cfg (gcs_store lib gc) B sched))"
  by (rule gcs_deployed.quiet_server) simp

lemma quiet_fields:
  fixes w w' :: "'a tasks_world_scheme"
  assumes "quiet w w'"
  shows "published w' = published w" and "tasks w' = tasks w" and "publish_errors w' = publish_errors w"
    and "producers w' = producers w" and "jobTypes w' = jobTypes w" and "task_faults w' = task_faults w"
    and "task_calls w' = task_calls w" and "clock w' = clock w"
  using assms by (auto simp: quiet_def)

text \<open>A job handed to Pub/Sub or to Cloud Tasks and reported as accepted.\<close>

definition sent :: "'a tasks_world_scheme pubsub_backend \<Rightarrow> job \<Rightarrow> 'a tasks_world_scheme \<Rightarrow> 'a tasks_world_scheme \<Rightarrow> bool" where
  "sent b j w w' \<longleftrightarrow> tasks w' = tasks w
     \<and> (\<exists>m. published w' = published w @ [m] \<and> message_for b j m \<and> publish_errors w (length (published w)) = None)"

definition scheduled :: "cloudtasks_scheduler \<Rightarrow> job \<Rightarrow> 'a tasks_world_scheme \<Rightarrow> 'a tasks_world_scheme \<Rightarrow> bool" where
  "scheduled s j w w' \<longleftrightarrow> published w' = published w \<and> (\<exists>t. tasks w' = tasks w @ [t] \<and> task_of s j t)"

text \<open>A job Pub/Sub did not take: nothing was published, or a message it never confirmed.\<close>

definition not_sent :: "'a tasks_world_scheme \<Rightarrow> 'a tasks_world_scheme \<Rightarrow> bool" where
  "not_sent w w' \<longleftrightarrow> tasks w' = tasks w \<and> (published w' = published w
     \<or> (\<exists>m. published w' = published w @ [m] \<and> publish_errors w (length (published w)) \<noteq> None))"

lemma not_sent_quiet: "quiet u v \<Longrightarrow> not_sent v v' \<Longrightarrow> quiet v' w \<Longrightarrow> not_sent u w"
  by (simp add: not_sent_def quiet_fields)

lemma sent_quiet: "quiet u v \<Longrightarrow> sent b j v v' \<Longrightarrow> quiet v' w \<Longrightarrow> sent b j u w"
  by (simp add: sent_def quiet_fields)

lemma scheduled_quiet: "quiet u v \<Longrightarrow> scheduled s j v v' \<Longrightarrow> quiet v' w \<Longrightarrow> scheduled s j u w"
  by (simp add: scheduled_def quiet_fields)

lemma production_publishes:
  assumes "run_state (backend_Enqueue (production_backend ts) j) w = (None, w')"
  shows "sent (legacy_pubsub ts) j w w'"
proof -
  have "run_state (PubSubBackend_Enqueue (legacy_pubsub ts) j) w = (None, w')" using assms by (simp add: pubsub_queue_def)
  from PubSubBackend_Enqueue_effect [OF _ this] show ?thesis by (auto simp: sent_def)
qed

lemma production_refuses:
  assumes "run_state (backend_Enqueue (production_backend ts) j) w = (Some e, w')"
  shows "not_sent w w'"
proof -
  have "run_state (PubSubBackend_Enqueue (legacy_pubsub ts) j) w = (Some e, w')" using assms by (simp add: pubsub_queue_def)
  from PubSubBackend_Enqueue_effect [OF _ this] show ?thesis by (auto simp: not_sent_def)
qed

lemma production_schedules:
  assumes "run_state (scheduler_Schedule (cloud_tasks ce s) j) w = (None, w')"
  shows "scheduled s j w w'"
proof -
  have "run_state (CloudTasksScheduler_Schedule s j) w = (None, w')" using assms by (simp add: cloud_tasks_def)
  from CloudTasksScheduler_Schedule_effect [OF this] show ?thesis by (auto simp: scheduled_def)
qed

lemma enqueue_answer_cases:
  "enqueue_answer r ws j future e = Inr resp \<longleftrightarrow> e = None \<and> enqueue_response_JobId resp = job_ID j
     \<and> enqueue_response_ErrorMessages resp = ws \<and> enqueue_response_CorrelationId resp = enqueue_request_CorrelationId r"
  "enqueue_answer r ws j future e \<noteq> Inl (RpcStatus InvalidArgument m)"
  by (cases resp; auto simp: enqueue_answer_def split: option.splits) (auto simp: enqueue_answer_def split: option.splits)

lemma production_accepts_job:
  fixes w :: "'a tasks_world_scheme"
  assumes srv: "srv = svc_server (production_service ext cfg lib gc ts s)"
    and run: "run_state (Server_Enqueue srv ctx r) w = (Inr resp, w')"
  shows "\<exists>j u u'. server_job srv (shadowFromContext ctx) (clock w) r j
    \<and> quiet w u \<and> u = w\<lparr>ticks := Suc (ticks w)\<rparr>
    \<and> run_state (prepare_job srv (shadowFromContext ctx) r) u = ((enqueue_response_ErrorMessages resp, j), u')
    \<and> job_ID j = enqueue_response_JobId resp \<and> enqueue_response_CorrelationId resp = enqueue_request_CorrelationId r
    \<and> (sent (legacy_pubsub ts) j w w' \<or> scheduled s j w w')"
proof (cases "rejection srv r")
  case (Some m)
  from run_Enqueue_rejected [OF this run] show ?thesis by simp
next
  case None
  have "quiet_server srv" unfolding srv by (rule production_quiet)
  from run_Enqueue_accepted [OF this None run] show ?thesis
  proof (elim exE conjE)
    fix j ws future v e v' u u'
    assume j: "server_job srv (shadowFromContext ctx) (clock w) r j"
      and p: "quiet w u" "u = w\<lparr>ticks := Suc (ticks w)\<rparr>" "run_state (prepare_job srv (shadowFromContext ctx) r) u = ((ws, j), u')"
      and q: "quiet w v" "quiet v' w'" and x: "Inr resp = enqueue_answer r ws j future e"
      and h: "handed_over srv j future v e v'"
    from x have a: "e = None" "job_ID j = enqueue_response_JobId resp" "enqueue_response_ErrorMessages resp = ws"
      "enqueue_response_CorrelationId resp = enqueue_request_CorrelationId r"
      using enqueue_answer_cases(1) [of r ws j future e resp] by auto
    have "sent (legacy_pubsub ts) j v v' \<or> scheduled s j v v'"
      using h a(1) by (auto simp: handed_over_def srv production_publishes production_schedules split: if_splits)
    then have "sent (legacy_pubsub ts) j w w' \<or> scheduled s j w w'" using q sent_quiet scheduled_quiet by blast
    with j p a show ?thesis by blast
  qed
qed

lemma production_accepts:
  fixes w :: "'a tasks_world_scheme"
  assumes "srv = svc_server (production_service ext cfg lib gc ts s)"
    and "run_state (Server_Enqueue srv ctx r) w = (Inr resp, w')"
  shows "\<exists>j. server_job srv (shadowFromContext ctx) (clock w) r j
    \<and> job_ID j = enqueue_response_JobId resp \<and> enqueue_response_CorrelationId resp = enqueue_request_CorrelationId r
    \<and> (sent (legacy_pubsub ts) j w w' \<or> scheduled s j w w')"
  using production_accepts_job [OF assms] by blast

section \<open>Delivery of a task\<close>

lemma production_callback:
  fixes w :: "'a tasks_world_scheme"
  assumes "UnmarshalJob body = Inr j"
    and run: "run_state (handleEnqueueCallback (NewCallbackHandler (production_backend ts)) (Inr body)) w = (resp, w')"
  shows "(http_status resp = 200 \<and> sent (legacy_pubsub ts) (j\<lparr>job_RunAt := clock w (Suc (ticks w))\<rparr>) w w')
    \<or> (http_status resp = 500 \<and> not_sent w w')"
proof -
  let ?j = "j\<lparr>job_RunAt := clock w (Suc (ticks w))\<rparr>"
  let ?w1 = "w\<lparr>ticks := ticks w + 2\<rparr>"
  have q1: "quiet w ?w1"
    by (rule quietI [where n = "ticks w + 2" and p = "entropy_pos w" and c = "choice_pos w" and ms = "metrics w"]) simp
  from run_handleEnqueueCallback [OF run assms(1)] obtain e w2 n ms where
    e: "run_state (backend_Enqueue (production_backend ts) ?j) ?w1 = (e, w2)"
    and w': "w' = w2\<lparr>ticks := n, metrics := ms\<rparr>" and s: "http_status resp = (if e = None then 200 else 500)"
    by (auto simp: NewCallbackHandler_def)
  have q2: "quiet w2 w'"
    by (rule quietI [where n = n and p = "entropy_pos w2" and c = "choice_pos w2" and ms = ms]) (simp add: w')
  show ?thesis
  proof (cases e)
    case None
    with e have "sent (legacy_pubsub ts) ?j ?w1 w2" by (simp add: production_publishes)
    with q1 q2 s None show ?thesis using sent_quiet by auto
  next
    case (Some err)
    with e have "not_sent ?w1 w2" by (simp add: production_refuses)
    with q1 q2 s Some show ?thesis using not_sent_quiet by auto
  qed
qed

text \<open>A job made by a service that \<open>main\<close> wired, from a request whose texts are UTF-8, can be encoded.\<close>

lemma server_job_encodable:
  assumes j: "server_job srv shadow clk r j" and r: "request_ok r"
    and c: "sc_DefaultQueue (srv_config srv) = PriorityMedium" "sc_DefaultMaxRetries (srv_config srv) = 10"
  shows "encodable j"
proof -
  have "list_all (\<lambda>c. (of_char c :: nat) < 128) (job_ID j)"
    using j base62_ascii by (auto simp: server_job_def list_all_iff)
  then have "valid_utf8 (job_ID j)" by (intro valid_utf8_ascii) (simp add: list_all_iff)
  moreover have "known_priority (job_Priority j)" "is_int32 (job_MaxRetries j)"
    using j by (auto simp: server_job_def routed_def c is_int32_def)
  ultimately show ?thesis
    using j r by (auto simp: encodable_def server_job_def job_of_def request_ok_def known_priority_def priority_defs
        is_int64_def is_int32_def)
qed

lemma wired_defaults:
  "sc_DefaultQueue (srv_config (svc_server (wire ext cfg S B sched))) = PriorityMedium"
  "sc_DefaultMaxRetries (srv_config (svc_server (wire ext cfg S B sched))) = 10"
  "sc_MaxPayloadSize (srv_config (svc_server (wire ext cfg S B sched))) = 1048576"
  "sc_ScheduleThreshold (srv_config (svc_server (wire ext cfg S B sched))) = ScheduleThreshold cfg"
  by (simp_all add: main_server_config_def DefaultServerConfig_def)


lemma legacy_backend_succeeds:
  fixes w :: "'a tasks_world_scheme"
  assumes "run_state (backend_Enqueue (production_backend ts) j) w = (e, w')"
  shows "e = None \<longleftrightarrow> (job_Priority j \<in> dom (map_of ts) \<or> PriorityMedium \<in> dom (map_of ts))
     \<and> payload_is_json (job_Payload j) \<and> year_ok (job_RunAt j) \<and> year_ok (job_CreatedAt j) \<and> year_ok (clock w (ticks w))
     \<and> publish_errors w (length (published w)) = None"
  using legacy_enqueue_succeeds [of ts j w] assms by (simp add: pubsub_queue_def)

lemma immediate_accepted:
  fixes w :: "'a tasks_world_scheme"
  assumes "rejection (svc_server (production_service ext cfg lib gc ts s :: 'a tasks_world_scheme service)) r = None"
    and "enqueue_request_RunAt r = None" and "payload_is_json (enqueue_request_Payload r)"
    and "mono (clock w)" and "\<And>n. year_ok (clock w n)" and "PriorityMedium \<in> dom (map_of ts)"
    and "publish_errors w (length (published w)) = None"
    and "run_state (Server_Enqueue (svc_server (production_service ext cfg lib gc ts s)) ctx r) w = (x, w')"
  shows "\<exists>resp. x = Inr resp \<and> (\<exists>m. published w' = published w @ [m])"
proof -
  define srv where "srv = svc_server (production_service ext cfg lib gc ts s :: 'a tasks_world_scheme service)"
  have "quiet_server srv" unfolding srv_def by (rule production_quiet)
  from run_Enqueue_accepted [OF this assms(1) [folded srv_def] assms(8) [folded srv_def]] show ?thesis
  proof (elim exE conjE)
    fix j ws future v e v'
    assume j: "server_job srv (shadowFromContext ctx) (clock w) r j" and q: "quiet w v" "quiet v' w'"
      and h: "handed_over srv j future v e v'" and x: "x = enqueue_answer r ws j future e"
      and due: "enqueue_request_RunAt r = None \<longrightarrow> (\<exists>m n. m < n \<and> job_RunAt j = clock v m \<and> future = far_ahead srv j (clock v n))"
    note v = quiet_fields [OF q(1)]
    obtain m n where "m < n" "job_RunAt j = clock w m" "future = far_ahead srv j (clock w n)"
      using due assms(2) by (auto simp: v(8))
    moreover have "clock w m \<le> clock w n" using assms(4) \<open>m < n\<close> by (simp add: monoD)
    ultimately have "\<not> future" by (auto simp: far_ahead_def time_sub_def min_duration_def)
    then have run: "run_state (backend_Enqueue (production_backend ts) j) v = (e, v')"
      using h by (simp add: handed_over_def srv_def)
    have "job_Payload j = enqueue_request_Payload r" using j by (simp add: server_job_def job_of_def)
    moreover have "year_ok (job_RunAt j)" "year_ok (job_CreatedAt j)" using j assms(2,5) by (auto simp: server_job_def)
    ultimately have "e = None"
      using legacy_backend_succeeds [OF run] assms(3,5,6,7) by (simp add: v)
    moreover from this have "sent (legacy_pubsub ts) j v v'" using run by (simp add: production_publishes)
    then have "\<exists>m. published w' = published w @ [m]" by (auto simp: sent_def v quiet_fields [OF q(2)])
    ultimately show ?thesis using x by (simp add: enqueue_answer_def)
  qed
qed


lemma prepared_id_length:
  assumes q: "quiet_server srv" and run: "run_state (prepare_job srv shadow r) w = ((ws, j), w')"
    and c: "\<And>n. 0 \<le> clock w n \<and> clock w n < 2 ^ 47 * 1000000"
  shows "length (job_ID j) = 32"
proof -
  obtain ws0 w1 where 1: "run_state (check_producer srv (enqueue_request_ProducerId r)) w = (ws0, w1)" by fastforce
  obtain p n warning w2 where 2: "run_state (routingConfig srv (enqueue_request_ProducerId r) (enqueue_request_JobType r)
      (enqueue_request_Payload r)) w1 = ((p, n, warning), w2)" by (metis prod_cases3 surj_pair)
  have "clock w2 = clock w"
    using quietlyD [OF quietly_check_producer [OF q] 1] quietlyD [OF quietly_routingConfig [OF q] 2] by (simp add: quiet_env)
  moreover obtain i w3 where 3: "run_state (generate (enqueue_request_ProducerId r) (enqueue_request_JobType r)) w2 = (i, w3)" by fastforce
  moreover have "job_ID j = i" using run 1 2 3 by (auto simp: prepare_job_def Let_def)
  ultimately show ?thesis
    using length_generate [of w2 "enqueue_request_ProducerId r" "enqueue_request_JobType r"] c [of "ticks w2"] by simp
qed

lemma future_accepted:
  fixes w :: "'a tasks_world_scheme"
  assumes srv_def: "srv = svc_server (production_service ext cfg lib gc ts s :: 'a tasks_world_scheme service)"
    and ok: "rejection srv r = None" and x: "enqueue_request_RunAt r = Some x"
    and T: "0 < ScheduleThreshold cfg" "is_duration (ScheduleThreshold cfg)"
    and due: "\<And>n. clock w n + ScheduleThreshold cfg \<le> as_time (gcs_pb (ext_lib ext)) x"
    and years: "\<And>n. year_ok (clock w n)" "year_ok (as_time (gcs_pb (ext_lib ext)) x)"
    and c: "\<And>n. 0 \<le> clock w n \<and> clock w n < 2 ^ 47 * 1000000"
    and size: "6 * (length (enqueue_request_ProducerId r) + length (enqueue_request_JobType r) + length (enqueue_request_TraceId r))
      + 4 * ((slice_len (enqueue_request_Payload r) + 2) div 3) + 1192 \<le> MaxTaskBodySize"
    and task: "task_faults w (task_calls w) = None"
    and run: "run_state (Server_Enqueue srv ctx r) w = (a, w')"
  shows "\<exists>resp. a = Inr resp \<and> published w' = published w \<and> (\<exists>t. tasks w' = tasks w @ [t])"
proof -
  have thr: "sc_ScheduleThreshold (srv_config srv) = ScheduleThreshold cfg" "srv_scheduler srv = Some (cloud_tasks None s)"
    "srv_as_time srv = as_time (gcs_pb (ext_lib ext))"
    by (simp_all add: srv_def main_server_config_def DefaultServerConfig_def) (simp add: wire_def NewServer_def)
  have d: "sc_DefaultQueue (srv_config srv) = PriorityMedium" "sc_DefaultMaxRetries (srv_config srv) = 10"
    unfolding srv_def by (simp_all only: wired_defaults)
  have q: "quiet_server srv" unfolding srv_def by (rule production_quiet)
  from run_Enqueue_accepted [OF q ok run] show ?thesis
  proof (elim exE conjE)
    fix j ws future v e v' u u'
    assume j: "server_job srv (shadowFromContext ctx) (clock w) r j" and q': "quiet w v" "quiet v' w'" "quiet w u"
      and p: "run_state (prepare_job srv (shadowFromContext ctx) r) u = ((ws, j), u')"
      and h: "handed_over srv j future v e v'" and a: "a = enqueue_answer r ws j future e"
    note v = quiet_fields [OF q'(1)] and w' = quiet_fields [OF q'(2)]
    have id: "length (job_ID j) = 32"
      using c by (intro prepared_id_length [OF q p]) (simp add: quiet_fields(8) [OF q'(3)])
    have f: "job_ProducerID j = enqueue_request_ProducerId r" "job_Type j = enqueue_request_JobType r"
      "job_Payload j = enqueue_request_Payload r" "job_TraceID j = enqueue_request_TraceId r"
      "job_RunAt j = as_time (gcs_pb (ext_lib ext)) x"
      using j x thr(3) by (simp_all add: server_job_def job_of_def)
    have "far_ahead srv j (clock v n)" for n
      using T due [of n] by (simp add: v f far_ahead_def thr time_sub_ge_iff min_duration_def is_duration_def)
    then have sch: "future" "run_state (CloudTasksScheduler_Schedule s j) v = (e, v')"
      using h by (auto simp: handed_over_def thr cloud_tasks_def)
    obtain data where m: "marshalJob j = Inr data" using marshalJob_total by blast
    have "known_priority (job_Priority j)" "is_int32 (job_MaxRetries j)"
      using j by (auto simp: server_job_def routed_def d is_int32_def)
    then have "is_int64 (job_Priority j)" "is_int64 (job_MaxRetries j)"
      by (simp_all add: known_priority_def priority_defs is_int64_def is_int32_def)
    moreover have "year_ok (job_CreatedAt j)" using j years(1) by (auto simp: server_job_def)
    ultimately have "length data \<le> body_size_bound j" using body_length_at_most [OF m] years(2) by (simp add: f)
    also have "\<dots> \<le> MaxTaskBodySize" using size by (simp add: body_size_bound_def f id)
    finally have "fst (run_state (CloudTasksScheduler_Schedule s j) v) = None"
      using task by (intro schedule_small [OF m]) (simp_all add: v)
    then have e: "e = None" using sch(2) by simp
    then have "scheduled s j v v'"
      using sch(2) by (intro production_schedules [where ce = None]) (simp add: cloud_tasks_def)
    then show ?thesis using a e by (auto simp: scheduled_def v w' enqueue_answer_def)
  qed
qed

lemma threshold_parts:
  fixes w :: "'a tasks_world_scheme"
  assumes "0 < ScheduleThreshold cfg" and "is_duration (ScheduleThreshold cfg)" and "enqueue_request_RunAt r = Some x"
    and "run_state (Server_Enqueue (svc_server (production_service ext cfg lib gc ts s)) ctx r) w = (Inr resp, w')"
  shows "((\<forall>n. clock w n + ScheduleThreshold cfg \<le> as_time (gcs_pb (ext_lib ext)) x) \<longrightarrow>
      published w' = published w \<and> (\<exists>t. tasks w' = tasks w @ [t]))
    \<and> ((\<forall>n. as_time (gcs_pb (ext_lib ext)) x < clock w n + ScheduleThreshold cfg) \<longrightarrow>
      tasks w' = tasks w \<and> (\<exists>m. published w' = published w @ [m]))"
proof -
  define srv where "srv = svc_server (production_service ext cfg lib gc ts s :: 'a tasks_world_scheme service)"
  note run = assms(4) [folded srv_def]
  have thr: "sc_ScheduleThreshold (srv_config srv) = ScheduleThreshold cfg" "srv_scheduler srv = Some (cloud_tasks None s)"
    "srv_as_time srv = as_time (gcs_pb (ext_lib ext))" "srv_backend srv = production_backend ts"
    by (simp_all add: srv_def main_server_config_def DefaultServerConfig_def) (simp add: wire_def NewServer_def)
  have ok: "rejection srv r = None"
    using run_Enqueue_rejected [OF _ run] by (cases "rejection srv r") auto
  have "quiet_server srv" unfolding srv_def by (rule production_quiet)
  from run_Enqueue_accepted [OF this ok run] show ?thesis
  proof (elim exE conjE)
    fix j ws future v e v'
    assume j: "server_job srv (shadowFromContext ctx) (clock w) r j" and q: "quiet w v" "quiet v' w'"
      and h: "handed_over srv j future v e v'" and a: "Inr resp = enqueue_answer r ws j future e"
    note v = quiet_fields [OF q(1)] and w' = quiet_fields [OF q(2)]
    have "job_RunAt j = as_time (gcs_pb (ext_lib ext)) x"
      using j assms(3) thr(3) by (simp add: server_job_def job_of_def)
    then have far: "far_ahead srv j (clock w n) \<longleftrightarrow> clock w n + ScheduleThreshold cfg \<le> as_time (gcs_pb (ext_lib ext)) x" for n
      using assms(1,2) by (auto simp: far_ahead_def thr time_sub_ge_iff min_duration_def is_duration_def)
    have e: "e = None" using a enqueue_answer_cases(1) [of r ws j future e resp] by simp
    obtain n where n: "future = far_ahead srv j (clock w n)" using h by (auto simp: handed_over_def v)
    have "future \<Longrightarrow> scheduled s j v v'" "\<not> future \<Longrightarrow> sent (legacy_pubsub ts) j v v'"
      using h e thr(2,4) by (auto simp: handed_over_def intro: production_schedules production_publishes)
    then show ?thesis using n unfolding far
      by (cases future) (auto simp: scheduled_def sent_def v w' not_le [symmetric])
  qed
qed


section \<open>Properties\<close>

text \<open>
  C12. A call answered without an error has left exactly one trace: one message, confirmed
  by Pub/Sub, on the topic of the job's priority, or one task that carries the job. The
  id in the answer is the job's, and the job is the request's: its producer, type,
  payload, trace, shadow flag and, when given, its run time.
\<close>

lemma accepted_job_is_durable:
  fixes w :: "'a tasks_world_scheme"
  assumes "run_state (Server_Enqueue (svc_server (production_service ext cfg lib gc ts s)) ctx r) w = (Inr resp, w')"
  shows "\<exists>j. job_of (svc_server (production_service ext cfg lib gc ts s :: 'a tasks_world_scheme service)) (shadowFromContext ctx) r j
    \<and> job_ID j = enqueue_response_JobId resp \<and> enqueue_response_CorrelationId resp = enqueue_request_CorrelationId r
    \<and> (sent (legacy_pubsub ts) j w w' \<or> scheduled s j w w')"
  using production_accepts [OF refl assms] by (auto simp: server_job_def)

text \<open>
  C2. From the request to the topic over Cloud Tasks: the very job the call prepared from the request,
  with its priority, its retries and its times, is what the callback decodes from the task
  later, in whatever world. When the callback answers 200, exactly one message was
  confirmed, for this job with its run time now. Otherwise it answers 500, on which Cloud Tasks tries
  again, and no message was confirmed.
\<close>

lemma scheduled_job_reaches_its_topic:
  fixes w v :: "'a tasks_world_scheme"
  assumes "run_state (Server_Enqueue (svc_server (production_service ext cfg lib gc ts s)) ctx r) w = (Inr resp, w')"
    and "tasks w' = tasks w @ [t]" and "request_ok r"
    and "\<And>n. year_ok (clock w n)" and "\<And>x. enqueue_request_RunAt r = Some x \<Longrightarrow> year_ok (as_time (gcs_pb (ext_lib ext)) x)"
    and "run_state (handleEnqueueCallback (NewCallbackHandler (production_backend ts)) (Inr (task_Body t))) v = (hr, v')"
  shows "\<exists>j w1. run_state (prepare_job (svc_server (production_service ext cfg lib gc ts s)) (shadowFromContext ctx) r)
        (w\<lparr>ticks := Suc (ticks w)\<rparr>) = ((enqueue_response_ErrorMessages resp, j), w1)
    \<and> job_of (svc_server (production_service ext cfg lib gc ts s :: 'a tasks_world_scheme service)) (shadowFromContext ctx) r j
    \<and> job_ID j = enqueue_response_JobId resp
    \<and> UnmarshalJob (task_Body t) = Inr j
    \<and> ((http_status hr = 200 \<and> sent (legacy_pubsub ts) (j\<lparr>job_RunAt := clock v (Suc (ticks v))\<rparr>) v v')
      \<or> (http_status hr = 500 \<and> not_sent v v'))"
proof -
  let ?srv = "svc_server (production_service ext cfg lib gc ts s :: 'a tasks_world_scheme service)"
  from production_accepts_job [OF refl assms(1)] assms(2) obtain j w1 where
    j: "server_job ?srv (shadowFromContext ctx) (clock w) r j" "job_ID j = enqueue_response_JobId resp"
    and p: "run_state (prepare_job ?srv (shadowFromContext ctx) r) (w\<lparr>ticks := Suc (ticks w)\<rparr>) = ((enqueue_response_ErrorMessages resp, j), w1)"
    and "scheduled s j w w'"
    by (auto simp: sent_def)
  then have "task_of s j t" using assms(2) by (auto simp: scheduled_def)
  then have d: "marshalJob j = Inr (task_Body t)" by (auto simp: task_of_def task_for_def)
  have "encodable j" by (rule server_job_encodable [OF j(1) assms(3)]) (simp_all only: wired_defaults)
  moreover have "year_ok (job_CreatedAt j)" using j(1) assms(4) by (auto simp: server_job_def)
  moreover have "year_ok (job_RunAt j)"
    using j(1) assms(4,5) by (cases "enqueue_request_RunAt r") (auto simp: server_job_def job_of_def wire_def NewServer_def)
  ultimately have "UnmarshalJob (task_Body t) = Inr j" using d by (intro unmarshal_marshal)
  from production_callback [OF this assms(6)] this j p show ?thesis by (auto simp: server_job_def)
qed

text \<open>
  C19. A call is answered \<open>InvalidArgument\<close> exactly for a request without producer or type
  or with a payload over the limit, and such a call publishes, schedules and registers nothing.
\<close>

lemma invalid_requests_are_rejected:
  fixes w :: "'a tasks_world_scheme"
  shows "(case run_state (Server_Enqueue (svc_server (production_service ext cfg lib gc ts s)) ctx r) w of (x, w') \<Rightarrow>
    if enqueue_request_ProducerId r = [] \<or> enqueue_request_JobType r = [] \<or> 1048576 < slice_len (enqueue_request_Payload r)
    then (\<exists>m. x = Inl (RpcStatus InvalidArgument m)) \<and> published w' = published w \<and> tasks w' = tasks w
      \<and> producers w' = producers w \<and> jobTypes w' = jobTypes w
    else (\<forall>m. x \<noteq> Inl (RpcStatus InvalidArgument m)))"
proof -
  define srv where "srv = svc_server (production_service ext cfg lib gc ts s :: 'a tasks_world_scheme service)"
  obtain x w' where run: "run_state (Server_Enqueue srv ctx r) w = (x, w')" by fastforce
  have max: "sc_MaxPayloadSize (srv_config srv) = 1048576" by (simp add: srv_def wired_defaults del: wire_simps)
  show ?thesis
  proof (cases "rejection srv r")
    case (Some m)
    with run_Enqueue_rejected [OF this run] show ?thesis
      using run max by (auto simp: rejection_def srv_def [symmetric] quiet_fields split: if_splits)
  next
    case None
    have "quiet_server srv" unfolding srv_def by (rule production_quiet)
    from run_Enqueue_accepted [OF this None run] have "\<forall>m. x \<noteq> Inl (RpcStatus InvalidArgument m)"
      by (elim exE conjE) (simp add: enqueue_answer_cases(2))
    with None show ?thesis using run max by (auto simp: rejection_def srv_def [symmetric] split: if_splits)
  qed
qed

text \<open>
  C31. \<open>Unavailable\<close>, the one status that tells a caller to try again, is never answered in
  production: no backend of this service reports \<open>ErrQueueUnavailable\<close>, so an outage of
  Pub/Sub is answered \<open>Internal\<close>.
\<close>

lemma unavailable_is_never_answered:
  fixes w :: "'a tasks_world_scheme"
  assumes "publish_foreign w"
    and "run_state (Server_Enqueue (svc_server (production_service ext cfg lib gc ts s)) ctx r) w = (Inl st, w')"
  shows "rpc_code st \<noteq> Unavailable"
proof -
  define srv where "srv = svc_server (production_service ext cfg lib gc ts s :: 'a tasks_world_scheme service)"
  note run = assms(2) [folded srv_def]
  show ?thesis
  proof (cases "rejection srv r")
    case (Some m)
    from run_Enqueue_rejected [OF this run] show ?thesis by simp
  next
    case None
    have "quiet_server srv" unfolding srv_def by (rule production_quiet)
    from run_Enqueue_accepted [OF this None run] show ?thesis
    proof (elim exE conjE)
      fix j ws future v e v'
      assume q: "quiet w v" and h: "handed_over srv j future v e v'" and x: "Inl st = enqueue_answer r ws j future e"
      have v: "publish_foreign v" using assms(1) quiet_fields(3) [OF q] by (simp add: publish_foreign_def)
      have "\<not> errors_is err ErrQueueUnavailable" if "e = Some err" "\<not> future" for err
        using h that pubsub.enqueue_available [OF v, where close_error = None]
        by (auto simp: handed_over_def srv_def)
      then show ?thesis using x by (cases e; cases future) (auto simp: enqueue_answer_def)
    qed
  qed
qed

text \<open>
  C32. With no Cloud Tasks configured the no-op scheduler takes the jobs of the future and
  drops them: a valid job due at or after the threshold is answered as accepted although
  nothing is published or scheduled, then or ever.
\<close>

lemma noop_scheduler_drops_jobs:
  fixes w :: "'a tasks_world_scheme"
  assumes "rejection (svc_server (wire ext cfg (gcs_store lib gc) (production_backend ts) NewNoopScheduler :: 'a tasks_world_scheme service)) r = None"
    and "0 < ScheduleThreshold cfg" and "is_duration (ScheduleThreshold cfg)" and "enqueue_request_RunAt r = Some x"
    and "\<And>n. clock w n + ScheduleThreshold cfg \<le> as_time (gcs_pb (ext_lib ext)) x"
    and "run_state (Server_Enqueue (svc_server (wire ext cfg (gcs_store lib gc) (production_backend ts) NewNoopScheduler)) ctx r) w = (a, w')"
  shows "(\<exists>resp. a = Inr resp) \<and> published w' = published w \<and> tasks w' = tasks w"
proof -
  define srv where "srv = svc_server (wire ext cfg (gcs_store lib gc) (production_backend ts) NewNoopScheduler
    :: 'a tasks_world_scheme service)"
  note run = assms(6) [folded srv_def]
  have q: "quiet_server srv" unfolding srv_def by (rule production_quiet)
  have thr: "sc_ScheduleThreshold (srv_config srv) = ScheduleThreshold cfg" "srv_scheduler srv = Some NewNoopScheduler"
    "srv_as_time srv = as_time (gcs_pb (ext_lib ext))"
    by (simp_all add: srv_def main_server_config_def DefaultServerConfig_def) (simp add: wire_def NewServer_def)
  have "quiet_server srv" unfolding srv_def by (rule production_quiet)
  from run_Enqueue_accepted [OF this assms(1) [folded srv_def] run] show ?thesis
  proof (elim exE conjE)
    fix j ws future v e v'
    assume j: "server_job srv (shadowFromContext ctx) (clock w) r j" and q: "quiet w v" "quiet v' w'"
      and h: "handed_over srv j future v e v'" and a: "a = enqueue_answer r ws j future e"
    have "job_RunAt j = as_time (gcs_pb (ext_lib ext)) x"
      using j assms(4) thr(3) by (simp add: server_job_def job_of_def)
    then have "far_ahead srv j (clock v n)" for n
      using assms(2,3) assms(5) [of n] quiet_fields(8) [OF q(1)]
      by (simp add: far_ahead_def thr time_sub_ge_iff min_duration_def is_duration_def)
    then have "e = None \<and> v' = v"
      using h by (auto simp: handed_over_def thr NewNoopScheduler_def NoopScheduler_Schedule_def)
    then show ?thesis using a q by (simp add: enqueue_answer_def quiet_fields)
  qed
qed

interpretation production_bulk: bulk_server "svc_server (wire ext cfg S (pubsub_queue pe b) (cloud_tasks ce s))"
  for ext cfg S pe b ce s
  by (rule bulk_server.intro) (use pubsub_bulk.bulk_contract_axioms cloud_tasks.bulk_contract_axioms in \<open>auto simp: pubsub_queue_def\<close>)

interpretation default_bulk: bulk_server "svc_server (wire ext cfg S (noop_queue n) NewNoopScheduler)"
  for ext cfg S n
  by (rule bulk_server.intro) (use noop_backend.bulk_contract_axioms noop_scheduler.bulk_contract_axioms in auto)

text \<open>
  What a result says of the world: a success carries the job's id, and a message for the job
  was confirmed or a task created for it after those of the world \<open>u\<close>.
\<close>

definition traced :: "'a tasks_world_scheme pubsub_backend \<Rightarrow> cloudtasks_scheduler \<Rightarrow> 'a tasks_world_scheme
    \<Rightarrow> 'a tasks_world_scheme \<Rightarrow> job \<Rightarrow> enqueue_result \<Rightarrow> bool" where
  "traced b s u w j br \<longleftrightarrow> (result_Error br = None \<longrightarrow> result_JobID br = job_ID j
     \<and> ((\<exists>n < length (published w). length (published u) \<le> n \<and> publish_errors w n = None \<and> message_for b j (published w ! n))
      \<or> (\<exists>t \<in> set (drop (length (tasks u)) (tasks w)). task_of s j t)))"

lemma production_bulk_published:
  fixes u v w :: "'a tasks_world_scheme"
  assumes "run_state (backend_EnqueueBulk (production_backend ts) js) w = (rs, w')"
    and "published u = published w" "published v = published w'" "publish_errors v = publish_errors w'"
  shows "list_all2 (traced (legacy_pubsub ts) s u v) js rs"
proof -
  let ?b = "legacy_pubsub ts :: 'a tasks_world_scheme pubsub_backend"
  have run: "run_state (PubSubBackend_EnqueueBulk ?b js) w = (rs, w')"
    using assms(1) by (simp add: pubsub_queue_def)
  note p = legacy_bulk_published [OF run]
  then have len: "length rs = length js" by (metis length_map)
  moreover have "traced ?b s u v (js ! i) (rs ! i)" if i: "i < length js" for i
    unfolding traced_def
  proof (intro impI conjI disjI1)
    show "result_JobID (rs ! i) = job_ID (js ! i)"
      using arg_cong [where f = "\<lambda>xs. xs ! i", OF conjunct1 [OF p]] i len by (simp only: nth_map)
    assume "result_Error (rs ! i) = None"
    then show "\<exists>n < length (published v). length (published u) \<le> n \<and> publish_errors v n = None
        \<and> message_for ?b (js ! i) (published v ! n)"
      using conjunct2 [OF p, rule_format, OF i] assms(2-4) by auto
  qed
  ultimately show ?thesis by (simp add: list_all2_conv_all_nth)
qed

lemma production_bulk_scheduled:
  fixes u v w :: "'a tasks_world_scheme"
  assumes "run_state (scheduler_ScheduleBulk (cloud_tasks ce s) js) w = (rs, w')"
    and "tasks u = tasks w" "tasks v = tasks w'"
  shows "list_all2 (traced b s u v) js rs"
proof -
  have "run_state (CloudTasksScheduler_ScheduleBulk s js) w = (rs, w')" using assms(1) by (simp add: cloud_tasks_def)
  from run_ScheduleBulk [OF this] obtain us where us: "tasks w' = tasks w @ us" "list_all2 (slot_ok s us) js rs" by blast
  have "set us \<subseteq> set (drop (length (tasks u)) (tasks v))" by (simp add: assms(2,3) us(1))
  then show ?thesis
    by (intro list_all2_mono [OF us(2)]) (auto simp: slot_ok_def traced_def task_of_def)
qed

lemma quietly_prepare_each: "quiet_server srv \<Longrightarrow> quietly (prepare_each srv shadow r)"
  unfolding prepare_each_def by (intro quietlyI)

lemma production_bulk_traced:
  fixes w :: "'a tasks_world_scheme"
  assumes srv: "srv = svc_server (production_service ext cfg lib gc ts s)"
    and run: "run_state (Server_EnqueueBulk srv ctx req) w = (x, w')" and ne: "enqueue_bulk_request_Jobs req \<noteq> []"
  shows "\<exists>resp. x = Inr resp \<and> length (enqueue_bulk_response_Results resp) = length (enqueue_bulk_request_Jobs req)
    \<and> (\<forall>i < length (enqueue_bulk_request_Jobs req). bulk_slot (traced (legacy_pubsub ts) s w w') srv (shadowFromContext ctx) i
         (enqueue_bulk_request_Jobs req ! i) (enqueue_bulk_response_Results resp ! i))"
proof (rule run_EnqueueBulk_stages [OF run ne])
  fix outs w1 im fu w2 ir w3 fr w4
  assume outs: "run_state (State_Monad.traverse_list (prepare_each srv (shadowFromContext ctx)) (enqueue_bulk_request_Jobs req))
      (snd (run_state time_now w)) = (outs, w1)"
    and q12: "quiet w1 w2"
    and d: "distinct (map fst im @ map fst fu)"
    and idx: "set im \<union> set fu = {(k, j). (k, Some j) \<in> set (List.enumerate 0 (map out_job outs))}"
    and ir: "run_state (if map snd im \<noteq> [] then backend_EnqueueBulk (srv_backend srv) (map snd im) else ret []) w2 = (ir, w3)"
    and fr: "run_state (schedule_futures srv (map snd fu)) w3 = (fr, w4)"
    and x: "x = Inr \<lparr>enqueue_bulk_response_Results =
      fill_results 0 (map fst fu) fr (fill_results 0 (map fst im) ir
        (fill_validation 0 (map out_error outs) (map out_reason outs)
          (map (\<lambda>i. fresh_result i (enqueue_bulk_request_Jobs req ! i) (map out_warnings outs ! i))
            [0..<length (enqueue_bulk_request_Jobs req)])))\<rparr>"
    and q: "quiet w4 w'"
  have "quiet_server srv" unfolding srv by (rule production_quiet)
  then have "quiet w (snd (run_state time_now w))" "quiet (snd (run_state time_now w)) w1"
    using quietlyD [OF quietly_now] quietlyD [OF quietly_traverse [OF quietly_prepare_each] outs] by (auto simp: prod_eq_iff)
  then have "quiet w w2" using q12 quiet_trans by blast
  then have q1: "published w2 = published w" "tasks w2 = tasks w" by (simp_all add: quiet_fields)
  have pub: "published w' = published w3 \<and> publish_errors w' = publish_errors w3"
  proof (cases "fu = []")
    case True
    then show ?thesis using fr q by (simp add: schedule_futures_def quiet_fields)
  next
    case False
    then have "run_state (CloudTasksScheduler_ScheduleBulk s (map snd fu)) w3 = (fr, w4)"
      using fr by (simp add: schedule_futures_def srv cloud_tasks_def)
    from CloudTasksScheduler_ScheduleBulk_effect [OF this]
    have "published w4 = published w3" "publish_errors w4 = publish_errors w3" by auto
    then show ?thesis using q by (simp add: quiet_fields)
  qed
  have tsk: "tasks w3 = tasks w"
  proof (cases "im = []")
    case True
    then show ?thesis using ir q1 by simp
  next
    case False
    then have "run_state (PubSubBackend_EnqueueBulk (legacy_pubsub ts) (map snd im)) w2 = (ir, w3)"
      using ir by (simp add: srv pubsub_queue_def)
    from PubSubBackend_EnqueueBulk_effect [OF _ this] have "tasks w3 = tasks w2" by auto
    then show ?thesis using q1 by simp
  qed
  have "list_all2 (traced (legacy_pubsub ts) s w w') (map snd im) ir"
    using ir pub q1 production_bulk_published [of ts "map snd im" w2 ir w3 w w' s] by (simp add: srv split: if_splits)
  moreover have "list_all2 (traced (legacy_pubsub ts) s w w') (map snd fu) fr"
    using fr tsk quiet_fields(2) [OF q] production_bulk_scheduled [of None s "map snd fu" w3 fr w4 w w' "legacy_pubsub ts"]
    by (simp add: srv schedule_futures_def split: if_splits)
  ultimately show ?thesis
    unfolding x using filled_slot [OF d idx _ _ prepare_each_out [OF outs]] by simp
qed

text \<open>
  C13. A bulk call answers each request in its own slot: a rejected request with its reason,
  any other with the answer for the job made from it. A slot with an id and no reason
  is a job for which this call published a message that was confirmed, or created a task, however the batch was parted between the
  backend and the scheduler and in whatever order their goroutines ran.
\<close>

lemma bulk_answers_are_aligned:
  fixes w :: "'a tasks_world_scheme"
  assumes "run_state (Server_EnqueueBulk (svc_server (production_service ext cfg lib gc ts s)) ctx req) w = (x, w')"
    and "enqueue_bulk_request_Jobs req \<noteq> []"
  shows "\<exists>resp. x = Inr resp \<and> length (enqueue_bulk_response_Results resp) = length (enqueue_bulk_request_Jobs req)
    \<and> (\<forall>i < length (enqueue_bulk_request_Jobs req).
         bulk_slot (traced (legacy_pubsub ts) s w w') (svc_server (production_service ext cfg lib gc ts s :: 'a tasks_world_scheme service))
           (shadowFromContext ctx) i (enqueue_bulk_request_Jobs req ! i) (enqueue_bulk_response_Results resp ! i))"
  by (rule production_bulk_traced [OF refl assms])

text \<open>
  The same alignment in the default wiring, where nothing is published: one slot for
  each request, in order, the rejected ones with their reason.
\<close>

lemma default_bulk_is_aligned:
  fixes w :: "'a tasks_world_scheme"
  assumes "run_state (Server_EnqueueBulk (svc_server (wire ext cfg S (noop_queue n) NewNoopScheduler)) ctx req) w = (x, w')"
    and "enqueue_bulk_request_Jobs req \<noteq> []"
  shows "\<exists>resp. x = Inr resp \<and> length (enqueue_bulk_response_Results resp) = length (enqueue_bulk_request_Jobs req)
    \<and> (\<forall>i < length (enqueue_bulk_request_Jobs req).
         bulk_slot answers (svc_server (wire ext cfg S (noop_queue n) NewNoopScheduler :: 'a tasks_world_scheme service))
           (shadowFromContext ctx) i (enqueue_bulk_request_Jobs req ! i) (enqueue_bulk_response_Results resp ! i))"
  by (rule default_bulk.run_EnqueueBulk [OF assms])

text \<open>
  C16. A valid request that is due at once is accepted when Pub/Sub confirms the next
  message, the medium topic is configured, the payload is nil or JSON and the clock runs forward
  within the four-digit years: no other condition, none on the registries, can refuse it.
\<close>

lemma valid_request_is_accepted:
  fixes w :: "'a tasks_world_scheme"
  assumes "rejection (svc_server (production_service ext cfg lib gc ts s :: 'a tasks_world_scheme service)) r = None"
    and "enqueue_request_RunAt r = None" and "payload_is_json (enqueue_request_Payload r)"
    and "mono (clock w)" and "\<And>n. year_ok (clock w n)" and "PriorityMedium \<in> dom (map_of ts)"
    and "publish_errors w (length (published w)) = None"
    and "run_state (Server_Enqueue (svc_server (production_service ext cfg lib gc ts s)) ctx r) w = (x, w')"
  shows "\<exists>resp. x = Inr resp \<and> (\<exists>m. published w' = published w @ [m])"
  by (rule immediate_accepted [OF assms])

text \<open>
  C17. A valid request for a later time is accepted and becomes one task when Cloud Tasks takes
  the next call, the clock and the run time lie within the years the encodings can hold, and
  its texts and payload leave the body within the limit of 97280 bytes.
\<close>

lemma future_request_is_accepted:
  fixes w :: "'a tasks_world_scheme"
  assumes "rejection (svc_server (production_service ext cfg lib gc ts s :: 'a tasks_world_scheme service)) r = None"
    and "enqueue_request_RunAt r = Some x"
    and "0 < ScheduleThreshold cfg" and "is_duration (ScheduleThreshold cfg)"
    and "\<And>n. clock w n + ScheduleThreshold cfg \<le> as_time (gcs_pb (ext_lib ext)) x"
    and "\<And>n. year_ok (clock w n)" and "year_ok (as_time (gcs_pb (ext_lib ext)) x)"
    and "\<And>n. 0 \<le> clock w n \<and> clock w n < 2 ^ 47 * 1000000"
    and "6 * (length (enqueue_request_ProducerId r) + length (enqueue_request_JobType r) + length (enqueue_request_TraceId r))
      + 4 * ((slice_len (enqueue_request_Payload r) + 2) div 3) + 1192 \<le> MaxTaskBodySize"
    and "task_faults w (task_calls w) = None"
    and "run_state (Server_Enqueue (svc_server (production_service ext cfg lib gc ts s)) ctx r) w = (a, w')"
  shows "\<exists>resp. a = Inr resp \<and> published w' = published w \<and> (\<exists>t. tasks w' = tasks w @ [t])"
  by (rule future_accepted [OF refl assms])

text \<open>
  C18. The threshold decides where an accepted job goes: due at or after the threshold by
  every reading of the clock it becomes a task and no message; due before, a message and no task.
\<close>

lemma threshold_decides:
  fixes w :: "'a tasks_world_scheme"
  assumes "0 < ScheduleThreshold cfg" and "is_duration (ScheduleThreshold cfg)" and "enqueue_request_RunAt r = Some x"
    and "run_state (Server_Enqueue (svc_server (production_service ext cfg lib gc ts s)) ctx r) w = (Inr resp, w')"
  shows "((\<forall>n. clock w n + ScheduleThreshold cfg \<le> as_time (gcs_pb (ext_lib ext)) x) \<longrightarrow>
      published w' = published w \<and> (\<exists>t. tasks w' = tasks w @ [t]))
    \<and> ((\<forall>n. as_time (gcs_pb (ext_lib ext)) x < clock w n + ScheduleThreshold cfg) \<longrightarrow>
      tasks w' = tasks w \<and> (\<exists>m. published w' = published w @ [m]))"
  by (rule threshold_parts [OF assms])

text \<open>
  C20. The status the callback answers: 400, with nothing published, for a body that cannot
  be read or decoded; for a decoded job 200 exactly when its priority or the medium one has a topic, its
  payload is JSON, the times fit four-digit years and Pub/Sub confirms; and 500 otherwise.
\<close>

lemma callback_status:
  fixes w :: "'a tasks_world_scheme"
  shows "(case run_state (handleEnqueueCallback (NewCallbackHandler (production_backend ts)) body) w of (resp, w') \<Rightarrow>
    (case body of
       Inr b \<Rightarrow> (case UnmarshalJob b of
          Inr j \<Rightarrow> http_status resp =
            (if (job_Priority j \<in> dom (map_of ts) \<or> PriorityMedium \<in> dom (map_of ts)) \<and> payload_is_json (job_Payload j)
                \<and> year_ok (clock w (ticks w + 1)) \<and> year_ok (job_CreatedAt j) \<and> year_ok (clock w (ticks w + 2))
                \<and> publish_errors w (length (published w)) = None
             then 200 else 500)
        | Inl e \<Rightarrow> http_status resp = 400 \<and> published w' = published w \<and> tasks w' = tasks w)
     | Inl e \<Rightarrow> http_status resp = 400 \<and> published w' = published w \<and> tasks w' = tasks w))"
proof -
  obtain resp w' where run: "run_state (handleEnqueueCallback (NewCallbackHandler (production_backend ts)) body) w = (resp, w')"
    by fastforce
  show ?thesis
  proof (cases body)
    case (Inl e)
    then show ?thesis using run by (auto simp: handleEnqueueCallback_def http_error_def)
  next
    case body: (Inr b)
    show ?thesis
    proof (cases "UnmarshalJob b")
      case (Inl e)
      then show ?thesis using run body by (auto simp: handleEnqueueCallback_def http_error_def)
    next
      case (Inr j)
      from run_handleEnqueueCallback [OF run [unfolded body] Inr] obtain e w2 where
        "run_state (backend_Enqueue (production_backend ts) (j\<lparr>job_RunAt := clock w (Suc (ticks w))\<rparr>)) (w\<lparr>ticks := ticks w + 2\<rparr>) = (e, w2)"
        and s: "http_status resp = (if e = None then 200 else 500)" by (auto simp: NewCallbackHandler_def)
      from legacy_backend_succeeds [OF this(1)] s show ?thesis
        unfolding body run [unfolded body] by (simp add: Inr)
    qed
  qed
qed

text \<open>
  C30. A task comes back to the process that created it: it is sent with the method and to the path
  the callback handler registers, behind the configured base URL whatever slashes that
  ends in, its token is for that URL, and no HTTP version sends it to the gRPC server.
\<close>

lemma tasks_reach_the_callback:
  fixes w :: "'a tasks_world_scheme"
  assumes "NewCloudTasksScheduler pb None cfg = Inr s"
    and "ct_CallbackBaseURL cfg = base @ replicate n CHR ''/''" and "base = [] \<or> last base \<noteq> CHR ''/''"
    and "run_state (CloudTasksScheduler_Schedule s j) w = (None, w')"
  shows "\<exists>t content_type. tasks w' = tasks w @ [t] \<and> task_HttpMethod t = callback_method \<and> task_Url t = base @ callback_path
    \<and> task_Oidc t \<in> {None, Some (ct_ServiceAccountEmail cfg, task_Url t)}
    \<and> map_of (task_Headers t) ''Content-Type'' = Some content_type \<and> dispatch major content_type = ToMux"
proof -
  have s: "ct_callbackURL s = base @ callback_path" "ct_saEmail s = ct_ServiceAccountEmail cfg"
    using assms(1) trim_slashes [OF assms(3)] by (auto simp: NewCloudTasksScheduler_def assms(2) callback_path_def)
  obtain data where d: "marshalJob j = Inr data" using marshalJob_total by blast
  have "tasks w' = tasks w @ [task_for s j data]" using run_Schedule [OF assms(4) d] by simp
  then show ?thesis
    by (intro exI [of _ "task_for s j data"] exI [of _ "''application/json''"])
      (simp add: task_for_def s callback_method_def dispatch_def starts_with_def)
qed


section \<open>Witnesses\<close>

abbreviation sample_topics :: "(priority, string) gomap" where
  "sample_topics \<equiv> [(PriorityMedium, ''jobs'')]"

abbreviation sample_production :: "tasks_world server" where
  "sample_production \<equiv> svc_server (production_service sample_externals sample_config sample_total_lib sample_gc sample_topics sample_scheduler)"

definition sample_now :: enqueue_request where
  "sample_now = \<lparr>enqueue_request_ProducerId = ''prod_00000000'', enqueue_request_JobType = ''mail'',
     enqueue_request_Payload = Some [123, 125], enqueue_request_RunAt = None, enqueue_request_TraceId = [],
     enqueue_request_CorrelationId = ''c1''\<rparr>"

definition an_hour :: instant where "an_hour = 3600000000000"

definition sample_later :: enqueue_request where
  "sample_later = sample_now\<lparr>enqueue_request_RunAt := Some (ts_new sample_pb an_hour)\<rparr>"

lemma sample_years: "year_ok 0" "year_ok an_hour"
  by (simp add: year_ok_def year_of_epoch) (simp only: year_ok_def an_hour_def, code_simp)

lemma sample_valid:
  "rejection sample_production sample_now = None" "rejection sample_production sample_later = None"
  "rejection (svc_server (wire sample_externals sample_config (gcs_store sample_total_lib sample_gc) (production_backend sample_topics)
     NewNoopScheduler :: tasks_world service)) sample_later = None"
  by (simp_all add: rejection_def sample_later_def sample_now_def wired_defaults del: wire_simps)

lemma sample_fields:
  "clock sample_tasks_world = (\<lambda>_. 0)" "publish_errors sample_tasks_world = (\<lambda>_. None)"
  "task_faults sample_tasks_world = (\<lambda>_. None)" "published sample_tasks_world = []" "tasks sample_tasks_world = []"
  by (simp_all add: sample_tasks_world_def)

lemma sample_payload: "payload_is_json (Some [123, 125])"
  unfolding payload_is_json_def by code_simp

lemma sample_times:
  "0 < ScheduleThreshold sample_config" "is_duration (ScheduleThreshold sample_config)" "ScheduleThreshold sample_config \<le> an_hour"
  "as_time (gcs_pb (ext_lib sample_externals)) (ts_new sample_pb an_hour) = an_hour"
  by (simp_all add: sample_config_def minute_def second_def is_duration_def an_hour_def sample_externals_def
      sample_total_lib_def sample_lib_def sample_pb_def min_duration_def max_duration_def)

lemma sample_now_published:
  assumes "run_state (Server_Enqueue sample_production None sample_now) sample_tasks_world = (x, w')"
  shows "\<exists>resp. x = Inr resp \<and> (\<exists>m. published w' = published sample_tasks_world @ [m])"
  by (rule immediate_accepted [OF sample_valid(1) _ _ _ _ _ _ assms])
    (simp_all add: sample_now_def sample_fields sample_payload sample_years mono_def)

lemma sample_later_scheduled:
  assumes "run_state (Server_Enqueue sample_production None sample_later) sample_tasks_world = (x, w')"
  shows "\<exists>resp. x = Inr resp \<and> published w' = published sample_tasks_world \<and> (\<exists>t. tasks w' = tasks sample_tasks_world @ [t])"
  by (rule future_accepted [OF refl sample_valid(2) _ sample_times(1,2) _ _ _ _ _ _ assms, where x = "ts_new sample_pb an_hour"])
    (simp_all only: sample_times(4) sample_fields sample_years, simp_all add: sample_later_def sample_now_def sample_times sample_fields
      MaxTaskBodySize_def)

lemma valid_request_is_accepted_witness:
  "length (published (snd (run_state (Server_Enqueue sample_production None sample_now) sample_tasks_world))) = 1"
proof -
  have "\<exists>resp. fst (run_state (Server_Enqueue sample_production None sample_now) sample_tasks_world) = Inr resp
      \<and> (\<exists>m. published (snd (run_state (Server_Enqueue sample_production None sample_now) sample_tasks_world))
          = published sample_tasks_world @ [m])"
    by (rule valid_request_is_accepted [OF sample_valid(1) _ _ _ _ _ _ prod.collapse [symmetric]])
      (simp_all add: sample_now_def sample_fields sample_payload sample_years mono_def)
  then show ?thesis by (auto simp: sample_fields)
qed

lemma future_request_is_accepted_witness:
  "length (tasks (snd (run_state (Server_Enqueue sample_production None sample_later) sample_tasks_world))) = 1"
proof -
  have "\<exists>resp. fst (run_state (Server_Enqueue sample_production None sample_later) sample_tasks_world) = Inr resp
      \<and> published (snd (run_state (Server_Enqueue sample_production None sample_later) sample_tasks_world)) = published sample_tasks_world
      \<and> (\<exists>t. tasks (snd (run_state (Server_Enqueue sample_production None sample_later) sample_tasks_world))
          = tasks sample_tasks_world @ [t])"
    by (rule future_request_is_accepted [OF sample_valid(2) _ sample_times(1,2) _ _ _ _ _ _ prod.collapse [symmetric],
          where x = "ts_new sample_pb an_hour"])
      (simp_all only: sample_times(4) sample_fields sample_years, simp_all add: sample_later_def sample_now_def sample_times
        sample_fields MaxTaskBodySize_def)
  then show ?thesis by (auto simp: sample_fields)
qed

lemma accepted_job_is_durable_witness:
  "\<exists>resp j. fst (run_state (Server_Enqueue sample_production None sample_now) sample_tasks_world) = Inr resp
    \<and> job_ID j = enqueue_response_JobId resp \<and> job_Payload j = Some [123, 125]
    \<and> sent (legacy_pubsub sample_topics) j sample_tasks_world
        (snd (run_state (Server_Enqueue sample_production None sample_now) sample_tasks_world))"
proof -
  obtain x w' where run: "run_state (Server_Enqueue sample_production None sample_now) sample_tasks_world = (x, w')" by fastforce
  with sample_now_published obtain resp m where x: "x = Inr resp" and m: "published w' = published sample_tasks_world @ [m]" by blast
  from accepted_job_is_durable [OF run [unfolded x]] obtain j where
    "job_of sample_production (shadowFromContext None) sample_now j" "job_ID j = enqueue_response_JobId resp"
    "sent (legacy_pubsub sample_topics) j sample_tasks_world w' \<or> scheduled sample_scheduler j sample_tasks_world w'" by blast
  moreover have "\<not> scheduled sample_scheduler j sample_tasks_world w'" using m by (simp add: scheduled_def)
  ultimately show ?thesis using run x by (auto simp: job_of_def sample_now_def)
qed

lemma scheduled_job_reaches_its_topic_witness:
  "\<exists>t. tasks (snd (run_state (Server_Enqueue sample_production None sample_later) sample_tasks_world)) = [t]
    \<and> http_status (fst (run_state (handleEnqueueCallback (NewCallbackHandler (production_backend sample_topics)) (Inr (task_Body t)))
        sample_tasks_world)) \<in> {200, 500}"
proof -
  obtain x w' where run: "run_state (Server_Enqueue sample_production None sample_later) sample_tasks_world = (x, w')" by fastforce
  with sample_later_scheduled obtain resp t where x: "x = Inr resp" and t: "tasks w' = tasks sample_tasks_world @ [t]" by blast
  have r: "request_ok sample_later"
    by (simp add: request_ok_def sample_later_def sample_now_def valid_utf8_ascii)
  have y: "year_ok (clock sample_tasks_world n)" for n by (simp add: sample_fields sample_years)
  have u: "year_ok (as_time (gcs_pb (ext_lib sample_externals)) x)" if "enqueue_request_RunAt sample_later = Some x" for x
    using that sample_times(4) sample_years by (simp add: sample_later_def)
  from scheduled_job_reaches_its_topic [OF run [unfolded x] t r y u prod.collapse [symmetric]] run t show ?thesis
    by (auto simp: sample_fields)
qed

definition outage :: tasks_world where
  "outage = sample_tasks_world\<lparr>publish_errors := (\<lambda>_. Some (Opaque ''connection refused''))\<rparr>"

lemma unavailable_is_never_answered_witness:
  "\<exists>st. fst (run_state (Server_Enqueue sample_production None (sample_now\<lparr>enqueue_request_RunAt := Some (ts_new sample_pb 0)\<rparr>)) outage) = Inl st
    \<and> rpc_code st \<noteq> Unavailable"
proof -
  let ?r = "sample_now\<lparr>enqueue_request_RunAt := Some (ts_new sample_pb 0)\<rparr>"
  obtain x w' where run: "run_state (Server_Enqueue sample_production None ?r) outage = (x, w')" by fastforce
  have "x \<noteq> Inr resp" for resp
  proof
    assume "x = Inr resp"
    note ok = run [unfolded this]
    have "as_time (gcs_pb (ext_lib sample_externals)) (ts_new sample_pb 0) = 0"
      by (simp add: sample_externals_def sample_total_lib_def sample_lib_def sample_pb_def)
    then have "tasks w' = tasks outage"
      using threshold_parts [OF sample_times(1,2) _ ok, of "ts_new sample_pb 0"] sample_times(1) by (simp add: outage_def sample_fields)
    moreover have "\<not> sent (legacy_pubsub sample_topics) j outage w'" for j by (simp add: sent_def outage_def)
    ultimately show False using production_accepts [OF refl ok] by (auto simp: scheduled_def)
  qed
  then obtain st where st: "x = Inl st" by (cases x) auto
  have "publish_foreign outage" by (simp add: publish_foreign_def outage_def)
  from unavailable_is_never_answered [OF this run [unfolded st]] run st show ?thesis by simp
qed

lemma noop_scheduler_drops_jobs_witness:
  "(case run_state (Server_Enqueue (svc_server (wire sample_externals sample_config (gcs_store sample_total_lib sample_gc)
      (production_backend sample_topics) NewNoopScheduler)) None sample_later) sample_tasks_world of (a, w') \<Rightarrow>
    (\<exists>resp. a = Inr resp) \<and> published w' = [] \<and> tasks w' = [])"
proof -
  obtain a w' where run: "run_state (Server_Enqueue (svc_server (wire sample_externals sample_config (gcs_store sample_total_lib sample_gc)
      (production_backend sample_topics) NewNoopScheduler)) None sample_later) sample_tasks_world = (a, w')" by fastforce
  have "(\<exists>resp. a = Inr resp) \<and> published w' = published sample_tasks_world \<and> tasks w' = tasks sample_tasks_world"
    by (rule noop_scheduler_drops_jobs [OF sample_valid(3) sample_times(1,2) _ _ run, where x = "ts_new sample_pb an_hour"])
      (simp_all only: sample_times(4) sample_fields, simp_all add: sample_later_def sample_times)
  then show ?thesis using run by (simp add: sample_fields)
qed

lemma threshold_decides_witness:
  "tasks (snd (run_state (Server_Enqueue sample_production None sample_later) sample_tasks_world)) \<noteq> []"
proof -
  obtain x w' where run: "run_state (Server_Enqueue sample_production None sample_later) sample_tasks_world = (x, w')" by fastforce
  with sample_later_scheduled obtain resp where x: "x = Inr resp" by blast
  have "enqueue_request_RunAt sample_later = Some (ts_new sample_pb an_hour)" by (simp add: sample_later_def)
  from threshold_decides [OF sample_times(1,2) this run [unfolded x]] run sample_times show ?thesis
    by (auto simp: sample_fields)
qed

lemma bulk_answers_are_aligned_witness:
  "\<exists>resp. fst (run_state (Server_EnqueueBulk sample_production None \<lparr>enqueue_bulk_request_Jobs = [sample_now, sample_later]\<rparr>)
      sample_tasks_world) = Inr resp \<and> length (enqueue_bulk_response_Results resp) = 2"
  using bulk_answers_are_aligned [where ext = sample_externals and cfg = sample_config and lib = sample_total_lib and gc = sample_gc
      and ts = sample_topics and s = sample_scheduler and ctx = None and w = sample_tasks_world
      and req = "\<lparr>enqueue_bulk_request_Jobs = [sample_now, sample_later]\<rparr>", OF prod.collapse [symmetric]] by auto

lemma default_bulk_is_aligned_witness:
  "\<exists>resp. fst (run_state (Server_EnqueueBulk (svc_server (wire sample_externals sample_config (memory_store sample_pb) (noop_queue (NewNoopBackend DefaultConfig))
      NewNoopScheduler)) None \<lparr>enqueue_bulk_request_Jobs = [sample_now]\<rparr>) sample_tasks_world) = Inr resp
    \<and> length (enqueue_bulk_response_Results resp) = 1"
  using default_bulk_is_aligned [where ext = sample_externals and cfg = sample_config and S = "memory_store sample_pb"
      and n = "NewNoopBackend DefaultConfig" and ctx = None and w = sample_tasks_world
      and req = "\<lparr>enqueue_bulk_request_Jobs = [sample_now]\<rparr>", OF prod.collapse [symmetric]] by auto

lemma tasks_reach_the_callback_witness:
  "\<exists>t. tasks (snd (run_state (CloudTasksScheduler_Schedule
      \<lparr>ct_queuePath = ''projects/p/locations/l/queues/q'', ct_callbackURL = ''http://jack/internal/callback/enqueue'', ct_saEmail = [],
       ct_pb = sample_pb\<rparr> sample_scheduled) sample_tasks_world)) = [t] \<and> task_Url t = ''http://jack/internal/callback/enqueue''"
proof -
  let ?cfg = "\<lparr>ct_Project = ''p'', ct_Location = ''l'', ct_Queue = ''q'', ct_CallbackBaseURL = ''http://jack//'', ct_ServiceAccountEmail = []\<rparr>"
  let ?s = "\<lparr>ct_queuePath = ''projects/p/locations/l/queues/q'', ct_callbackURL = ''http://jack/internal/callback/enqueue'', ct_saEmail = [],
       ct_pb = sample_pb\<rparr>"
  have new: "NewCloudTasksScheduler sample_pb None ?cfg = Inr ?s"
    by (simp add: NewCloudTasksScheduler_def trim_right_slashes_def)
  have base: "ct_CallbackBaseURL ?cfg = ''http://jack'' @ replicate 2 CHR ''/''" by (simp add: numeral_2_eq_2)
  obtain data where d: "marshalJob sample_scheduled = Inr data" using marshalJob_total by blast
  have "fst (run_state (CloudTasksScheduler_Schedule ?s sample_scheduled) sample_tasks_world) = None"
    by (rule schedule_small [OF d sample_body_small [OF d]]) (simp add: sample_fields)
  then have "run_state (CloudTasksScheduler_Schedule ?s sample_scheduled) sample_tasks_world
      = (None, snd (run_state (CloudTasksScheduler_Schedule ?s sample_scheduled) sample_tasks_world))"
    by (simp add: prod_eq_iff)
  from tasks_reach_the_callback [OF new base _ this] show ?thesis by (auto simp: sample_fields callback_path_def)
qed

end
