(* ===== verification/Routing.thy ===== *)
theory Routing
  imports Delivery
begin

text \<open>
  Which queue a request's job goes to: the registries, the defaults and the legacy field of
  the payload, from an admin call to the job that is handed over, and the types of
  the jobs that the service makes.
\<close>


section \<open>The routing of a request\<close>

text \<open>
  The queue a payload asks for: the text of its last member \<open>queue\<close>, letter case aside, when the
  payload is a JSON object whose members of this name are all texts or null; otherwise none.
\<close>

definition queue_members :: "(string \<times> json) list \<Rightarrow> json list" where
  "queue_members ms = map snd (filter (\<lambda>m. same_field (fst m) ''queue'') ms)"

definition queue_texts :: "(string \<times> json) list \<Rightarrow> string list" where
  "queue_texts ms = concat (map (\<lambda>v. case v of JStr s \<Rightarrow> [s] | _ \<Rightarrow> []) (queue_members ms))"

definition text_or_null :: "json \<Rightarrow> bool" where
  "text_or_null v = (case v of JNull \<Rightarrow> True | JStr s \<Rightarrow> True | _ \<Rightarrow> False)"

definition requested_queue :: "byte_slice \<Rightarrow> string" where
  "requested_queue payload =
     (case json_parse (string_of_bytes (slice_bytes payload)) of
        Some (JObj ms) \<Rightarrow> if list_all text_or_null (queue_members ms) then last ([] # queue_texts ms) else []
      | _ \<Rightarrow> [])"

text \<open>The two tables: the queues a payload may name, and those a job type may be registered with.\<close>

definition legacy_table :: "(string \<times> priority) list" where
  "legacy_table = [(''immediate'', PriorityImmediate), (''high'', PriorityHigh), (''medium'', PriorityMedium), (''low'', PriorityLow)]"

definition queue_table :: "(queue_enum \<times> priority) list" where
  "queue_table = [(Queue_QUEUE_IMMEDIATE, PriorityImmediate), (Queue_QUEUE_HIGH, PriorityHigh),
     (Queue_QUEUE_MEDIUM, PriorityMedium), (Queue_QUEUE_LOW, PriorityLow)]"

text \<open>What the routing of a request is to be, over the registries of a world: queue, retries and warnings.\<close>

definition routing_of :: "config \<Rightarrow> 'a store_world_scheme \<Rightarrow> enqueue_request \<Rightarrow> priority \<times> int \<times> string list" where
  "routing_of cfg w r =
     (case (if LegacyPayloadQueueRouting cfg then map_of legacy_table (requested_queue (enqueue_request_Payload r)) else None) of
        Some p \<Rightarrow> (p, 10, [])
      | None \<Rightarrow> (case map_of (jobTypes w) (jobTypeKey (enqueue_request_ProducerId r) (enqueue_request_JobType r)) of
            Some jt \<Rightarrow> (case map_of queue_table (job_type_Queue jt) of Some p \<Rightarrow> p | None \<Rightarrow> PriorityMedium,
              sint (job_type_MaxRetries jt), [])
          | None \<Rightarrow> (PriorityMedium, 10, [''unregistered job_type: '' @ enqueue_request_JobType r
              @ '' (producer: '' @ enqueue_request_ProducerId r @ '')''])))"

definition producer_warning :: "'a store_world_scheme \<Rightarrow> enqueue_request \<Rightarrow> string list" where
  "producer_warning w r =
     (if enqueue_request_ProducerId r \<in> dom (map_of (producers w)) then []
      else [''unregistered producer_id: '' @ enqueue_request_ProducerId r])"

lemma queue_members_Cons [simp]:
  "queue_members ((k, v) # ms) = (if same_field k ''queue'' then v # queue_members ms else queue_members ms)"
  by (simp add: queue_members_def)

lemma queue_texts_Cons [simp]:
  "queue_texts ((k, v) # ms) = (if same_field k ''queue'' then (case v of JStr s \<Rightarrow> [s] | _ \<Rightarrow> []) else []) @ queue_texts ms"
  by (simp add: queue_texts_def)

lemma decode_queue_member:
  "decode_member legacy_payload_fields (k, v) \<lparr>legacy_payload_Queue = q\<rparr> =
     (\<lparr>legacy_payload_Queue = (case v of JStr s \<Rightarrow> if same_field k ''queue'' then s else q | _ \<Rightarrow> q)\<rparr>,
      if same_field k ''queue'' \<and> \<not> text_or_null v then Some type_error else None)"
  by (simp add: legacy_payload_fields_def field_def dec_string_def text_or_null_def split: json.split)

lemma decode_queue:
  "decode_members legacy_payload_fields ms \<lparr>legacy_payload_Queue = q\<rparr>
    = (\<lparr>legacy_payload_Queue = last (q # queue_texts ms)\<rparr>, if list_all text_or_null (queue_members ms) then None else Some type_error)"
proof (induction ms arbitrary: q)
  case (Cons m ms)
  obtain k v where "m = (k, v)" by fastforce
  then show ?case by (simp add: decode_queue_member Cons.IH split: json.split)
qed (simp add: queue_members_def queue_texts_def)

lemma legacyPayloadPriority_table:
  "legacyPayloadPriority payload = (case map_of legacy_table (requested_queue payload) of
     Some p \<Rightarrow> (p, True) | None \<Rightarrow> (PriorityUnspecified, False))"
  by (auto simp: legacyPayloadPriority_def unmarshal_struct_def requested_queue_def decode_queue legacy_table_def
      split: option.split json.split)

lemma storageQueue_table:
  "storageQueueToQueuePriority q = (case map_of queue_table q of Some p \<Rightarrow> p | None \<Rightarrow> PriorityMedium)"
  by (simp add: storageQueueToQueuePriority_def queue_table_def)

lemma routing_quiet:
  fixes w u :: "'a tasks_world_scheme"
  assumes "quiet w u"
  shows "routing_of cfg u r = routing_of cfg w r" and "producer_warning u r = producer_warning w r"
  using quiet_fields [OF assms] by (simp_all add: routing_of_def producer_warning_def split: option.split)

lemma run_routing:
  fixes w :: "'a tasks_world_scheme"
  assumes S: "S = memory_store pb \<or> S = gcs_store lib gc"
    and run: "run_state (prepare_job (svc_server (wire ext cfg S B sched)) shadow r) w = ((ws, j), w')"
  shows "(case routing_of cfg w r of (p, n, warnings) \<Rightarrow>
    job_Priority j = p \<and> job_MaxRetries j = n \<and> ws = producer_warning w r @ warnings)"
proof -
  define srv where "srv = svc_server (wire ext cfg S B sched)"
  have c: "srv_store srv = Some S" "sc_LegacyPayloadQueueRouting (srv_config srv) = LegacyPayloadQueueRouting cfg"
    "sc_DefaultQueue (srv_config srv) = PriorityMedium" "sc_DefaultMaxRetries (srv_config srv) = 10"
    by (simp_all add: srv_def main_server_config_def DefaultServerConfig_def)
  let ?i = "enqueue_request_ProducerId r" and ?t = "enqueue_request_JobType r" and ?b = "enqueue_request_Payload r"
  have reads: "run_state (store_GetProducer S i) v = ((case map_of (producers v) i of None \<Rightarrow> Inl (not_found_producer i) | Some p \<Rightarrow> Inr p), v)"
    "run_state (store_GetJobType S i n) v = ((case map_of (jobTypes v) (jobTypeKey i n) of
       None \<Rightarrow> Inl (not_found_job_type n i) | Some j \<Rightarrow> Inr j), v)" for i n and v :: "'a tasks_world_scheme"
    using S by (auto simp: memory_store_def gcs_store_def run_GCSStore_reads run_MemoryStore_reads)
  have check: "run_state (check_producer srv ?i) w = (producer_warning w r, w)"
    by (auto simp: check_producer_def c reads producer_warning_def domIff split: option.split)
  obtain p n warnings where spec: "routing_of cfg w r = (p, n, warnings)" by (metis prod_cases3)
  then obtain v warning where route: "run_state (routingConfig srv ?i ?t ?b) w = ((p, n, warning), v)"
    and ws: "warnings = (if warning \<noteq> '''' then [warning] else [])"
    by (auto simp: routing_of_def routingConfig_def legacyPayloadPriority_table storageQueue_table getJobTypeConfig_def c reads
        split: option.splits if_splits)
  have "job_Priority j = p" "job_MaxRetries j = n" "ws = producer_warning w r @ warnings"
    using run [folded srv_def] check route by (auto simp: prepare_job_def Let_def ws split: prod.splits)
  then show ?thesis by (simp add: spec)
qed


section \<open>Properties\<close>

text \<open>
  C7. An accepted request is routed by the registries as they stand: its job has the queue and
  the retries of its registered job type, or the defaults, or the queue its payload names
  when that is enabled, by the tables above; and the caller is warned of exactly what is not registered.
\<close>

lemma requests_are_routed:
  fixes w :: "'a tasks_world_scheme"
  assumes "run_state (Server_Enqueue (svc_server (production_service ext cfg lib gc ts s)) ctx r) w = (Inr resp, w')"
  shows "\<exists>j warnings. job_ID j = enqueue_response_JobId resp
    \<and> (sent (legacy_pubsub ts) j w w' \<or> scheduled s j w w')
    \<and> routing_of cfg w r = (job_Priority j, job_MaxRetries j, warnings)
    \<and> enqueue_response_ErrorMessages resp = producer_warning w r @ warnings"
  using production_accepts_job [OF refl assms]
proof (elim exE conjE)
  fix j u u'
  assume q: "quiet w u" and j: "job_ID j = enqueue_response_JobId resp" "sent (legacy_pubsub ts) j w w' \<or> scheduled s j w w'"
    and p: "run_state (prepare_job (svc_server (production_service ext cfg lib gc ts s)) (shadowFromContext ctx) r) u
      = ((enqueue_response_ErrorMessages resp, j), u')"
  from run_routing [OF disjI2 [OF refl] p] j show ?thesis
    unfolding routing_quiet [OF q] by (auto split: prod.splits)
qed

text \<open>
  C22. Whatever the registries hold, the job made from a request is well typed: a known
  priority, retries of 32 bits, an identifier of the alphabet, and texts
  that survive its encodings when the request's are UTF-8.
\<close>

lemma prepared_job_is_well_typed:
  fixes w :: "'a tasks_world_scheme"
  assumes "S = memory_store pb \<or> S = gcs_store lib gc" and "request_ok r"
    and "run_state (prepare_job (svc_server (wire ext cfg S B sched)) shadow r) w = ((ws, j), w')"
  shows "known_priority (job_Priority j) \<and> is_int32 (job_MaxRetries j)
    \<and> set (job_ID j) \<subseteq> set base62Alphabet \<union> {CHR ''_''} \<and> encodable j"
proof -
  have "quiet_server (svc_server (wire ext cfg S B sched))"
    using assms(1) by (elim disjE; intro mem_deployed.quiet_server [of _ pb] gcs_deployed.quiet_server [of _ lib gc]) simp_all
  from prepare_server_job [OF this assms(3)]
  have j: "server_job (svc_server (wire ext cfg S B sched)) shadow (clock w) r j" .
  have "encodable j" by (rule server_job_encodable [OF j assms(2)]) (simp_all only: wired_defaults)
  moreover have "known_priority (job_Priority j)" "is_int32 (job_MaxRetries j)"
    using j unfolding server_job_def routed_def wired_defaults by (auto simp: is_int32_def)
  ultimately show ?thesis using j by (simp add: server_job_def)
qed


section \<open>Witnesses\<close>

definition mail_type :: job_type where
  "mail_type = \<lparr>job_type_ProducerId = ''prod_00000000'', job_type_Name = ''mail'', job_type_Queue = Queue_QUEUE_HIGH,
     job_type_MaxRetries = 3, job_type_Description = [], job_type_CreatedAt = None, job_type_UpdatedAt = None\<rparr>"

definition registered_world :: tasks_world where
  "registered_world = sample_tasks_world\<lparr>producers := [(''prod_00000000'', sample_producer)],
     jobTypes := [(jobTypeKey ''prod_00000000'' ''mail'', mail_type)]\<rparr>"

lemma registered_fields:
  "clock registered_world = (\<lambda>_. 0)" "publish_errors registered_world = (\<lambda>_. None)" "published registered_world = []"
  by (simp_all add: registered_world_def sample_fields)

lemma sample_not_legacy: "requested_queue (Some [123, 125]) = []"
  by code_simp

lemma sample_routing:
  "routing_of sample_config registered_world sample_now = (PriorityHigh, 3, [])" "producer_warning registered_world sample_now = []"
  using sample_not_legacy
  by (simp_all add: routing_of_def producer_warning_def registered_world_def sample_now_def sample_config_def mail_type_def
      queue_table_def legacy_table_def Queue_QUEUE_HIGH_def Queue_QUEUE_IMMEDIATE_def)

lemma requests_are_routed_witness:
  "\<exists>resp (j :: job). fst (run_state (Server_Enqueue sample_production None sample_now) registered_world) = Inr resp
    \<and> enqueue_response_ErrorMessages resp = [] \<and> job_ID j = enqueue_response_JobId resp
    \<and> job_Priority j = PriorityHigh \<and> job_MaxRetries j = 3"
proof -
  obtain x w' where run: "run_state (Server_Enqueue sample_production None sample_now) registered_world = (x, w')" by fastforce
  have "\<exists>resp. x = Inr resp \<and> (\<exists>m. published w' = published registered_world @ [m])"
    by (rule immediate_accepted [OF sample_valid(1) _ _ _ _ _ _ run])
      (simp_all add: sample_now_def registered_fields sample_payload sample_years mono_def)
  then obtain resp where x: "x = Inr resp" by blast
  from requests_are_routed [OF run [unfolded x]] sample_routing obtain j :: job where
    "job_ID j = enqueue_response_JobId resp" "job_Priority j = PriorityHigh" "job_MaxRetries j = 3"
    "enqueue_response_ErrorMessages resp = []" by (auto simp: eq_commute [of PriorityHigh])
  with run x show ?thesis by auto
qed

lemma prepared_job_is_well_typed_witness:
  "known_priority (job_Priority (snd (fst (run_state (prepare_job (svc_server sample_service) True sample_now) sample_tasks_world))))"
proof -
  have "request_ok sample_now" by (simp add: request_ok_def sample_now_def valid_utf8_ascii)
  moreover obtain ws j w' where run: "run_state (prepare_job (svc_server sample_service) True sample_now) sample_tasks_world = ((ws, j), w')"
    by (metis surj_pair)
  ultimately have "known_priority (job_Priority j)"
    using prepared_job_is_well_typed [OF disjI1 [OF refl] _ run [unfolded sample_service_def]] by blast
  then show ?thesis by (simp add: run)
qed

end
