(* ===== verification/Accounts.thy ===== *)
theory Accounts
  imports Delivery
begin

text \<open>
  The accounts of a bulk call in the production wiring: what its answers report is what it
  has sent, job for job.
\<close>


section \<open>Counting calls\<close>

text \<open>The calls of a range that are answered without an error.\<close>

definition successes :: "(nat \<Rightarrow> 'e option) \<Rightarrow> nat \<Rightarrow> nat \<Rightarrow> nat" where
  "successes errs a b = card {n. a \<le> n \<and> n < b \<and> errs n = None}"

lemma successes_self [simp]: "successes errs a a = 0"
  by (simp add: successes_def)

lemma successes_Suc:
  assumes "a \<le> b"
  shows "successes errs a (Suc b) = successes errs a b + (if errs b = None then 1 else 0)"
proof -
  have "{n. a \<le> n \<and> n < Suc b \<and> errs n = None} = (if errs b = None then insert b else id) {n. a \<le> n \<and> n < b \<and> errs n = None}"
    using assms by (auto simp: less_Suc_eq)
  then show ?thesis by (simp add: successes_def)
qed

lemma successes_step:
  "a < b \<Longrightarrow> successes errs a b = (if errs a = None then 1 else 0) + successes errs (Suc a) b"
proof (induction b)
  case (Suc b)
  then show ?case by (cases "a = b") (simp_all add: successes_Suc)
qed simp

definition went_well :: "enqueue_result \<Rightarrow> bool" where
  "went_well r \<longleftrightarrow> result_Error r = None"


section \<open>Messages\<close>

lemma publish_all_successes:
  fixes w :: "'a pubsub_world_scheme"
  assumes b: "adapter b = LegacyAdapter_Marshal" and "run_state (State_Monad.traverse_list (publish_one b) jobs) w = (ps, w1)"
  shows "length (published w) \<le> length (published w1)
    \<and> length (filter (\<lambda>p. \<exists>n. p = Sent n \<and> errs n = None) ps) = successes errs (length (published w)) (length (published w1))"
  using assms(2)
proof (induction jobs arbitrary: w ps)
  case (Cons j jobs)
  obtain p v where p: "run_state (publish_one b j) w = (p, v)" by fastforce
  obtain ps' where ps: "run_state (State_Monad.traverse_list (publish_one b) jobs) v = (ps', w1)" "ps = p # ps'"
    using Cons.prems p by (auto split: prod.splits)
  note IH = Cons.IH [OF ps(1)]
  from publish_one_message [OF b p] show ?case
  proof (elim disjE exE conjE)
    fix m assume s: "p = Sent (length (published w))" "published v = published w @ [m]"
    then have "length (published w) < length (published w1)" using IH by simp
    then show ?thesis using IH s by (simp add: ps(2) successes_step)
  next
    fix e assume "p = Failed e" "published v = published w"
    then show ?thesis using IH by (simp add: ps(2))
  qed
qed simp

lemma legacy_bulk_successes:
  fixes w :: "'a pubsub_world_scheme"
  assumes run: "run_state (PubSubBackend_EnqueueBulk (legacy_pubsub ts) jobs) w = (rs, w')"
  shows "length (published w) \<le> length (published w')
    \<and> length (filter went_well rs) = successes (publish_errors w') (length (published w)) (length (published w'))"
proof -
  let ?b = "legacy_pubsub ts :: 'a pubsub_world_scheme pubsub_backend"
  obtain ps w1 where ps: "run_state (State_Monad.traverse_list (publish_one ?b) jobs) w = (ps, w1)" by fastforce
  have len: "length ps = length jobs" using length_traverse_list [of "publish_one ?b" jobs w] ps by simp
  have rs: "rs = map2 (wait_result (publish_errors w1)) jobs ps" and w': "published w' = published w1" "publish_errors w' = publish_errors w1"
    using run run_PubSubBackend_EnqueueBulk [OF ps] by auto
  have well: "went_well (wait_result errs j p) \<longleftrightarrow> (\<exists>n. p = Sent n \<and> errs n = None)" for errs j p
    by (cases p) (simp_all add: wait_result_def went_well_def)
  have "length (filter went_well rs) = length (filter (\<lambda>p. \<exists>n. p = Sent n \<and> publish_errors w1 n = None) ps)"
    unfolding rs using len by (induction jobs ps rule: list_induct2') (simp_all add: well)
  with publish_all_successes [OF _ ps] show ?thesis by (simp add: w')
qed


section \<open>Tasks\<close>

lemma Schedule_success:
  assumes "run_state (CloudTasksScheduler_Schedule s j) w = (e, w')"
  shows "(task_calls w' = task_calls w \<and> e \<noteq> None \<or> task_calls w' = Suc (task_calls w) \<and> (e = None) = (task_faults w (task_calls w) = None))
    \<and> task_faults w' = task_faults w"
proof -
  obtain data where d: "marshalJob j = Inr data" using marshalJob_total by blast
  show ?thesis
  proof (cases "MaxTaskBodySize < length data")
    case True
    then show ?thesis using assms d by (auto simp: CloudTasksScheduler_Schedule_def)
  next
    case False
    then show ?thesis using assms d
      by (cases "task_faults w (task_calls w)") (auto simp: CloudTasksScheduler_Schedule_def split: prod.splits)
  qed
qed

lemma schedule_slots_successes:
  assumes "run_state (schedule_slots s ts results) w = (rs, w')" and "distinct (map fst ts)"
    and "\<forall>k \<in> fst ` set ts. k < length results"
  shows "task_faults w' = task_faults w \<and> task_calls w \<le> task_calls w'
    \<and> (\<forall>k < length results. k \<notin> fst ` set ts \<longrightarrow> rs ! k = results ! k)
    \<and> length (filter (\<lambda>k. went_well (rs ! k)) (map fst ts)) = successes (task_faults w) (task_calls w) (task_calls w')"
  using assms
proof (induction ts arbitrary: results w)
  case (Cons t ts)
  obtain idx j where t: "t = (idx, j)" by fastforce
  obtain e v where e: "run_state (CloudTasksScheduler_Schedule s j) w = (e, v)" by fastforce
  let ?r = "case e of Some e \<Rightarrow> \<lparr>result_JobID = '''', result_Error = Some e\<rparr>
      | None \<Rightarrow> \<lparr>result_JobID = job_ID j, result_Error = None\<rparr>"
  have rest: "run_state (schedule_slots s ts (results[idx := ?r])) v = (rs, w')"
    using Cons.prems e by (simp add: t schedule_slot_def)
  have ks: "\<forall>k \<in> fst ` set ts. k < length (results[idx := ?r])" using Cons.prems(3) by simp
  have d: "distinct (map fst ts)" "idx \<notin> fst ` set ts" using Cons.prems(2) by (auto simp: t)
  note IH = Cons.IH [OF rest d(1) ks]
  have idx: "idx < length results" using Cons.prems(3) by (simp add: t)
  then have "rs ! idx = ?r" using IH d(2) by simp
  then have well: "went_well (rs ! idx) \<longleftrightarrow> e = None" by (simp add: went_well_def split: option.split)
  have "length (filter (\<lambda>k. went_well (rs ! k)) (map fst (t # ts)))
      = (if e = None then 1 else 0) + successes (task_faults w) (task_calls v) (task_calls w')"
    using IH well Schedule_success [OF e] by (simp add: t)
  also have "\<dots> = successes (task_faults w) (task_calls w) (task_calls w')"
    using Schedule_success [OF e] IH successes_step [of "task_calls w" "task_calls w'" "task_faults w"] by auto
  finally show ?case using IH Schedule_success [OF e] by (auto simp: t)
qed simp

lemma ScheduleBulk_successes:
  assumes "run_state (CloudTasksScheduler_ScheduleBulk s jobs) w = (rs, w')"
  shows "task_calls w \<le> task_calls w'
    \<and> length (filter went_well rs) = successes (task_faults w) (task_calls w) (task_calls w')"
proof -
  define order where "order = permute (choice w (choice_pos w)) (List.enumerate 0 jobs)"
  have run: "run_state (schedule_slots s order (replicate (length jobs) zero_result)) (w\<lparr>choice_pos := Suc (choice_pos w)\<rparr>) = (rs, w')"
    using assms by (simp add: CloudTasksScheduler_ScheduleBulk_def order_def)
  have "mset (map fst order) = mset (map fst (List.enumerate 0 jobs))"
    unfolding mset_map order_def by (simp only: mset_permute)
  then have m: "mset (map fst order) = mset [0..<length jobs]" by (simp add: map_fst_enumerate)
  then have "distinct (map fst order)" "set (map fst order) = {0..<length jobs}"
    using mset_eq_imp_distinct_iff [OF m] mset_eq_setD [OF m] by simp_all
  then have dom: "\<forall>k \<in> fst ` set order. k < length (replicate (length jobs) zero_result)" and "distinct (map fst order)" by auto
  from schedule_slots_successes [OF run this(2,1)]
  have "task_calls w \<le> task_calls w'" and n: "length (filter (\<lambda>k. went_well (rs ! k)) (map fst order))
      = successes (task_faults w) (task_calls w) (task_calls w')" by auto
  have "length rs = length jobs" using run_schedule_slots [OF run] by simp
  then have "filter went_well rs = filter went_well (map ((!) rs) [0..<length jobs])" by (metis map_nth)
  then have "length (filter went_well rs) = length (filter (\<lambda>k. went_well (rs ! k)) [0..<length jobs])"
    by (simp add: filter_map comp_def)
  also have "\<dots> = length (filter (\<lambda>k. went_well (rs ! k)) (map fst order))"
    using m by (metis mset_filter size_mset)
  finally show ?thesis using n \<open>task_calls w \<le> task_calls w'\<close> by simp
qed


section \<open>Answers\<close>

text \<open>The slots the two kinds of results are written into, where one gives no reason exactly for a success.\<close>

lemma apply_result_reason: "bulk_result_Reason b = [] \<Longrightarrow> bulk_result_Reason (apply_result r b) = [] \<longleftrightarrow> went_well r"
  by (simp add: apply_result_def went_well_def bulkReasonInternalError_def split: option.split)

lemma filled_reasons:
  assumes d: "distinct is" and k: "\<forall>i \<in> set is. i < length results" and len: "length is = length brs"
    and clear: "\<forall>i \<in> set is. bulk_result_Reason (results ! i) = []"
  shows "length (filter (\<lambda>i. bulk_result_Reason (fill_results 0 is brs results ! i) = []) is) = length (filter went_well brs)"
proof -
  have "fill_results 0 is brs results ! (is ! m) = apply_result (brs ! m) (results ! (is ! m))" if "m < length is" for m
    using d k len that by (subst fill_results_nth) auto
  then have "bulk_result_Reason (fill_results 0 is brs results ! (is ! m)) = [] \<longleftrightarrow> went_well (brs ! m)" if "m < length is" for m
    using clear that by (simp add: apply_result_reason)
  then have "map (\<lambda>i. bulk_result_Reason (fill_results 0 is brs results ! i) = []) is = map went_well brs"
    by (intro nth_equalityI) (simp_all add: len)
  then have "length (filter id (map (\<lambda>i. bulk_result_Reason (fill_results 0 is brs results ! i) = []) is))
      = length (filter id (map went_well brs))" by simp
  then show ?thesis by (simp add: filter_map comp_def)
qed

lemma length_filter_nth: "length (filter P xs) = card {i. i < length xs \<and> P (xs ! i)}"
  by (rule length_filter_conv_card)

text \<open>
  The answers without a reason: none for a rejected request, and one for each result without
  an error of the requests that were handed on.
\<close>

lemma answers_count:
  assumes d: "distinct (map fst im @ map fst fu)"
    and idx: "set im \<union> set fu = {(k, j). (k, Some j) \<in> set (List.enumerate 0 (map out_job outs))}"
    and ir: "length ir = length im" and fr: "length fr = length fu"
    and outs: "list_all2 (\<lambda>r x. case bulk_validation srv r of
      Some mr \<Rightarrow> x = Inl mr | None \<Rightarrow> (\<exists>ws j. x = Inr (ws, j) \<and> job_of srv shadow r j)) reqs outs"
  defines "base \<equiv> fill_validation 0 (map out_error outs) (map out_reason outs)
      (map (\<lambda>i. fresh_result i (reqs ! i) (map out_warnings outs ! i)) [0..<length reqs])"
  shows "length (filter (\<lambda>b. bulk_result_Reason b = [])
      (fill_results 0 (map fst fu) fr (fill_results 0 (map fst im) ir base)))
    = length (filter went_well ir) + length (filter went_well fr)"
proof -
  let ?mid = "fill_results 0 (map fst im) ir base"
  let ?out = "fill_results 0 (map fst fu) fr ?mid"
  let ?good = "\<lambda>i. bulk_result_Reason (?out ! i) = []"
  have len: "length outs = length reqs" using outs by (simp add: list_all2_lengthD)
  have lb: "length base = length reqs" by (simp add: base_def)
  have handed: "i \<in> set (map fst im @ map fst fu) \<longleftrightarrow> i < length reqs \<and> (\<exists>j. out_job (outs ! i) = Some j)" for i
  proof -
    have "i \<in> set (map fst im @ map fst fu) \<longleftrightarrow> (\<exists>j. (i, j) \<in> set im \<union> set fu)" by force
    then show ?thesis unfolding idx using len by (auto simp: in_set_enumerate_eq)
  qed
  have base: "base ! i = (if out_error (outs ! i) \<noteq> []
      then (fresh_result i (reqs ! i) (out_warnings (outs ! i)))\<lparr>bulk_result_Error := out_error (outs ! i), bulk_result_Reason := out_reason (outs ! i)\<rparr>
      else fresh_result i (reqs ! i) (out_warnings (outs ! i)))" if "i < length reqs" for i
    unfolding base_def using that len by (subst fill_validation_nth [THEN conjunct1]) simp_all
  have reason: "bulk_result_Reason (base ! i) = [] \<longleftrightarrow> i \<in> set (map fst im @ map fst fu)" if i: "i < length reqs" for i
  proof (cases "bulk_validation srv (reqs ! i)")
    case (Some mr)
    obtain m q where mr: "mr = (m, q)" by fastforce
    have x: "outs ! i = Inl (m, q)" using list_all2_nthD [OF outs i] Some mr by simp
    have "m \<noteq> []" "q \<noteq> []" using Some mr by (auto simp: bulk_validation_def bulk_reason_defs split: if_splits)
    then show ?thesis unfolding handed base [OF i] using x by simp
  next
    case None
    obtain ws j where x: "outs ! i = Inr (ws, j)" using list_all2_nthD [OF outs i] None by auto
    then show ?thesis unfolding handed base [OF i] using i by (simp add: fresh_result_def)
  qed
  have imk: "\<forall>i \<in> set (map fst im). i < length base \<and> bulk_result_Reason (base ! i) = []"
  proof
    fix i assume "i \<in> set (map fst im)"
    then have i: "i \<in> set (map fst im @ map fst fu)" by simp
    then have "i < length reqs" unfolding handed by simp
    with reason i show "i < length base \<and> bulk_result_Reason (base ! i) = []" by (simp add: lb)
  qed
  have fuk: "\<forall>i \<in> set (map fst fu). i < length ?mid \<and> bulk_result_Reason (?mid ! i) = []"
  proof
    fix i assume i: "i \<in> set (map fst fu)"
    then have "i \<notin> set (map fst im)" using d by auto
    then have "?mid ! i = base ! i" by (rule fill_results_other)
    moreover have h: "i \<in> set (map fst im @ map fst fu)" using i by simp
    moreover have "i < length reqs" using h unfolding handed by simp
    ultimately show "i < length ?mid \<and> bulk_result_Reason (?mid ! i) = []" using reason by (simp add: lb)
  qed
  have keep: "?out ! i = ?mid ! i" if "i \<in> set (map fst im)" for i
    using that d by (intro fill_results_other) auto
  have none: "?good i \<longrightarrow> i \<in> set (map fst im @ map fst fu)" if i: "i < length reqs" for i
  proof (rule ccontr)
    assume "\<not> (?good i \<longrightarrow> i \<in> set (map fst im @ map fst fu))"
    then have g: "?good i" and n: "i \<notin> set (map fst im)" "i \<notin> set (map fst fu)" by auto
    from g have "bulk_result_Reason (base ! i) = []" by (simp add: fill_results_other [OF n(1)] fill_results_other [OF n(2)])
    with reason [OF i] n show False by simp
  qed
  have lo: "length ?out = length reqs" by (simp add: lb)
  have "{i. i < length ?out \<and> ?good i} = {i \<in> set (map fst im @ map fst fu). ?good i}"
    unfolding lo using none handed by blast
  then have "length (filter (\<lambda>b. bulk_result_Reason b = []) ?out) = card (set (filter ?good (map fst im @ map fst fu)))"
    by (simp only: length_filter_nth set_filter)
  also have "\<dots> = length (filter ?good (map fst im @ map fst fu))"
    by (intro distinct_card distinct_filter d)
  also have "\<dots> = length (filter ?good (map fst im)) + length (filter ?good (map fst fu))"
    by simp
  also have "length (filter ?good (map fst fu)) = length (filter went_well fr)"
    using d fuk fr by (intro filled_reasons) auto
  also have "filter ?good (map fst im) = filter (\<lambda>i. bulk_result_Reason (?mid ! i) = []) (map fst im)"
    by (rule filter_cong) (simp_all add: keep)
  also have "length \<dots> = length (filter went_well ir)"
    using d imk ir by (intro filled_reasons) auto
  finally show ?thesis .
qed


section \<open>Property\<close>

lemma production_bulk_accounts:
  fixes w :: "'a tasks_world_scheme"
  assumes srv: "srv = svc_server (production_service ext cfg lib gc ts s)"
    and run: "run_state (Server_EnqueueBulk srv ctx req) w = (Inr resp, w')"
  shows "length (filter (\<lambda>b. bulk_result_Reason b = []) (enqueue_bulk_response_Results resp))
    = successes (publish_errors w) (length (published w)) (length (published w'))
      + successes (task_faults w) (task_calls w) (task_calls w')"
proof -
  have ne: "enqueue_bulk_request_Jobs req \<noteq> []" using run by (auto simp: Server_EnqueueBulk_def)
  show ?thesis
  proof (rule run_EnqueueBulk_stages [OF run ne])
    fix outs w1 im fu w2 ir w3 fr w4
    assume outs: "run_state (State_Monad.traverse_list (prepare_each srv (shadowFromContext ctx)) (enqueue_bulk_request_Jobs req))
        (snd (run_state time_now w)) = (outs, w1)"
      and q12: "quiet w1 w2"
      and d: "distinct (map fst im @ map fst fu)"
      and idx: "set im \<union> set fu = {(k, j). (k, Some j) \<in> set (List.enumerate 0 (map out_job outs))}"
      and ir: "run_state (if map snd im \<noteq> [] then backend_EnqueueBulk (srv_backend srv) (map snd im) else ret []) w2 = (ir, w3)"
      and fr: "run_state (schedule_futures srv (map snd fu)) w3 = (fr, w4)"
      and x: "Inr resp = Inr \<lparr>enqueue_bulk_response_Results =
        fill_results 0 (map fst fu) fr (fill_results 0 (map fst im) ir
          (fill_validation 0 (map out_error outs) (map out_reason outs)
            (map (\<lambda>i. fresh_result i (enqueue_bulk_request_Jobs req ! i) (map out_warnings outs ! i))
              [0..<length (enqueue_bulk_request_Jobs req)])))\<rparr>"
      and q: "quiet w4 w'"
    have "quiet_server srv" unfolding srv by (rule production_quiet)
    then have "quiet w (snd (run_state time_now w))" "quiet (snd (run_state time_now w)) w1"
      using quietlyD [OF quietly_now] quietlyD [OF quietly_traverse [OF quietly_prepare_each] outs] by (auto simp: prod_eq_iff)
    then have "quiet w w2" using q12 quiet_trans by blast
    note w2 = quiet_fields [OF this] and w' = quiet_fields [OF q]
    have im: "length ir = length im
        \<and> length (filter went_well ir) = successes (publish_errors w) (length (published w)) (length (published w3))
        \<and> task_calls w3 = task_calls w \<and> task_faults w3 = task_faults w"
    proof (cases "im = []")
      case True
      then have "ir = []" "w3 = w2" using ir by simp_all
      then show ?thesis using True by (simp add: w2)
    next
      case False
      then have r: "run_state (PubSubBackend_EnqueueBulk (legacy_pubsub ts) (map snd im)) w2 = (ir, w3)"
        using ir by (simp add: srv pubsub_queue_def)
      have "length ir = length im" using legacy_bulk_published [OF r] by (metis length_map)
      then show ?thesis using legacy_bulk_successes [OF r] PubSubBackend_EnqueueBulk_effect [OF _ r] by (auto simp: w2)
    qed
    have fu: "length fr = length fu
        \<and> length (filter went_well fr) = successes (task_faults w3) (task_calls w3) (task_calls w4) \<and> published w4 = published w3"
    proof (cases "fu = []")
      case True
      then show ?thesis using fr by (simp add: schedule_futures_def)
    next
      case False
      then have r: "run_state (CloudTasksScheduler_ScheduleBulk s (map snd fu)) w3 = (fr, w4)"
        using fr by (simp add: schedule_futures_def srv cloud_tasks_def)
      have "length fr = length fu" using run_ScheduleBulk [OF r] by (auto dest: list_all2_lengthD)
      then show ?thesis using ScheduleBulk_successes [OF r] CloudTasksScheduler_ScheduleBulk_effect [OF r] by auto
    qed
    show ?thesis
      using answers_count [OF d idx _ _ prepare_each_out [OF outs], of ir fr] im fu x by (simp add: w')
  qed
qed

text \<open>
  C14. A bulk call reports what it did, job for job: the answers without a reason are exactly as many
  as the messages it published that were confirmed and the tasks Cloud Tasks took from it. So no job
  is delivered twice, none is delivered without being reported, and none reported that was not.
\<close>

lemma bulk_accounts_balance:
  fixes w :: "'a tasks_world_scheme"
  assumes "run_state (Server_EnqueueBulk (svc_server (production_service ext cfg lib gc ts s)) ctx req) w = (Inr resp, w')"
  shows "length (filter (\<lambda>b. bulk_result_Reason b = []) (enqueue_bulk_response_Results resp))
    = card {n. length (published w) \<le> n \<and> n < length (published w') \<and> publish_errors w n = None}
      + card {n. task_calls w \<le> n \<and> n < task_calls w' \<and> task_faults w n = None}"
  using production_bulk_accounts [OF refl assms] by (simp only: successes_def)

lemma bulk_accounts_balance_witness:
  "\<exists>resp. fst (run_state (Server_EnqueueBulk sample_production None \<lparr>enqueue_bulk_request_Jobs = [sample_now, sample_later]\<rparr>)
      sample_tasks_world) = Inr resp
    \<and> length (filter (\<lambda>b. bulk_result_Reason b = []) (enqueue_bulk_response_Results resp))
      = length (published (snd (run_state (Server_EnqueueBulk sample_production None \<lparr>enqueue_bulk_request_Jobs = [sample_now, sample_later]\<rparr>)
          sample_tasks_world)))
        + task_calls (snd (run_state (Server_EnqueueBulk sample_production None \<lparr>enqueue_bulk_request_Jobs = [sample_now, sample_later]\<rparr>)
          sample_tasks_world))"
proof -
  let ?req = "\<lparr>enqueue_bulk_request_Jobs = [sample_now, sample_later]\<rparr>"
  obtain x w' where run: "run_state (Server_EnqueueBulk sample_production None ?req) sample_tasks_world = (x, w')" by fastforce
  then obtain resp where x: "x = Inr resp" by (rule run_EnqueueBulk_stages) simp_all
  have "card {n. n < m} = m" for m :: nat by simp
  with bulk_accounts_balance [OF run [unfolded x]] run x show ?thesis by (simp add: sample_tasks_world_def)
qed

end
