(* ===== verification/Startup.thy ===== *)
theory Startup
  imports Delivery
begin

text \<open>
  The start of the process: when the initialisation of cmd/jack/main.go fails, and what the
  service does that comes up when nothing is configured.
\<close>


section \<open>Coming up\<close>

lemma init_backend_fails: "(\<exists>e. init_backend ext cfg = Inl e) \<longleftrightarrow>
    QueueBackend cfg = ''pubsub'' \<and> (PubSubProject cfg = [] \<or> (\<exists>e. ext_pubsub_error ext = Some e))"
  by (auto simp: init_backend_def main_pubsub_def NewPubSubBackend_def split: option.split)

lemma init_scheduler_fails: "(\<exists>e. init_scheduler ext cfg = Inl e) \<longleftrightarrow> CloudTasksProject cfg \<noteq> [] \<and> ext_tasks_error ext \<noteq> None"
  by (auto simp: init_scheduler_def main_cloud_tasks_def NewCloudTasksScheduler_def split: option.split)

lemma init_statsd_fails: "(\<exists>e. init_statsd ext cfg = Inl e) \<longleftrightarrow> DatadogStatsdAddr cfg \<noteq> [] \<and> ext_statsd_error ext \<noteq> None"
  by (auto simp: init_statsd_def split: option.split)

lemma init_store_fails:
  "(\<exists>e. fst (run_state (init_store ext cfg) w) = Inl e) \<longleftrightarrow>
     GCSBucket cfg \<noteq> [] \<and> fst (run_state (NewGCSStore (ext_lib ext) (main_gcs cfg) (ext_gcs_error ext)) w) \<noteq> None"
  by (auto simp: init_store_def NewMemoryStore_def split: prod.split option.split)

lemma main_init_fails:
  fixes w :: "'a tasks_world_scheme"
  shows "(\<exists>e. fst (run_state (main_init ext cfg) w) = Inl e) \<longleftrightarrow>
    (\<exists>e. init_statsd ext cfg = Inl e) \<or> (\<exists>e. fst (run_state (init_store ext cfg) w) = Inl e)
    \<or> (\<exists>e. init_backend ext cfg = (Inl e :: string + 'a tasks_world_scheme backend))
    \<or> (\<exists>e. init_scheduler ext cfg = (Inl e :: string + 'a tasks_world_scheme scheduler))"
  by (auto simp: main_init_def split: sum.split prod.split)

lemma Load_blank:
  assumes "\<And>key. cenv_Get getenv key = []"
  shows "QueueBackend (Load frac getenv) = ''noop''" "GCSBucket (Load frac getenv) = []" "DatadogStatsdAddr (Load frac getenv) = []"
    "CloudTasksProject (Load frac getenv) = []"
  using assms by (simp_all add: Load_def cenv_GetOrDefault_def)

lemma blank_init:
  fixes w :: "'a tasks_world_scheme"
  assumes "\<And>key. cenv_Get getenv key = []"
  shows "run_state (main_init ext (Load frac getenv)) w =
    (Inr (wire ext (Load frac getenv) (memory_store (gcs_pb (ext_lib ext))) (noop_queue (NewNoopBackend DefaultConfig)) NewNoopScheduler),
     w\<lparr>producers := [], jobTypes := []\<rparr>)"
  by (simp add: main_init_def init_statsd_def init_store_def init_backend_def init_scheduler_def Load_blank [OF assms] NewMemoryStore_def)

lemma noop_enqueue_silent:
  fixes w :: "'a tasks_world_scheme"
  assumes srv: "srv = svc_server (wire ext cfg (memory_store pb) (noop_queue n) NewNoopScheduler)"
    and run: "run_state (Server_Enqueue srv ctx r) w = (x, w')"
  shows "quiet w w'"
proof (cases "rejection srv r")
  case (Some m)
  then show ?thesis using run_Enqueue_rejected [OF _ run] by blast
next
  case None
  have "quiet_server srv" by (rule mem_deployed.quiet_server [where pb = pb]) (simp add: srv)
  from run_Enqueue_accepted [OF this None run] show ?thesis
  proof (elim exE conjE)
    fix j ws future v e v'
    assume q: "quiet w v" "quiet v' w'" and h: "handed_over srv j future v e v'"
    have "v' = v"
      using h by (auto simp: handed_over_def srv NewNoopScheduler_def NoopScheduler_Schedule_def noop_queue_def
          NoopBackend_Enqueue_def split: if_splits option.splits)
    with q show ?thesis using quiet_trans by blast
  qed
qed


section \<open>Properties\<close>

text \<open>
  A process started with nothing set always comes up, and its calls are answered, but
  whatever it accepts goes nowhere: no call publishes a message or creates a task.
\<close>

lemma blank_service_delivers_nothing:
  fixes w :: "'a tasks_world_scheme"
  assumes "\<And>key. cenv_Get getenv key = []" and "run_state (main_init ext (Load frac getenv)) w = (x, w1)"
  shows "\<exists>svc. x = Inr svc \<and> (\<forall>ctx r. case run_state (Server_Enqueue (svc_server svc) ctx r) w1 of (y, w2) \<Rightarrow>
    published w2 = published w \<and> tasks w2 = tasks w)"
proof -
  let ?svc = "wire ext (Load frac getenv) (memory_store (gcs_pb (ext_lib ext))) (noop_queue (NewNoopBackend DefaultConfig))
    NewNoopScheduler :: 'a tasks_world_scheme service"
  have x: "x = Inr ?svc" "w1 = w\<lparr>producers := [], jobTypes := []\<rparr>" using assms(2) blank_init [OF assms(1), of ext frac w] by simp_all
  have "published w2 = published w \<and> tasks w2 = tasks w"
    if "run_state (Server_Enqueue (svc_server ?svc) ctx r) w1 = (y, w2)" for ctx r y w2
    using quiet_fields(1,2) [OF noop_enqueue_silent [OF refl that]] x(2) by simp
  with x(1) show ?thesis by (auto split: prod.split)
qed

lemma blank_service_delivers_nothing_witness:
  "\<exists>svc. fst (run_state (main_init sample_externals (Load (\<lambda>_ _ _. 0) (\<lambda>_. '' ''))) sample_tasks_world) = Inr (svc :: tasks_world service)"
proof -
  have "cenv_Get (\<lambda>_. '' '') key = []" for key unfolding cenv_Get_def by code_simp
  from blank_service_delivers_nothing [OF this prod.collapse [symmetric]] show ?thesis by blast
qed

end
