(* ===== verification/Threads.thy ===== *)
theory Threads
  imports Prelude
begin

text \<open>
  Threads: a computation as a sequence of atomic steps on a shared world, between which
  other threads may run. \<open>run_thread\<close> is the computation when nothing comes between; a pool
  is a world with the threads that are under way; \<open>safe\<close> is a rely-guarantee judgement
  from which the properties of every interleaving follow.
\<close>


section \<open>Threads\<close>

text \<open>The next step changes the world, and what is left depends on the world it found.\<close>

datatype ('w, 'a) thread =
    Finish 'a
  | Act "'w \<Rightarrow> 'w" "'w \<Rightarrow> ('w, 'a) thread"

text \<open>A computation of the state monad as one step, with the rest given its result.\<close>

definition step :: "('w, 'a) state \<Rightarrow> ('a \<Rightarrow> ('w, 'b) thread) \<Rightarrow> ('w, 'b) thread" where
  "step m k = Act (\<lambda>w. snd (run_state m w)) (\<lambda>w. k (fst (run_state m w)))"

primrec bind_thread :: "('w, 'a) thread \<Rightarrow> ('a \<Rightarrow> ('w, 'b) thread) \<Rightarrow> ('w, 'b) thread" where
  "bind_thread (Finish x) k = k x"
| "bind_thread (Act f h) k = Act f (\<lambda>w. bind_thread (h w) k)"

primrec run_thread :: "('w, 'a) thread \<Rightarrow> 'w \<Rightarrow> 'a \<times> 'w" where
  "run_thread (Finish x) = (\<lambda>w. (x, w))"
| "run_thread (Act f h) = (\<lambda>w. run_thread (h w) (f w))"

text \<open>A thread that is left alone computes what the sequential code computes.\<close>

definition implements :: "('w, 'a) thread \<Rightarrow> ('w, 'a) state \<Rightarrow> bool" where
  "implements t m \<longleftrightarrow> (\<forall>w. run_thread t w = run_state m w)"

named_theorems implementsI

lemma run_step: "run_thread (step m k) w = (case run_state m w of (x, w') \<Rightarrow> run_thread (k x) w')"
  by (simp add: step_def split: prod.split)

lemma run_bind_thread: "run_thread (bind_thread t k) w = (case run_thread t w of (x, w') \<Rightarrow> run_thread (k x) w')"
  by (induction t arbitrary: w) (simp_all split: prod.splits)

lemma implements_Done [implementsI]: "implements (Finish x) (ret x)"
  by (simp add: implements_def)

lemma implements_step [implementsI]: "(\<And>x. implements (k x) (f x)) \<Longrightarrow> implements (step m k) (State_Monad.bind m f)"
  by (simp add: implements_def run_step)

lemma implements_atomic: "implements (step m Finish) m"
  by (simp add: implements_def run_step)

lemma implements_bind [implementsI]:
  "implements t m \<Longrightarrow> (\<And>x. implements (k x) (f x)) \<Longrightarrow> implements (bind_thread t k) (State_Monad.bind m f)"
  by (simp add: implements_def run_bind_thread)

lemma implements_if [implementsI]:
  "implements t m \<Longrightarrow> implements t' m' \<Longrightarrow> implements (if b then t else t') (if b then m else m')"
  by simp

lemma implements_option [implementsI]:
  "implements t m \<Longrightarrow> (\<And>x. implements (k x) (f x)) \<Longrightarrow>
     implements (case z of None \<Rightarrow> t | Some x \<Rightarrow> k x) (case z of None \<Rightarrow> m | Some x \<Rightarrow> f x)"
  by (cases z) simp_all

lemma implements_sum [implementsI]:
  "(\<And>x. implements (g x) (h x)) \<Longrightarrow> (\<And>y. implements (k y) (f y)) \<Longrightarrow>
     implements (case s of Inl x \<Rightarrow> g x | Inr y \<Rightarrow> k y) (case s of Inl x \<Rightarrow> h x | Inr y \<Rightarrow> f y)"
  by (cases s) simp_all

lemma implements_prod [implementsI]:
  "(\<And>x y. implements (q x y) (u x y)) \<Longrightarrow> implements (case p of (x, y) \<Rightarrow> q x y) (case p of (x, y) \<Rightarrow> u x y)"
  by (cases p) simp


section \<open>Pools\<close>

text \<open>A world and the threads under way, each with the call it serves.\<close>

record ('w, 'c, 'a) pool =
  pool_world :: 'w
  pool_threads :: "('c \<times> ('w, 'a) thread) list"

text \<open>The scheduler lets one thread, whichever, make its next step.\<close>

inductive advance :: "('w, 'c, 'a) pool \<Rightarrow> ('w, 'c, 'a) pool \<Rightarrow> bool" where
  advance: "i < length (pool_threads p) \<Longrightarrow> pool_threads p ! i = (c, Act f h) \<Longrightarrow>
    advance p (p\<lparr>pool_world := f (pool_world p), pool_threads := (pool_threads p)[i := (c, h (pool_world p))]\<rparr>)"

inductive_cases advanceE: "advance p p'"

definition all_done :: "('w, 'c, 'a) pool \<Rightarrow> bool" where
  "all_done p \<longleftrightarrow> (\<forall>(c, t) \<in> set (pool_threads p). \<exists>x. t = Finish x)"


section \<open>Safety in every interleaving\<close>

text \<open>
  The other threads change the world as \<open>R\<close> allows and keep \<open>I\<close>; under this assumption a
  safe thread does so too, at every step, and its result satisfies \<open>Q\<close>.
\<close>

locale rely =
  fixes I :: "'w \<Rightarrow> bool" and R :: "'w \<Rightarrow> 'w \<Rightarrow> bool"
  assumes R_refl: "R w w" and R_trans: "R u v \<Longrightarrow> R v w \<Longrightarrow> R u w"

primrec safe :: "('w \<Rightarrow> bool) \<Rightarrow> ('w \<Rightarrow> 'w \<Rightarrow> bool) \<Rightarrow> ('a \<Rightarrow> 'w \<Rightarrow> bool) \<Rightarrow> ('w, 'a) thread \<Rightarrow> 'w \<Rightarrow> bool" where
  "safe I R Q (Finish x) = (\<lambda>w. Q x w)"
| "safe I R Q (Act f h) = (\<lambda>w. \<forall>w1. R w w1 \<longrightarrow> I w1 \<longrightarrow> R w1 (f w1) \<and> I (f w1) \<and> safe I R Q (h w1) (f w1))"

definition stable :: "('w \<Rightarrow> 'w \<Rightarrow> bool) \<Rightarrow> ('a \<Rightarrow> 'w \<Rightarrow> bool) \<Rightarrow> bool" where
  "stable R Q \<longleftrightarrow> (\<forall>x w w'. Q x w \<longrightarrow> R w w' \<longrightarrow> Q x w')"

lemma stableD: "stable R Q \<Longrightarrow> Q x w \<Longrightarrow> R w w' \<Longrightarrow> Q x w'"
  by (auto simp: stable_def)

lemma safe_weaken: "safe I R Q t w \<Longrightarrow> (\<And>x w. Q x w \<Longrightarrow> Q' x w) \<Longrightarrow> safe I R Q' t w"
  by (induction t arbitrary: w) auto

lemma safe_stepI:
  assumes "\<And>x w1 w2. R w w1 \<Longrightarrow> I w1 \<Longrightarrow> run_state m w1 = (x, w2) \<Longrightarrow> R w1 w2 \<and> I w2 \<and> safe I R Q (k x) w2"
  shows "safe I R Q (step m k) w"
  using assms [OF _ _ prod.collapse [symmetric]] by (simp add: step_def)

context rely begin

lemma safe_later: "safe I R Q t w \<Longrightarrow> stable R Q \<Longrightarrow> R w w' \<Longrightarrow> safe I R Q t w'"
proof (induction t)
  case (Finish x)
  then show ?case by (auto dest: stableD)
next
  case (Act f h)
  show ?case unfolding safe.simps
  proof (intro allI impI)
    fix w1 assume "R w' w1" "I w1"
    with Act.prems show "R w1 (f w1) \<and> I (f w1) \<and> safe I R Q (h w1) (f w1)" using R_trans by auto
  qed
qed

text \<open>The result comes in a world that has evolved from the one the thread started in.\<close>

lemma safe_since: "safe I R Q t w \<Longrightarrow> R v w \<Longrightarrow> safe I R (\<lambda>x u. Q x u \<and> R v u) t w"
proof (induction t arbitrary: w)
  case (Act f h)
  show ?case unfolding safe.simps
  proof (intro allI impI)
    fix w1 assume w1: "R w w1" "I w1"
    with Act.prems have f: "R w1 (f w1)" "I (f w1)" "safe I R Q (h w1) (f w1)" by auto
    moreover have "R v (f w1)" using R_trans Act.prems(2) w1(1) f(1) by blast
    ultimately show "R w1 (f w1) \<and> I (f w1) \<and> safe I R (\<lambda>x u. Q x u \<and> R v u) (h w1) (f w1)"
      using Act.IH [OF rangeI] by blast
  qed
qed simp

lemma safe_bind:
  assumes "safe I R P t w" and "I w" and "\<And>x w'. P x w' \<Longrightarrow> I w' \<Longrightarrow> R w w' \<Longrightarrow> safe I R Q (k x) w'"
  shows "safe I R Q (bind_thread t k) w"
  using assms
proof (induction t arbitrary: w)
  case (Finish x)
  then show ?case using R_refl by simp
next
  case (Act f h)
  show ?case unfolding bind_thread.simps safe.simps
  proof (intro allI impI)
    fix w1 assume w1: "R w w1" "I w1"
    with Act.prems(1) have f: "R w1 (f w1)" "I (f w1)" "safe I R P (h w1) (f w1)" by auto
    have "R w (f w1)" using R_trans w1 f by blast
    then have "safe I R Q (bind_thread (h w1) k) (f w1)"
      using Act.IH [OF rangeI f(3,2)] Act.prems(3) R_trans by blast
    with f show "R w1 (f w1) \<and> I (f w1) \<and> safe I R Q (bind_thread (h w1) k) (f w1)" by blast
  qed
qed

lemma safe_atomic:
  assumes "I w" and "\<And>x w1 w2. R w w1 \<Longrightarrow> I w1 \<Longrightarrow> run_state m w1 = (x, w2) \<Longrightarrow> R w1 w2 \<and> I w2 \<and> Q x w2"
  shows "safe I R Q (step m Finish) w"
  using assms(2) by (intro safe_stepI) simp

text \<open>One step of any thread of a pool keeps all of them safe.\<close>

definition pool_safe :: "('c \<Rightarrow> 'a \<Rightarrow> 'w \<Rightarrow> bool) \<Rightarrow> ('w, 'c, 'a) pool \<Rightarrow> bool" where
  "pool_safe Q p \<longleftrightarrow> I (pool_world p) \<and> (\<forall>(c, t) \<in> set (pool_threads p). safe I R (Q c) t (pool_world p))"

lemma advance_safe:
  assumes "advance p p'" and safe: "pool_safe Q p" and stable: "\<And>c. stable R (Q c)"
  shows "pool_safe Q p' \<and> R (pool_world p) (pool_world p')"
  using assms(1)
proof (rule advanceE)
  fix i c f h
  let ?w = "pool_world p"
  assume i: "i < length (pool_threads p)" "pool_threads p ! i = (c, Act f h)"
    and p': "p' = p\<lparr>pool_world := f ?w, pool_threads := (pool_threads p)[i := (c, h ?w)]\<rparr>"
  have "(c, Act f h) \<in> set (pool_threads p)" using i nth_mem by fastforce
  then have "safe I R (Q c) (Act f h) ?w" "I ?w" using safe by (auto simp: pool_safe_def)
  then have f: "R ?w (f ?w)" "I (f ?w)" "safe I R (Q c) (h ?w) (f ?w)" using R_refl by auto
  have "safe I R (Q c') t (f ?w)" if "(c', t) \<in> set ((pool_threads p)[i := (c, h ?w)])" for c' t
  proof -
    from that consider "(c', t) = (c, h ?w)" | "(c', t) \<in> set (pool_threads p)"
      using set_update_subset_insert by fast
    then show ?thesis using f safe_later [OF _ stable f(1)] safe by cases (auto simp: pool_safe_def)
  qed
  with f show ?thesis by (auto simp: pool_safe_def p')
qed

end


section \<open>Termination\<close>

definition rest_of :: "(('w, 'a) thread \<times> ('w, 'a) thread) set" where
  "rest_of = {(t, u). \<exists>f h w. u = Act f h \<and> t = h w}"

lemma wf_rest_of: "wf (rest_of :: (('w, 'a) thread \<times> ('w, 'a) thread) set)"
proof (rule wfUNIVI)
  fix P :: "('w, 'a) thread \<Rightarrow> bool" and t
  assume step: "\<forall>t. (\<forall>u. (u, t) \<in> rest_of \<longrightarrow> P u) \<longrightarrow> P t"
  show "P t"
  proof (induction t)
    case (Finish x)
    show ?case by (rule step [rule_format]) (simp add: rest_of_def)
  next
    case (Act f h)
    show ?case by (rule step [rule_format]) (auto simp: rest_of_def Act)
  qed
qed

text \<open>However the steps are interleaved, a pool without new arrivals comes to an end.\<close>

lemma advance_terminates: "wf {(p', p :: ('w, 'c, 'a) pool). advance p p'}"
proof (rule wf_subset)
  let ?f = "\<lambda>p :: ('w, 'c, 'a) pool. map snd (pool_threads p)"
  show "wf (inv_image (listrel1 rest_of) ?f)" by (intro wf_inv_image) (simp add: wf_rest_of)
  show "{(p', p). advance p p'} \<subseteq> inv_image (listrel1 rest_of) ?f"
  proof clarify
    fix p' p :: "('w, 'c, 'a) pool" assume "advance p p'"
    then show "(p', p) \<in> inv_image (listrel1 rest_of) ?f"
    proof (rule advanceE)
      fix i c f h
      assume i: "i < length (pool_threads p)" "pool_threads p ! i = (c, Act f h)"
        and p': "p' = p\<lparr>pool_world := f (pool_world p), pool_threads := (pool_threads p)[i := (c, h (pool_world p))]\<rparr>"
      have "(h (pool_world p), ?f p ! i) \<in> rest_of" using i by (auto simp: rest_of_def)
      moreover have "?f p' = take i (?f p) @ h (pool_world p) # drop (Suc i) (?f p)"
        using i by (simp add: p' upd_conv_take_nth_drop take_map drop_map)
      moreover have "?f p = take i (?f p) @ (?f p ! i) # drop (Suc i) (?f p)" using i by (intro id_take_nth_drop) simp
      ultimately have "(?f p', ?f p) \<in> listrel1 rest_of" by (intro listrel1I)
      then show ?thesis by simp
    qed
  qed
qed

text \<open>A pool that cannot advance has only finished threads.\<close>

lemma stuck_all_done: "(\<nexists>p'. advance p p') \<Longrightarrow> all_done p"
proof -
  assume stuck: "\<nexists>p'. advance p p'"
  have "\<exists>x. t = Finish x" if ct: "(c, t) \<in> set (pool_threads p)" for c t
  proof (cases t)
    case (Act f h)
    obtain i where "i < length (pool_threads p)" "pool_threads p ! i = (c, Act f h)"
      using ct Act by (auto simp: in_set_conv_nth)
    from advance [OF this] stuck show ?thesis by blast
  qed blast
  then show ?thesis by (auto simp: all_done_def)
qed

lemma pool_drains: "\<exists>p'. advance\<^sup>*\<^sup>* p p' \<and> all_done p'"
proof -
  have "\<exists>p'. (p', p) \<in> {(p', p). advance\<^sup>*\<^sup>* p p'} \<and> all_done p'"
    using advance_terminates
  proof (induction p rule: wf_induct_rule)
    case (less p)
    show ?case
    proof (cases "\<exists>p'. advance p p'")
      case True
      then obtain p' where p': "advance p p'" by blast
      with less obtain p'' where "advance\<^sup>*\<^sup>* p' p''" "all_done p''" by auto
      with p' show ?thesis by (auto intro: converse_rtranclp_into_rtranclp)
    next
      case False
      then show ?thesis using stuck_all_done by auto
    qed
  qed
  then show ?thesis by auto
qed


section \<open>Claims\<close>

text \<open>
  Some results claim a name that the world's registry \<open>own\<close> did not have before the step
  that made the result, and has after it.
\<close>

definition done_claim :: "('a \<Rightarrow> 'n option) \<Rightarrow> ('w, 'a) thread \<Rightarrow> 'n option" where
  "done_claim cl t = (case t of Finish x \<Rightarrow> cl x | Act _ _ \<Rightarrow> None)"

primrec claims :: "('w \<Rightarrow> bool) \<Rightarrow> ('w \<Rightarrow> 'n set) \<Rightarrow> ('a \<Rightarrow> 'n option) \<Rightarrow> ('w, 'a) thread \<Rightarrow> bool" where
  "claims I own cl (Finish x) = True"
| "claims I own cl (Act f h) = (\<forall>w. I w \<longrightarrow> claims I own cl (h w)
     \<and> (\<forall>n. done_claim cl (h w) = Some n \<longrightarrow> n \<notin> own w \<and> n \<in> own (f w)))"

lemma done_claim_simps [simp]: "done_claim cl (Finish x) = cl x" "done_claim cl (Act f h) = None"
  by (simp_all add: done_claim_def)

lemma claims_step:
  assumes "\<And>w x w'. I w \<Longrightarrow> run_state m w = (x, w') \<Longrightarrow> claims I own cl (k x)
    \<and> (\<forall>n. done_claim cl (k x) = Some n \<longrightarrow> n \<notin> own w \<and> n \<in> own w')"
  shows "claims I own cl (step m k)"
  using assms [OF _ prod.collapse [symmetric]] by (simp add: step_def)

lemma done_claim_step [simp]: "done_claim cl (step m k) = None"
  by (simp add: step_def)

text \<open>A thread that never claims anything.\<close>

lemma claims_nothing:
  fixes t :: "('w, 'a) thread"
  assumes "\<And>x. cl x = None"
  shows "claims I own cl t" and "done_claim cl t = None"
proof -
  have none: "done_claim cl t = None" for t :: "('w, 'a) thread" using assms by (cases t) simp_all
  then show "done_claim cl t = None" .
  show "claims I own cl t" by (induction t) (simp_all add: none)
qed

text \<open>No two finished threads of a pool claim the same name.\<close>

definition claims_ok :: "('w \<Rightarrow> bool) \<Rightarrow> ('w \<Rightarrow> 'n set) \<Rightarrow> ('c \<Rightarrow> 'a \<Rightarrow> 'n option) \<Rightarrow> ('w, 'c, 'a) pool \<Rightarrow> bool" where
  "claims_ok I own cl p \<longleftrightarrow>
     (\<forall>(c, t) \<in> set (pool_threads p). claims I own (cl c) t
        \<and> (\<forall>n. done_claim (cl c) t = Some n \<longrightarrow> n \<in> own (pool_world p)))
     \<and> (\<forall>i j c d t u n. i < length (pool_threads p) \<longrightarrow> j < length (pool_threads p) \<longrightarrow>
          pool_threads p ! i = (c, t) \<longrightarrow> pool_threads p ! j = (d, u) \<longrightarrow>
          done_claim (cl c) t = Some n \<longrightarrow> done_claim (cl d) u = Some n \<longrightarrow> i = j)"

lemma claims_owned:
  "claims_ok I own cl p \<Longrightarrow> (c, t) \<in> set (pool_threads p) \<Longrightarrow> done_claim (cl c) t = Some n \<Longrightarrow> n \<in> own (pool_world p)"
  by (auto simp: claims_ok_def)

lemma claims_unique:
  "claims_ok I own cl p \<Longrightarrow> i < length (pool_threads p) \<Longrightarrow> j < length (pool_threads p) \<Longrightarrow>
     pool_threads p ! i = (c, t) \<Longrightarrow> pool_threads p ! j = (d, u) \<Longrightarrow>
     done_claim (cl c) t = Some n \<Longrightarrow> done_claim (cl d) u = Some n \<Longrightarrow> i = j"
  unfolding claims_ok_def by blast

text \<open>A thread that runs to its end while the others wait.\<close>

lemma advance_alone:
  assumes "i < length (pool_threads p)" and "pool_threads p ! i = (c, t)" and "run_thread t (pool_world p) = (x, w')"
  shows "advance\<^sup>*\<^sup>* p (p\<lparr>pool_world := w', pool_threads := (pool_threads p)[i := (c, Finish x)]\<rparr>)"
  using assms
proof (induction t arbitrary: p)
  case (Finish y)
  then have "(pool_threads p)[i := (c, Finish x)] = pool_threads p" by (metis Pair_inject list_update_id run_thread.simps(1))
  with Finish.prems show ?case by (cases p) simp
next
  case (Act f h)
  let ?p = "p\<lparr>pool_world := f (pool_world p), pool_threads := (pool_threads p)[i := (c, h (pool_world p))]\<rparr>"
  have "advance p ?p" using Act.prems by (intro advance)
  moreover have "advance\<^sup>*\<^sup>* ?p (?p\<lparr>pool_world := w', pool_threads := (pool_threads ?p)[i := (c, Finish x)]\<rparr>)"
    using Act.prems by (intro Act.IH) simp_all
  ultimately show ?case by (simp add: converse_rtranclp_into_rtranclp)
qed

lemma advance_claims:
  assumes "advance p p'" and I: "I (pool_world p)" and ok: "claims_ok I own cl p"
    and mono: "own (pool_world p) \<subseteq> own (pool_world p')"
  shows "claims_ok I own cl p'"
  using assms(1)
proof (rule advanceE)
  fix i c f h
  let ?w = "pool_world p" and ?ts = "pool_threads p"
  assume i: "i < length ?ts" "?ts ! i = (c, Act f h)"
    and p': "p' = p\<lparr>pool_world := f ?w, pool_threads := ?ts[i := (c, h ?w)]\<rparr>"
  have mem: "(c, Act f h) \<in> set ?ts" using i nth_mem by fastforce
  have new: "claims I own (cl c) (h ?w)" "\<forall>n. done_claim (cl c) (h ?w) = Some n \<longrightarrow> n \<notin> own ?w \<and> n \<in> own (f ?w)"
    using ok mem I unfolding claims_ok_def by fastforce+
  have old: "claims I own (cl d) u \<and> (\<forall>n. done_claim (cl d) u = Some n \<longrightarrow> n \<in> own ?w)" if "(d, u) \<in> set ?ts" for d u
    using ok that unfolding claims_ok_def by blast
  have each: "claims I own (cl d) u \<and> (\<forall>n. done_claim (cl d) u = Some n \<longrightarrow> n \<in> own (f ?w))"
    if "(d, u) \<in> set (?ts[i := (c, h ?w)])" for d u
  proof -
    from that consider "(d, u) = (c, h ?w)" | "(d, u) \<in> set ?ts" using set_update_subset_insert by fast
    then show ?thesis using new old mono by cases (auto simp: p')
  qed
  have unique: "j = k"
    if "j < length ?ts" "k < length ?ts" "?ts[i := (c, h ?w)] ! j = (d, t)" "?ts[i := (c, h ?w)] ! k = (e, u)"
      "done_claim (cl d) t = Some n" "done_claim (cl e) u = Some n" for j k d e t u n
  proof -
    have here: "n \<notin> own ?w" if "l = i" "?ts[i := (c, h ?w)] ! l = (d, t)" "done_claim (cl d) t = Some n" for l d t
      using that i new by auto
    have there: "n \<in> own ?w \<and> ?ts ! l = (d, t)"
      if "l \<noteq> i" "l < length ?ts" "?ts[i := (c, h ?w)] ! l = (d, t)" "done_claim (cl d) t = Some n" for l d t
      using that old [of d t] by (auto dest: nth_mem)
    have both: "j = k" if "?ts ! j = (d, t)" "?ts ! k = (e, u)"
      using ok that \<open>j < _\<close> \<open>k < _\<close> \<open>done_claim (cl d) t = _\<close> \<open>done_claim (cl e) u = _\<close> unfolding claims_ok_def by blast
    show ?thesis
    proof (cases "j = i"; cases "k = i")
      assume "j = i" "k \<noteq> i"
      then show ?thesis using here [OF _ that(3,5)] there [OF _ that(2,4,6)] by blast
    next
      assume "j \<noteq> i" "k = i"
      then show ?thesis using here [OF _ that(4,6)] there [OF _ that(1,3,5)] by blast
    next
      assume "j \<noteq> i" "k \<noteq> i"
      then show ?thesis using both there [OF _ that(1,3,5)] there [OF _ that(2,4,6)] by blast
    qed simp
  qed
  show ?thesis using each unique by (auto simp: claims_ok_def p')
qed

lemma arrival_claims:
  assumes "claims_ok I own cl p" and "claims I own (cl c) t" and "done_claim (cl c) t = None"
  shows "claims_ok I own cl (p\<lparr>pool_threads := pool_threads p @ [(c, t)]\<rparr>)"
  using assms unfolding claims_ok_def by (auto simp: nth_append less_Suc_eq split: if_splits)

end
