(* ===== verification/Handlers.thy ===== *)
theory Handlers
  imports Threads JackMain
begin

text \<open>
  The handlers as threads. No step touches what the handlers share (the store, Pub/Sub,
  Cloud Tasks) more than once, so any other handler may run between any two accesses; a
  call of a store is one step because the store holds its mutex from the first line of
  every method to the last. \<open>serve_thread_alone\<close> shows that a
  handler that is left alone computes what the sequential model computes.
\<close>


section \<open>Loops\<close>

primrec traverse_thread :: "('x \<Rightarrow> ('w, 'a) thread) \<Rightarrow> 'x list \<Rightarrow> ('w, 'a list) thread" where
  "traverse_thread f [] = Finish []"
| "traverse_thread f (x # xs) = bind_thread (f x) (\<lambda>y. bind_thread (traverse_thread f xs) (\<lambda>ys. Finish (y # ys)))"

primrec emit_all :: "metric list \<Rightarrow> ('a env_scheme, 'b) thread \<Rightarrow> ('a env_scheme, 'b) thread" where
  "emit_all [] t = t"
| "emit_all (m # ms) t = step (emit m) (\<lambda>_. emit_all ms t)"

context rely begin

lemma safe_traverse:
  assumes "\<And>x w. x \<in> set xs \<Longrightarrow> I w \<Longrightarrow> safe I R (Q x) (f x) w" and "\<And>x. stable R (Q x)" and "I w"
  shows "safe I R (\<lambda>ys w. list_all2 (\<lambda>x y. Q x y w) xs ys) (traverse_thread f xs) w"
  using assms(1,3)
proof (induction xs arbitrary: w)
  case (Cons x xs)
  show ?case unfolding traverse_thread.simps
  proof (rule safe_bind)
    show "safe I R (Q x) (f x) w" "I w" using Cons.prems by simp_all
    fix y w1 assume y: "Q x y w1" "I w1"
    show "safe I R (\<lambda>ys w. list_all2 (\<lambda>x y. Q x y w) (x # xs) ys) (bind_thread (traverse_thread f xs) (\<lambda>ys. Finish (y # ys))) w1"
    proof (rule safe_bind)
      show "safe I R (\<lambda>ys w. list_all2 (\<lambda>x y. Q x y w) xs ys) (traverse_thread f xs) w1"
        using Cons.prems y(2) by (intro Cons.IH) simp_all
    qed (use y stableD [OF assms(2)] in auto)
  qed
qed simp

end

lemma implements_traverse [implementsI]:
  "(\<And>x. implements (f x) (g x)) \<Longrightarrow> implements (traverse_thread f xs) (State_Monad.traverse_list g xs)"
  by (induction xs) (auto intro!: implementsI)

lemma implements_emit_all [implementsI]:
  "implements t m \<Longrightarrow> implements (emit_all (map f xs) t) (State_Monad.bind (foreach xs (\<lambda>x. emit (f x))) (\<lambda>_. m))"
  by (induction xs) (auto simp: implements_def run_step split: prod.splits)


section \<open>Backends\<close>

record 'w backend_threads =
  bt_Enqueue :: "job \<Rightarrow> ('w, go_error option) thread"
  bt_EnqueueBulk :: "job list \<Rightarrow> ('w, enqueue_result list) thread"

definition noop_backend_threads :: "noop_backend \<Rightarrow> 'w backend_threads" where
  "noop_backend_threads n = \<lparr>
     bt_Enqueue = (\<lambda>j. Finish (Validate j (MaxPayloadSize (noop_config n)))),
     bt_EnqueueBulk = (\<lambda>jobs. Finish (map (\<lambda>j. \<lparr>result_JobID = job_ID j,
       result_Error = Validate j (MaxPayloadSize (noop_config n))\<rparr>) jobs))\<rparr>"

definition PubSub_Enqueue_thread :: "'a pubsub_world_scheme pubsub_backend \<Rightarrow> job
    \<Rightarrow> ('a pubsub_world_scheme, go_error option) thread" where
  "PubSub_Enqueue_thread b j =
     (case topicFor b (job_Priority j) of
        Inl e \<Rightarrow> Finish (Some e)
      | Inr topic \<Rightarrow> step (adapter b j) (\<lambda>data.
          case data of
            Inl e \<Rightarrow> Finish (Some (wrap_error (''pubsub: marshal job '' @ job_ID j) e))
          | Inr data \<Rightarrow>
              step time_now (\<lambda>publishStart.
              step (topic_Publish topic data (shadow_attrs j)) (\<lambda>result.
              step (result_Get result) (\<lambda>err.
              case err of
                Some e \<Rightarrow>
                  step (emit (Incr ''jack.publish.count'' ([priority_tag (job_Priority j)] @ [''status:error'']))) (\<lambda>_.
                  Finish (Some (wrap_error (''pubsub: publish job '' @ job_ID j) e)))
              | None \<Rightarrow>
                  step (emit (Incr ''jack.publish.count'' ([priority_tag (job_Priority j)] @ [''status:success'']))) (\<lambda>_.
                  step (time_since publishStart) (\<lambda>d.
                  step (emit (DistSeconds ''jack.publish.duration'' d [priority_tag (job_Priority j)])) (\<lambda>_.
                  Finish None))))))))"

definition publish_one_thread :: "'a pubsub_world_scheme pubsub_backend \<Rightarrow> job \<Rightarrow> ('a pubsub_world_scheme, pending) thread" where
  "publish_one_thread b j =
     (case topicFor b (job_Priority j) of
        Inl e \<Rightarrow> Finish (Failed e)
      | Inr topic \<Rightarrow> step (adapter b j) (\<lambda>data.
          case data of
            Inl e \<Rightarrow> Finish (Failed (wrap_error ''marshal'' e))
          | Inr data \<Rightarrow> step (topic_Publish topic data (shadow_attrs j)) (\<lambda>pr. Finish (Sent pr))))"

primrec wait_all_thread :: "job list \<Rightarrow> (nat \<times> nat) list \<Rightarrow> enqueue_result list
    \<Rightarrow> ('a pubsub_world_scheme, enqueue_result list) thread" where
  "wait_all_thread jobs [] = (\<lambda>results. Finish results)"
| "wait_all_thread jobs (t # ts) = (\<lambda>results. step (wait_one jobs t results) (\<lambda>results. wait_all_thread jobs ts results))"

definition PubSub_EnqueueBulk_thread :: "'a pubsub_world_scheme pubsub_backend \<Rightarrow> job list
    \<Rightarrow> ('a pubsub_world_scheme, enqueue_result list) thread" where
  "PubSub_EnqueueBulk_thread b jobs =
     bind_thread (traverse_thread (publish_one_thread b) jobs) (\<lambda>pending.
     case wait_loop 0 jobs pending (replicate (length jobs) zero_result) of (results, waiting) \<Rightarrow>
     step (any_order waiting) (\<lambda>order.
     bind_thread (wait_all_thread jobs order results) (\<lambda>results.
     emit_all (map publish_metric (zip jobs results)) (Finish results))))"

definition pubsub_threads :: "'a pubsub_world_scheme pubsub_backend \<Rightarrow> 'a pubsub_world_scheme backend_threads" where
  "pubsub_threads b = \<lparr>bt_Enqueue = PubSub_Enqueue_thread b, bt_EnqueueBulk = PubSub_EnqueueBulk_thread b\<rparr>"


section \<open>Schedulers\<close>

record 'w scheduler_threads =
  st_Schedule :: "job \<Rightarrow> ('w, go_error option) thread"
  st_ScheduleBulk :: "job list \<Rightarrow> ('w, enqueue_result list) thread"

definition noop_scheduler_threads :: "'w scheduler_threads" where
  "noop_scheduler_threads = \<lparr>
     st_Schedule = (\<lambda>j. Finish None),
     st_ScheduleBulk = (\<lambda>jobs. Finish (map (\<lambda>j. \<lparr>result_JobID = job_ID j, result_Error = None\<rparr>) jobs))\<rparr>"

definition CloudTasks_Schedule_thread :: "cloudtasks_scheduler \<Rightarrow> job \<Rightarrow> ('a tasks_world_scheme, go_error option) thread" where
  "CloudTasks_Schedule_thread s j =
     step time_now (\<lambda>start.
     case marshalJob j of
       Inl e \<Rightarrow>
         step (emit (Incr ''jack.schedule.count'' [''status:error'', ''reason:marshal''])) (\<lambda>_.
         Finish (Some (wrap_error ''scheduler: failed to marshal job'' e)))
     | Inr data \<Rightarrow>
         if MaxTaskBodySize < length data then
           step (emit (Incr ''jack.schedule.count'' [''status:error'', ''reason:too_large''])) (\<lambda>_.
           Finish (Some (too_large_error (length data))))
         else
           step (CreateTask (task_for s j data)) (\<lambda>err.
           case err of
             Some e \<Rightarrow>
               step (emit (Incr ''jack.schedule.count'' [''status:error'', ''reason:create''])) (\<lambda>_.
               Finish (Some (wrap_error ''scheduler: failed to create task'' e)))
           | None \<Rightarrow>
               step (emit (Incr ''jack.schedule.count'' [''status:success''])) (\<lambda>_.
               step (time_since start) (\<lambda>d.
               step (emit (DistSeconds ''jack.schedule.duration'' d [])) (\<lambda>_.
               Finish None)))))"

definition schedule_slot_thread :: "cloudtasks_scheduler \<Rightarrow> nat \<times> job \<Rightarrow> enqueue_result list
    \<Rightarrow> ('a tasks_world_scheme, enqueue_result list) thread" where
  "schedule_slot_thread s task results = (case task of (idx, j) \<Rightarrow>
     bind_thread (CloudTasks_Schedule_thread s j) (\<lambda>err.
     Finish (results[idx := (case err of
        Some e \<Rightarrow> \<lparr>result_JobID = '''', result_Error = Some e\<rparr>
      | None \<Rightarrow> \<lparr>result_JobID = job_ID j, result_Error = None\<rparr>)])))"

primrec schedule_slots_thread :: "cloudtasks_scheduler \<Rightarrow> (nat \<times> job) list \<Rightarrow> enqueue_result list
    \<Rightarrow> ('a tasks_world_scheme, enqueue_result list) thread" where
  "schedule_slots_thread s [] = (\<lambda>results. Finish results)"
| "schedule_slots_thread s (t # ts) = (\<lambda>results.
     bind_thread (schedule_slot_thread s t results) (\<lambda>results. schedule_slots_thread s ts results))"

definition CloudTasks_ScheduleBulk_thread :: "cloudtasks_scheduler \<Rightarrow> job list
    \<Rightarrow> ('a tasks_world_scheme, enqueue_result list) thread" where
  "CloudTasks_ScheduleBulk_thread s jobs =
     step (any_order (List.enumerate 0 jobs)) (\<lambda>order.
     schedule_slots_thread s order (replicate (length jobs) zero_result))"

definition cloud_tasks_threads :: "cloudtasks_scheduler \<Rightarrow> 'a tasks_world_scheme scheduler_threads" where
  "cloud_tasks_threads s = \<lparr>st_Schedule = CloudTasks_Schedule_thread s, st_ScheduleBulk = CloudTasks_ScheduleBulk_thread s\<rparr>"


section \<open>The enqueue service\<close>

definition prepare_job_thread :: "'a env_scheme server \<Rightarrow> bool \<Rightarrow> enqueue_request
    \<Rightarrow> ('a env_scheme, string list \<times> job) thread" where
  "prepare_job_thread srv shadow r =
     step (check_producer srv (enqueue_request_ProducerId r)) (\<lambda>warnings.
     step (routingConfig srv (enqueue_request_ProducerId r) (enqueue_request_JobType r) (enqueue_request_Payload r))
       (\<lambda>(priority, maxRetries, jobTypeWarning).
     step (generate (enqueue_request_ProducerId r) (enqueue_request_JobType r)) (\<lambda>jobID.
     step time_now (\<lambda>now.
     step time_now (\<lambda>createdAt.
     Finish (if jobTypeWarning \<noteq> '''' then warnings @ [jobTypeWarning] else warnings, \<lparr>
       job_ID = jobID,
       job_ProducerID = enqueue_request_ProducerId r,
       job_Type = enqueue_request_JobType r,
       job_Priority = priority,
       job_Payload = enqueue_request_Payload r,
       job_RunAt = (case enqueue_request_RunAt r of None \<Rightarrow> now | Some t \<Rightarrow> srv_as_time srv t),
       job_TraceID = enqueue_request_TraceId r,
       job_MaxRetries = maxRetries,
       job_CreatedAt = createdAt,
       job_Shadow = shadow\<rparr>))))))"

definition Enqueue_thread :: "'a env_scheme server \<Rightarrow> 'a env_scheme backend_threads \<Rightarrow> 'a env_scheme scheduler_threads option
    \<Rightarrow> rpc_context \<Rightarrow> enqueue_request \<Rightarrow> ('a env_scheme, rpc_status + enqueue_response) thread" where
  "Enqueue_thread srv bt st ctx r =
     step time_now (\<lambda>start.
     if enqueue_request_ProducerId r = '''' then
       Finish (Inl (RpcStatus InvalidArgument ''producer_id is required''))
     else if enqueue_request_JobType r = '''' then
       Finish (Inl (RpcStatus InvalidArgument ''job_type is required''))
     else if sc_MaxPayloadSize (srv_config srv) < int (slice_len (enqueue_request_Payload r)) then
       Finish (Inl (RpcStatus InvalidArgument
         (''payload exceeds max size ('' @ show_int (sc_MaxPayloadSize (srv_config srv)) @ '' bytes)'')))
     else
       bind_thread (prepare_job_thread srv (shadowFromContext ctx) r) (\<lambda>(warnings, j).
       step (is_future srv j) (\<lambda>future.
       case (st, future) of
         (Some sched, True) \<Rightarrow>
           bind_thread (st_Schedule sched j) (\<lambda>err.
           case err of
             Some e \<Rightarrow>
               step (emit (Incr ''jack.enqueue.count'' (enqueue_tags r (job_Priority j) @ [''status:error'', ''method:scheduled'']))) (\<lambda>_.
               Finish (Inl (RpcStatus Internal ''failed to schedule future job'')))
           | None \<Rightarrow> step (enqueue_done start r warnings j ''scheduled'') Finish)
       | _ \<Rightarrow>
           bind_thread (bt_Enqueue bt j) (\<lambda>err.
           case err of
             Some e \<Rightarrow>
               step (emit (Incr ''jack.enqueue.count'' (enqueue_tags r (job_Priority j) @ [''status:error'', ''method:immediate'']))) (\<lambda>_.
               Finish (Inl (if errors_is e ErrQueueUnavailable
                 then RpcStatus Unavailable ''queue temporarily unavailable''
                 else RpcStatus Internal ''failed to enqueue job'')))
           | None \<Rightarrow> step (enqueue_done start r warnings j ''immediate'') Finish))))"

primrec prepare_loop_thread :: "'a env_scheme server \<Rightarrow> bool \<Rightarrow> enqueue_request list \<Rightarrow> nat \<Rightarrow> prepared
    \<Rightarrow> ('a env_scheme, prepared) thread" where
  "prepare_loop_thread srv shadow [] = (\<lambda>i p. Finish p)"
| "prepare_loop_thread srv shadow (r # rs) = (\<lambda>i p.
     case bulk_validation srv r of
        Some (msg, reason) \<Rightarrow>
          prepare_loop_thread srv shadow rs (Suc i)
            (p\<lparr>prep_errors := (prep_errors p)[i := msg], prep_reasons := (prep_reasons p)[i := reason]\<rparr>)
      | None \<Rightarrow>
          bind_thread (prepare_job_thread srv shadow r) (\<lambda>(warnings, j).
          prepare_loop_thread srv shadow rs (Suc i)
            (p\<lparr>prep_warnings := (prep_warnings p)[i := warnings], prep_jobs := (prep_jobs p)[i := Some j]\<rparr>)))"

text \<open>The partition only reads the clock, and is one step.\<close>

definition EnqueueBulk_thread :: "'a env_scheme server \<Rightarrow> 'a env_scheme backend_threads \<Rightarrow> 'a env_scheme scheduler_threads option
    \<Rightarrow> rpc_context \<Rightarrow> enqueue_bulk_request \<Rightarrow> ('a env_scheme, rpc_status + enqueue_bulk_response) thread" where
  "EnqueueBulk_thread srv bt st ctx req =
     step time_now (\<lambda>start.
     if enqueue_bulk_request_Jobs req = [] then Finish (Inl (RpcStatus InvalidArgument ''jobs is required''))
     else
       bind_thread (prepare_loop_thread srv (shadowFromContext ctx) (enqueue_bulk_request_Jobs req) 0
         (fresh_prepared (length (enqueue_bulk_request_Jobs req)))) (\<lambda>prep.
       step (partition_loop srv 0 (prep_jobs prep)
         \<lparr>immediateJobs = [], immediateIndexes = [], futureJobs = [], futureIndexes = []\<rparr>) (\<lambda>parts.
       bind_thread (if immediateJobs parts \<noteq> [] then bt_EnqueueBulk bt (immediateJobs parts) else Finish []) (\<lambda>immediateResults.
       bind_thread (if futureJobs parts = [] then Finish []
         else case st of Some sched \<Rightarrow> st_ScheduleBulk sched (futureJobs parts) | None \<Rightarrow> Finish []) (\<lambda>futureResults.
       step (bulk_metrics start (length (enqueue_bulk_request_Jobs req)) immediateResults futureResults) (\<lambda>_.
       Finish (Inr \<lparr>enqueue_bulk_response_Results =
         bulk_results (enqueue_bulk_request_Jobs req) prep parts immediateResults futureResults\<rparr>)))))))"


section \<open>The admin service and the callback\<close>

definition CreateProducer_thread :: "'a env_scheme admin_server \<Rightarrow> create_producer_request
    \<Rightarrow> ('a env_scheme, rpc_status + create_producer_response) thread" where
  "CreateProducer_thread s req =
     (if create_producer_request_Name req = '''' then
        Finish (Inl (RpcStatus InvalidArgument ''name is required''))
      else
        step generateProducerID (\<lambda>producerID.
        step (store_CreateProducer (admin_store s) \<lparr>
          producer_ProducerId = producerID,
          producer_Name = create_producer_request_Name req,
          producer_Description = create_producer_request_Description req,
          producer_RateLimitRps = 1000,
          producer_CreatedAt = None,
          producer_UpdatedAt = None\<rparr>) (\<lambda>(producer, err).
        Finish (case err of
            Some e \<Rightarrow> Inl (if errors_is e ErrAlreadyExists then RpcStatus AlreadyExists (error_text e)
              else RpcStatus Internal ''failed to create producer'')
          | None \<Rightarrow> Inr \<lparr>create_producer_response_Producer = producer\<rparr>))))"

definition callback_thread :: "'a env_scheme backend_threads \<Rightarrow> go_error + bytes \<Rightarrow> ('a env_scheme, http_response) thread" where
  "callback_thread bt request_body =
     step time_now (\<lambda>start.
     case request_body of
       Inl e \<Rightarrow>
         step (emit (Incr ''jack.callback.count'' [''status:error'', ''reason:read_body''])) (\<lambda>_.
         Finish (http_error ''failed to read body'' 400))
     | Inr body \<Rightarrow>
         (case UnmarshalJob body of
            Inl e \<Rightarrow>
              step (emit (Incr ''jack.callback.count'' [''status:error'', ''reason:unmarshal''])) (\<lambda>_.
              Finish (http_error ''failed to parse job'' 400))
          | Inr j \<Rightarrow>
              step time_now (\<lambda>now.
              bind_thread (bt_Enqueue bt (j\<lparr>job_RunAt := now\<rparr>)) (\<lambda>err.
              case err of
                Some e \<Rightarrow>
                  step (emit (Incr ''jack.callback.count'' [''status:error'', ''reason:enqueue''])) (\<lambda>_.
                  Finish (http_error ''failed to enqueue job'' 500))
              | None \<Rightarrow>
                  step (emit (Incr ''jack.callback.count'' [''status:success''])) (\<lambda>_.
                  step (time_since start) (\<lambda>d.
                  step (emit (DistSeconds ''jack.callback.duration'' d [])) (\<lambda>_.
                  Finish \<lparr>http_status = 200, http_body = ''''\<rparr>)))))))"

text \<open>
  The other handlers of the admin service make one call to the store and nothing else on
  the shared world: each is one step.
\<close>

record 'w service_threads =
  thr_service :: "'w service"
  thr_backend :: "'w backend_threads"
  thr_scheduler :: "'w scheduler_threads option"

definition map_thread_result :: "('b \<Rightarrow> 'c) \<Rightarrow> ('w, 'b) thread \<Rightarrow> ('w, 'c) thread" where
  "map_thread_result f t = bind_thread t (\<lambda>x. Finish (f x))"

fun serve_thread :: "'a env_scheme service_threads \<Rightarrow> rpc_request \<Rightarrow> ('a env_scheme, rpc_response) thread" where
  "serve_thread st (RpcEnqueue ctx r) =
     map_thread_result EnqueueReply (Enqueue_thread (svc_server (thr_service st)) (thr_backend st) (thr_scheduler st) ctx r)"
| "serve_thread st (RpcEnqueueBulk ctx r) =
     map_thread_result EnqueueBulkReply (EnqueueBulk_thread (svc_server (thr_service st)) (thr_backend st) (thr_scheduler st) ctx r)"
| "serve_thread st (RpcCreateProducer r) =
     map_thread_result CreateProducerReply (CreateProducer_thread (svc_admin (thr_service st)) r)"
| "serve_thread st (RpcGetProducer r) = step (reply GetProducerReply (AdminServer_GetProducer (svc_admin (thr_service st)) r)) Finish"
| "serve_thread st RpcListProducers = step (reply ListProducersReply (AdminServer_ListProducers (svc_admin (thr_service st)))) Finish"
| "serve_thread st (RpcCreateJobType r) = step (reply CreateJobTypeReply (AdminServer_CreateJobType (svc_admin (thr_service st)) r)) Finish"
| "serve_thread st (RpcListJobTypes r) = step (reply ListJobTypesReply (AdminServer_ListJobTypes (svc_admin (thr_service st)) r)) Finish"


section \<open>A handler that is left alone\<close>

lemma implements_noop_backend:
  "implements (bt_Enqueue (noop_backend_threads n) j) (NoopBackend_Enqueue n j)"
  "implements (bt_EnqueueBulk (noop_backend_threads n) js) (NoopBackend_EnqueueBulk n js)"
  by (simp_all add: noop_backend_threads_def implements_def NoopBackend_Enqueue_def run_NoopBackend_EnqueueBulk)

lemma implements_noop_scheduler:
  "implements (st_Schedule noop_scheduler_threads j) (NoopScheduler_Schedule j)"
  "implements (st_ScheduleBulk noop_scheduler_threads js) (NoopScheduler_ScheduleBulk js)"
  by (simp_all add: noop_scheduler_threads_def implements_def NoopScheduler_Schedule_def run_NoopScheduler_ScheduleBulk)

lemma implements_PubSub_Enqueue: "implements (PubSub_Enqueue_thread b j) (PubSubBackend_Enqueue b j)"
  unfolding PubSub_Enqueue_thread_def PubSubBackend_Enqueue_def Let_def by (intro implementsI)

lemma implements_publish_one [implementsI]: "implements (publish_one_thread b j) (publish_one b j)"
  unfolding publish_one_thread_def publish_one_def by (intro implementsI)

lemma implements_wait_all [implementsI]: "implements (wait_all_thread jobs ts results) (wait_all jobs ts results)"
  by (induction ts arbitrary: results) (auto intro!: implementsI)

lemma implements_PubSub_EnqueueBulk: "implements (PubSub_EnqueueBulk_thread b jobs) (PubSubBackend_EnqueueBulk b jobs)"
  unfolding PubSub_EnqueueBulk_thread_def PubSubBackend_EnqueueBulk_def Let_def by (intro implementsI)

lemma implements_Schedule [implementsI]: "implements (CloudTasks_Schedule_thread s j) (CloudTasksScheduler_Schedule s j)"
  unfolding CloudTasks_Schedule_thread_def CloudTasksScheduler_Schedule_def Let_def by (intro implementsI)

lemma implements_schedule_slot [implementsI]: "implements (schedule_slot_thread s t results) (schedule_slot s t results)"
  unfolding schedule_slot_thread_def schedule_slot_def by (intro implementsI)

lemma implements_schedule_slots [implementsI]: "implements (schedule_slots_thread s ts results) (schedule_slots s ts results)"
  by (induction ts arbitrary: results) (auto intro!: implementsI)

lemma implements_ScheduleBulk: "implements (CloudTasks_ScheduleBulk_thread s jobs) (CloudTasksScheduler_ScheduleBulk s jobs)"
  unfolding CloudTasks_ScheduleBulk_thread_def CloudTasksScheduler_ScheduleBulk_def by (intro implementsI)

lemma implements_prepare_job [implementsI]: "implements (prepare_job_thread srv shadow r) (prepare_job srv shadow r)"
  unfolding prepare_job_thread_def prepare_job_def Let_def by (intro implementsI)

lemma implements_prepare_loop [implementsI]:
  "implements (prepare_loop_thread srv shadow rs i p) (prepare_loop srv shadow i rs p)"
  by (induction rs arbitrary: i p) (auto split: option.split prod.split intro!: implementsI)

text \<open>The threads of a service belong to the components it was wired from.\<close>

locale threaded_service =
  fixes st :: "'a env_scheme service_threads"
  assumes backend: "implements (bt_Enqueue (thr_backend st) j) (backend_Enqueue (srv_backend (svc_server (thr_service st))) j)"
    "implements (bt_EnqueueBulk (thr_backend st) js) (backend_EnqueueBulk (srv_backend (svc_server (thr_service st))) js)"
    and callback_backend: "callback_backend (svc_callback (thr_service st)) = srv_backend (svc_server (thr_service st))"
    and scheduler: "rel_option (\<lambda>t s. (\<forall>j. implements (st_Schedule t j) (scheduler_Schedule s j))
      \<and> (\<forall>js. implements (st_ScheduleBulk t js) (scheduler_ScheduleBulk s js)))
      (thr_scheduler st) (srv_scheduler (svc_server (thr_service st)))"
begin

abbreviation "srv \<equiv> svc_server (thr_service st)"

lemma implements_Enqueue: "implements (Enqueue_thread srv (thr_backend st) (thr_scheduler st) ctx r) (Server_Enqueue srv ctx r)"
proof -
  have fin: "implements (step m Finish) m" for m by (rule implements_atomic)
  show ?thesis
    using scheduler unfolding Enqueue_thread_def Server_Enqueue_def Let_def
    by (cases rule: option.rel_cases)
      (auto split: bool.split option.split intro!: implementsI backend fin)
qed

lemma implements_EnqueueBulk:
  "implements (EnqueueBulk_thread srv (thr_backend st) (thr_scheduler st) ctx req) (Server_EnqueueBulk srv ctx req)"
  using scheduler unfolding EnqueueBulk_thread_def Server_EnqueueBulk_def schedule_futures_def Let_def
  by (cases rule: option.rel_cases) (auto intro!: implementsI backend)

lemma implements_callback: "implements (callback_thread (thr_backend st) body) (handleEnqueueCallback (svc_callback (thr_service st)) body)"
  unfolding callback_thread_def handleEnqueueCallback_def Let_def callback_backend by (intro implementsI backend)

lemma implements_CreateProducer: "implements (CreateProducer_thread s req) (AdminServer_CreateProducer s req)"
  unfolding CreateProducer_thread_def AdminServer_CreateProducer_def by (intro implementsI)

lemma implements_reply: "implements t m \<Longrightarrow> implements (map_thread_result f t) (reply f m)"
  unfolding map_thread_result_def reply_def by (intro implementsI)

lemma implements_serve: "implements (serve_thread st req) (serve (thr_service st) req)"
  by (cases req) (simp_all add: implements_Enqueue implements_EnqueueBulk implements_CreateProducer implements_atomic implements_reply)

end

end
