(* ===== verification/ThreadContracts.thy ===== *)
theory ThreadContracts
  imports Handlers Service
begin

text \<open>
  What a backend and a scheduler promise to a handler that other handlers interleave with:
  the world only grows, the invariant of the service holds after every step, and a success
  is a confirmed message or a task that stays. The promises are stated as contracts of
  threads and proved for Pub/Sub, Cloud Tasks and the two no-op components.
\<close>


section \<open>How the shared world changes\<close>

definition evolves :: "'a tasks_world_scheme \<Rightarrow> 'a tasks_world_scheme \<Rightarrow> bool" where
  "evolves w w' \<longleftrightarrow> (\<exists>ms. published w' = published w @ ms) \<and> (\<exists>ts. tasks w' = tasks w @ ts)
     \<and> map_of (producers w) \<subseteq>\<^sub>m map_of (producers w') \<and> map_of (jobTypes w) \<subseteq>\<^sub>m map_of (jobTypes w')
     \<and> publish_errors w' = publish_errors w \<and> clock w' = clock w \<and> gcs_faults w' = gcs_faults w"

lemma evolves_refl [simp]: "evolves w w"
  by (simp add: evolves_def)

lemma evolves_trans: "evolves u v \<Longrightarrow> evolves v w \<Longrightarrow> evolves u w"
  unfolding evolves_def by (auto intro: map_le_trans)

interpretation evolving: rely I evolves for I
  by unfold_locales (auto intro: evolves_trans)

lemma quiet_evolves:
  fixes w w' :: "'a tasks_world_scheme"
  shows "quiet w w' \<Longrightarrow> evolves w w'"
  by (auto simp: quiet_def evolves_def)

text \<open>A message of the job was confirmed; a task of the job was created.\<close>

definition message_at :: "'a tasks_world_scheme pubsub_backend \<Rightarrow> job \<Rightarrow> nat \<Rightarrow> 'a tasks_world_scheme \<Rightarrow> bool" where
  "message_at b j n w \<longleftrightarrow> n < length (published w) \<and> message_for b j (published w ! n)"

definition message_confirmed :: "'a tasks_world_scheme pubsub_backend \<Rightarrow> job \<Rightarrow> 'a tasks_world_scheme \<Rightarrow> bool" where
  "message_confirmed b j w \<longleftrightarrow> (\<exists>n. message_at b j n w \<and> publish_errors w n = None)"

definition task_created :: "cloudtasks_scheduler \<Rightarrow> job \<Rightarrow> 'a tasks_world_scheme \<Rightarrow> bool" where
  "task_created s j w \<longleftrightarrow> (\<exists>t \<in> set (tasks w). task_of s j t)"

lemma evolves_errors: "evolves w w' \<Longrightarrow> publish_errors w' = publish_errors w"
  by (simp add: evolves_def)

lemma message_at_evolves: "message_at b j n w \<Longrightarrow> evolves w w' \<Longrightarrow> message_at b j n w'"
  by (auto simp: message_at_def evolves_def nth_append)

lemma message_confirmed_evolves: "message_confirmed b j w \<Longrightarrow> evolves w w' \<Longrightarrow> message_confirmed b j w'"
  unfolding message_confirmed_def using message_at_evolves evolves_errors by metis

lemma task_created_evolves: "task_created s j w \<Longrightarrow> evolves w w' \<Longrightarrow> task_created s j w'"
  by (auto simp: task_created_def evolves_def)


section \<open>The contracts\<close>

locale backend_threads_contract =
  fixes Inv :: "'a tasks_world_scheme \<Rightarrow> bool" and bt :: "'a tasks_world_scheme backend_threads"
    and taken :: "job \<Rightarrow> 'a tasks_world_scheme \<Rightarrow> bool"
  assumes taken_stable: "taken j w \<Longrightarrow> evolves w w' \<Longrightarrow> taken j w'"
    and enqueue_safe: "Inv w \<Longrightarrow> good_job j \<Longrightarrow>
      safe Inv evolves (\<lambda>e w. e = None \<longrightarrow> taken j w) (bt_Enqueue bt j) w"
    and enqueue_bulk_safe: "Inv w \<Longrightarrow> \<forall>j \<in> set js. good_job j \<Longrightarrow>
      safe Inv evolves (\<lambda>rs w. list_all2 (\<lambda>j r. answers j r \<and> (result_Error r = None \<longrightarrow> taken j w)) js rs)
        (bt_EnqueueBulk bt js) w"

locale scheduler_threads_contract =
  fixes Inv :: "'a tasks_world_scheme \<Rightarrow> bool" and st :: "'a tasks_world_scheme scheduler_threads"
    and kept :: "job \<Rightarrow> 'a tasks_world_scheme \<Rightarrow> bool"
  assumes kept_stable: "kept j w \<Longrightarrow> evolves w w' \<Longrightarrow> kept j w'"
    and schedule_safe: "Inv w \<Longrightarrow> good_job j \<Longrightarrow>
      safe Inv evolves (\<lambda>e w. e = None \<longrightarrow> kept j w) (st_Schedule st j) w"
    and schedule_bulk_safe: "Inv w \<Longrightarrow> \<forall>j \<in> set js. good_job j \<Longrightarrow>
      safe Inv evolves (\<lambda>rs w. list_all2 (\<lambda>j r. answers j r \<and> (result_Error r = None \<longrightarrow> kept j w)) js rs)
        (st_ScheduleBulk st js) w"

text \<open>The no-op components take everything they accept, and keep nothing.\<close>

interpretation noop_threads: backend_threads_contract Inv "noop_backend_threads n" "\<lambda>_ _. True" for Inv n
  by unfold_locales (auto simp: noop_backend_threads_def list_all2_conv_all_nth answers_def)

interpretation noop_scheduling: scheduler_threads_contract Inv noop_scheduler_threads "\<lambda>_ _. True" for Inv
  by unfold_locales (auto simp: noop_scheduler_threads_def list_all2_conv_all_nth answers_def)


section \<open>Steps that change nothing shared\<close>

sublocale deployed_store \<subseteq> steps: rely "service_inv I b" evolves for b
  by (rule evolving.rely_axioms)

context deployed_store begin

abbreviation "guarded b \<equiv> safe (service_inv I b) evolves"

lemma quiet_step:
  assumes "quietly m"
    and "\<And>x v w'. evolves w v \<Longrightarrow> service_inv I b v \<Longrightarrow> run_state m v = (x, w') \<Longrightarrow> evolves v w' \<Longrightarrow> service_inv I b w' \<Longrightarrow>
      evolves w w' \<Longrightarrow> guarded b Q (k x) w'"
  shows "guarded b Q (step m k) w"
proof (rule safe_stepI)
  fix x v w' assume v: "evolves w v" "service_inv I b v" and run: "run_state m v = (x, w')"
  have q: "quiet v w'" by (rule quietlyD [OF assms(1) run])
  then have "evolves v w'" "service_inv I b w'" using quiet_evolves service_inv_quiet [OF v(2)] by auto
  with assms(2) v run show "evolves v w' \<and> service_inv I b w' \<and> guarded b Q (k x) w'"
    by (blast intro: evolves_trans)
qed

lemma quiet_steps:
  "quietly m \<Longrightarrow> (\<And>x w'. evolves w w' \<Longrightarrow> guarded b Q (k x) w') \<Longrightarrow> guarded b Q (step m k) w"
  by (rule quiet_step)

section \<open>Pub/Sub\<close>

lemma quietly_legacy: "quietly (LegacyAdapter_Marshal j)"
  unfolding LegacyAdapter_Marshal_def by (intro quietlyI)

lemma legacy_run: "run_state (LegacyAdapter_Marshal j) w = (r, w') \<Longrightarrow> \<exists>now. r = legacy_data now j"
  by (auto simp: run_LegacyAdapter_Marshal legacy_data_def)

lemma publish_step:
  assumes j: "good_job j" and t: "topicFor b (job_Priority j) = Inr topic" and d: "legacy_data now j = Inr data"
    and rest: "\<And>n v. evolves w v \<Longrightarrow> service_inv I b v \<Longrightarrow> message_at b j n v \<Longrightarrow> guarded b Q (k n) v"
  shows "guarded b Q (step (topic_Publish topic data (shadow_attrs j)) k) w"
proof (rule safe_stepI)
  fix n v w' assume v: "evolves w v" "service_inv I b v" and run: "run_state (topic_Publish topic data (shadow_attrs j)) v = (n, w')"
  let ?m = "\<lparr>message_topic = topic, message_Data = data, message_Attributes = shadow_attrs j\<rparr>"
  have w': "w' = v\<lparr>published := published v @ [?m]\<rparr>" "n = length (published v)" using run by simp_all
  have m: "message_for b j ?m" using t d by (auto simp: message_for_def)
  have e: "evolves v w'" by (simp add: w' evolves_def)
  have i: "service_inv I b w'"
    by (rule service_inv_published [OF v(2), of "[?m]"]) (use j m in \<open>auto simp: w'\<close>)
  have "message_at b j n w'" using m by (simp add: message_at_def w')
  with rest e i v show "evolves v w' \<and> service_inv I b w' \<and> guarded b Q (k n) w'" by (blast intro: evolves_trans)
qed

lemma PubSub_Enqueue_safe:
  assumes b: "adapter b = LegacyAdapter_Marshal" and j: "good_job j"
  shows "guarded b (\<lambda>e w. e = None \<longrightarrow> message_confirmed b j w) (PubSub_Enqueue_thread b j) w"
proof (cases "topicFor b (job_Priority j)")
  case (Inr topic)
  have fin: "guarded b (\<lambda>e w. e = None \<longrightarrow> message_confirmed b j w)
      (step (time_since t) (\<lambda>d. step (emit (f d)) (\<lambda>_. Finish None))) v"
    if "message_confirmed b j u" "evolves u v" for t f u v
    using that message_confirmed_evolves by (intro quiet_steps quietlyI) (simp, blast)
  have got: "guarded b (\<lambda>e w. e = None \<longrightarrow> message_confirmed b j w) (step (result_Get n) k) v"
    if n: "message_at b j n v" and k: "\<And>e u. evolves v u \<Longrightarrow> (e = None \<longrightarrow> message_confirmed b j u) \<Longrightarrow>
      guarded b (\<lambda>e w. e = None \<longrightarrow> message_confirmed b j w) (k e) u" for n k v
  proof (rule quiet_step)
    show "quietly (result_Get n :: ('a tasks_world_scheme, _) state)" by (simp add: quietly_def)
    fix e u u' assume u: "evolves v u" "run_state (result_Get n) u = (e, u')"
    have "message_confirmed b j u" if "e = None"
      unfolding message_confirmed_def using that u message_at_evolves [OF n u(1)] by auto
    then show "guarded b (\<lambda>e w. e = None \<longrightarrow> message_confirmed b j w) (k e) u'" using k u by auto
  qed
  show ?thesis unfolding PubSub_Enqueue_thread_def Inr sum.case b
  proof (rule quiet_step [OF quietly_legacy])
    fix r and v w' :: "'a tasks_world_scheme" assume "run_state (LegacyAdapter_Marshal j) v = (r, w')"
    then obtain now where r: "r = legacy_data now j" using legacy_run by blast
    show "guarded b (\<lambda>e w. e = None \<longrightarrow> message_confirmed b j w) (case r of
        Inl e \<Rightarrow> Finish (Some (wrap_error (''pubsub: marshal job '' @ job_ID j) e))
      | Inr data \<Rightarrow> step time_now (\<lambda>publishStart. step (topic_Publish topic data (shadow_attrs j)) (\<lambda>result.
          step (result_Get result) (\<lambda>err. case err of
            Some e \<Rightarrow> step (emit (Incr ''jack.publish.count'' ([priority_tag (job_Priority j)] @ [''status:error'']))) (\<lambda>_.
              Finish (Some (wrap_error (''pubsub: publish job '' @ job_ID j) e)))
          | None \<Rightarrow> step (emit (Incr ''jack.publish.count'' ([priority_tag (job_Priority j)] @ [''status:success'']))) (\<lambda>_.
              step (time_since publishStart) (\<lambda>d.
              step (emit (DistSeconds ''jack.publish.duration'' d [priority_tag (job_Priority j)])) (\<lambda>_. Finish None))))))) w'"
    proof (cases r)
      case data: (Inr data)
      show ?thesis unfolding data sum.case
        by (intro quiet_steps [OF quietly_now] publish_step [OF j Inr r [symmetric, unfolded data]] got)
          (auto split: option.split intro!: fin quiet_steps [OF quietly_emit])
    qed simp
  qed
qed (simp add: PubSub_Enqueue_thread_def)

definition pending_ok :: "'b tasks_world_scheme pubsub_backend \<Rightarrow> job \<Rightarrow> pending \<Rightarrow> 'b tasks_world_scheme \<Rightarrow> bool" where
  "pending_ok b j p w \<longleftrightarrow> (\<forall>n. p = Sent n \<longrightarrow> message_at b j n w)"

lemma publish_one_safe:
  assumes b: "adapter b = LegacyAdapter_Marshal" and j: "good_job j"
  shows "guarded b (pending_ok b j) (publish_one_thread b j) w"
proof (cases "topicFor b (job_Priority j)")
  case (Inr topic)
  show ?thesis unfolding publish_one_thread_def Inr sum.case b
  proof (rule quiet_step [OF quietly_legacy])
    fix r and v w' :: "'a tasks_world_scheme" assume "run_state (LegacyAdapter_Marshal j) v = (r, w')"
    then obtain now where r: "r = legacy_data now j" using legacy_run by blast
    show "guarded b (pending_ok b j) (case r of Inl e \<Rightarrow> Finish (Failed (wrap_error ''marshal'' e))
      | Inr data \<Rightarrow> step (topic_Publish topic data (shadow_attrs j)) (\<lambda>pr. Finish (Sent pr))) w'"
    proof (cases r)
      case (Inr data)
      show ?thesis unfolding Inr sum.case
        by (rule publish_step [OF j \<open>topicFor b _ = _\<close> r [symmetric, unfolded Inr]]) (simp add: pending_ok_def)
    qed (simp add: pending_ok_def)
  qed
qed (simp add: publish_one_thread_def pending_ok_def)

lemma stable_pending: "stable evolves (pending_ok b j)"
  using message_at_evolves by (fastforce simp: stable_def pending_ok_def)

lemma wait_all_safe:
  assumes "\<forall>(idx, pr) \<in> set ts. ps ! idx = Sent pr" and "publish_errors w = errs"
  shows "guarded b (\<lambda>rs w. rs = write_each (map fst ts) (\<lambda>k. wait_result errs (jobs ! k) (ps ! k)) results)
    (wait_all_thread jobs ts results) w"
  using assms
proof (induction ts arbitrary: results w)
  case (Cons t ts)
  obtain idx pr where t: "t = (idx, pr)" by fastforce
  with Cons.prems have "ps ! idx = Sent pr" by simp
  then have one: "run_state (wait_one jobs t results) v = (results[idx := wait_result (publish_errors v) (jobs ! idx) (ps ! idx)], v)"
    for v :: "'a tasks_world_scheme" by (simp add: t wait_one_def wait_result_def split: option.split)
  show ?case unfolding wait_all_thread.simps
  proof (rule quiet_step)
    show "quietly (wait_one jobs t results :: ('a tasks_world_scheme, _) state)" by (simp add: quietly_def one)
    fix rs and v w' :: "'a tasks_world_scheme" assume v: "evolves w v" "run_state (wait_one jobs t results) v = (rs, w')"
    then have "publish_errors v = errs" using evolves_errors Cons.prems by metis
    then have "rs = results[idx := wait_result errs (jobs ! idx) (ps ! idx)]" "publish_errors w' = errs" using v one by auto
    with Cons.IH [of w' rs] Cons.prems(1) show "guarded b (\<lambda>rs w. rs = write_each (map fst (t # ts))
        (\<lambda>k. wait_result errs (jobs ! k) (ps ! k)) results) (wait_all_thread jobs ts rs) w'" by (simp add: t)
  qed
qed simp

text \<open>The slots after all goroutines are done, whatever the order.\<close>

lemma waited:
  assumes "wait_loop 0 jobs ps (replicate (length jobs) zero_result) = (results, waiting)" and "length ps = length jobs"
    and "set order = set waiting"
  shows "\<forall>(idx, pr) \<in> set order. ps ! idx = Sent pr"
    and "write_each (map fst order) (\<lambda>k. wait_result errs (jobs ! k) (ps ! k)) results = map2 (wait_result errs) jobs ps"
proof -
  note wl = wait_loop_correct [where i = 0 and ps = ps and errs = errs, simplified, OF assms(1) assms(2)]
  then show "\<forall>(idx, pr) \<in> set order. ps ! idx = Sent pr" by (auto simp: assms(3))
  show "write_each (map fst order) (\<lambda>k. wait_result errs (jobs ! k) (ps ! k)) results = map2 (wait_result errs) jobs ps"
  proof (rule nth_equalityI)
    fix k assume "k < length (write_each (map fst order) (\<lambda>k. wait_result errs (jobs ! k) (ps ! k)) results)"
    then have k: "k < length jobs" "k < length results" using wl by simp_all
    have "k \<in> fst ` set order \<longleftrightarrow> (\<exists>pr. ps ! k = Sent pr)" using wl k assms(2) unfolding assms(3) by force
    then show "write_each (map fst order) (\<lambda>k. wait_result errs (jobs ! k) (ps ! k)) results ! k
        = map2 (wait_result errs) jobs ps ! k"
      using wl k assms(2) by (cases "ps ! k") (auto simp: write_each_nth)
  qed (use wl assms(2) in simp)
qed

lemma emit_all_safe: "(\<And>w'. evolves w w' \<Longrightarrow> guarded b Q t w') \<Longrightarrow> guarded b Q (emit_all ms t) w"
proof (induction ms arbitrary: w)
  case (Cons m ms)
  then show ?case by (auto intro!: quiet_steps [OF quietly_emit] intro: evolves_trans)
qed simp

lemma PubSub_EnqueueBulk_safe:
  assumes b: "adapter b = LegacyAdapter_Marshal" and js: "\<forall>j \<in> set js. good_job j" and inv: "service_inv I b w"
  shows "guarded b (\<lambda>rs w. list_all2 (\<lambda>j r. answers j r \<and> (result_Error r = None \<longrightarrow> message_confirmed b j w)) js rs)
    (PubSub_EnqueueBulk_thread b js) w"
  unfolding PubSub_EnqueueBulk_thread_def
proof (rule steps.safe_bind [OF _ inv])
  show "guarded b (\<lambda>ps w. list_all2 (\<lambda>j p. pending_ok b j p w) js ps) (traverse_thread (publish_one_thread b) js) w"
    using js by (intro steps.safe_traverse stable_pending publish_one_safe [OF b] inv) blast
next
  fix ps v assume ps: "list_all2 (\<lambda>j p. pending_ok b j p v) js ps" and v: "service_inv I b v"
  obtain results waiting where wl: "wait_loop 0 js ps (replicate (length js) zero_result) = (results, waiting)" by fastforce
  have len: "length ps = length js" using ps by (simp add: list_all2_lengthD)
  let ?errs = "publish_errors v"
  let ?rs = "map2 (wait_result ?errs) js ps"
  let ?Q = "\<lambda>rs w. list_all2 (\<lambda>j r. answers j r \<and> (result_Error r = None \<longrightarrow> message_confirmed b j w)) js rs"
  have final: "?Q ?rs u" if "evolves v u" for u
  proof (rule list_all2_all_nthI)
    fix k assume k: "k < length js"
    then have p: "pending_ok b (js ! k) (ps ! k) v" using list_all2_nthD [OF ps] by simp
    show "answers (js ! k) (?rs ! k) \<and> (result_Error (?rs ! k) = None \<longrightarrow> message_confirmed b (js ! k) u)"
      using k len p message_at_evolves [OF _ that] evolves_errors [OF that]
      by (cases "ps ! k") (auto simp: answers_def wait_result_def pending_ok_def message_confirmed_def)
  qed (simp add: len)
  show "guarded b ?Q (case wait_loop 0 js ps (replicate (length js) zero_result) of (results, waiting) \<Rightarrow>
      step (any_order waiting) (\<lambda>order. bind_thread (wait_all_thread js order results)
        (\<lambda>results. emit_all (map publish_metric (zip js results)) (Finish results)))) v"
    unfolding wl prod.case
  proof (rule quiet_step)
    show "quietly (any_order waiting :: ('a tasks_world_scheme, _) state)"
      by (rule quietly_run [where n = ticks and p = entropy_pos and c = "\<lambda>w. Suc (choice_pos w)" and ms = metrics]) simp
    fix order u u' assume u: "evolves v u" "run_state (any_order waiting) u = (order, u')" "evolves v u'" "service_inv I b u'"
    then have order: "set order = set waiting" by auto
    note w = waited(1) [OF wl len order] waited(2) [OF wl len order, where errs = ?errs]
    show "guarded b ?Q (bind_thread (wait_all_thread js order results)
        (\<lambda>results. emit_all (map publish_metric (zip js results)) (Finish results))) u'"
    proof (rule steps.safe_bind [OF wait_all_safe [OF w(1) evolves_errors [OF u(3)]] u(4)], unfold w(2))
      fix rs z assume "rs = ?rs" "evolves u' z"
      then show "guarded b ?Q (emit_all (map publish_metric (zip js rs)) (Finish rs)) z"
        using final u(3) by (intro emit_all_safe) (auto intro: evolves_trans)
    qed
  qed
qed


section \<open>Cloud Tasks\<close>

lemma create_step:
  assumes j: "good_job j" and d: "marshalJob j = Inr data"
    and rest: "\<And>e v. evolves w v \<Longrightarrow> service_inv I b v \<Longrightarrow> (e = None \<longrightarrow> task_created s j v) \<Longrightarrow> guarded b Q (k e) v"
  shows "guarded b Q (step (CreateTask (task_for s j data)) k) w"
proof (rule safe_stepI)
  fix e v w' assume v: "evolves w v" "service_inv I b v" and run: "run_state (CreateTask (task_for s j data)) v = (e, w')"
  have t: "task_of s j (task_for s j data)" using d by (simp add: task_of_def)
  have "\<exists>ts. w' = v\<lparr>task_calls := Suc (task_calls v), tasks := tasks v @ ts\<rparr>
    \<and> set ts \<subseteq> {task_for s j data} \<and> (e = None \<longrightarrow> ts = [task_for s j data])"
  proof (cases "task_faults v (task_calls v)")
    case None
    then show ?thesis using run by (intro exI [of _ "[task_for s j data]"]) auto
  next
    case (Some f)
    obtain err created where f: "f = (err, created)" by fastforce
    show ?thesis using run Some
      by (intro exI [of _ "if created then [task_for s j data] else []"]) (cases created; auto simp: f)
  qed
  then obtain ts where w': "w' = v\<lparr>task_calls := Suc (task_calls v), tasks := tasks v @ ts\<rparr>"
    and ts: "set ts \<subseteq> {task_for s j data}" "e = None \<longrightarrow> ts = [task_for s j data]" by blast
  have i: "service_inv I b w'"
    by (rule service_inv_tasks [OF v(2)]) (use j t ts in \<open>auto simp: w'\<close>)
  have e: "evolves v w'" by (simp add: w' evolves_def)
  have "e = None \<longrightarrow> task_created s j w'" using ts t by (auto simp: task_created_def w')
  with rest e i v show "evolves v w' \<and> service_inv I b w' \<and> guarded b Q (k e) w'" by (blast intro: evolves_trans)
qed

lemma CloudTasks_Schedule_safe:
  assumes j: "good_job j"
  shows "guarded b (\<lambda>e w. e = None \<longrightarrow> task_created s j w) (CloudTasks_Schedule_thread s j) w"
proof -
  obtain data where d: "marshalJob j = Inr data" using marshalJob_total by blast
  have fin: "guarded b (\<lambda>e w. e = None \<longrightarrow> task_created s j w)
      (step (time_since t) (\<lambda>d. step (emit (f d)) (\<lambda>_. Finish None))) v"
    if "task_created s j u" "evolves u v" for t f u v
    using that task_created_evolves by (intro quiet_steps quietlyI) (simp, blast)
  show ?thesis unfolding CloudTasks_Schedule_thread_def d sum.case
    by (intro quiet_steps [OF quietly_now])
      (auto split: option.split intro!: create_step [OF j d] fin quiet_steps [OF quietly_emit])
qed

definition slot_created :: "cloudtasks_scheduler \<Rightarrow> job \<Rightarrow> enqueue_result \<Rightarrow> 'b tasks_world_scheme \<Rightarrow> bool" where
  "slot_created s j r w \<longleftrightarrow> answers j r \<and> (result_Error r = None \<longrightarrow> task_created s j w)"

lemma slot_created_evolves: "slot_created s j r w \<Longrightarrow> evolves w w' \<Longrightarrow> slot_created s j r w'"
  using task_created_evolves by (auto simp: slot_created_def)

lemma schedule_slots_safe:
  assumes "\<forall>(k, j) \<in> set ts. good_job j" and "distinct (map fst ts)" and "service_inv I b w"
  shows "guarded b (\<lambda>rs w. length rs = length results \<and> (\<forall>k < length results.
      (k \<notin> fst ` set ts \<longrightarrow> rs ! k = results ! k) \<and> (\<forall>j. (k, j) \<in> set ts \<longrightarrow> slot_created s j (rs ! k) w)))
    (schedule_slots_thread s ts results) w"
  using assms
proof (induction ts arbitrary: results w)
  case (Cons t ts)
  obtain idx j where t: "t = (idx, j)" by fastforce
  let ?r = "\<lambda>err. case err of Some e \<Rightarrow> \<lparr>result_JobID = '''', result_Error = Some e\<rparr>
      | None \<Rightarrow> \<lparr>result_JobID = job_ID j, result_Error = None\<rparr>"
  have one: "guarded b (\<lambda>rs w. \<exists>r. rs = results[idx := r] \<and> slot_created s j r w) (schedule_slot_thread s t results) w"
    unfolding schedule_slot_thread_def t prod.case
  proof (rule steps.safe_bind [OF CloudTasks_Schedule_safe Cons.prems(3)])
    show "good_job j" using Cons.prems(1) by (simp add: t)
  qed (auto simp: slot_created_def answers_def split: option.splits)
  show ?case unfolding schedule_slots_thread.simps
  proof (rule steps.safe_bind [OF one Cons.prems(3)], elim exE conjE)
    fix rs v r assume rs: "rs = results[idx := r]" "slot_created s j r v" and v: "service_inv I b v"
    have fresh: "idx \<notin> fst ` set ts" using Cons.prems(2) by (simp add: t)
    have "guarded b (\<lambda>rs' w. length rs' = length rs \<and> (\<forall>k < length rs.
        (k \<notin> fst ` set ts \<longrightarrow> rs' ! k = rs ! k) \<and> (\<forall>j. (k, j) \<in> set ts \<longrightarrow> slot_created s j (rs' ! k) w)))
      (schedule_slots_thread s ts rs) v"
      using Cons.IH Cons.prems v by simp
    from steps.safe_since [OF this evolves_refl] show "guarded b (\<lambda>rs' w. length rs' = length results \<and> (\<forall>k < length results.
        (k \<notin> fst ` set (t # ts) \<longrightarrow> rs' ! k = results ! k) \<and> (\<forall>j. (k, j) \<in> set (t # ts) \<longrightarrow> slot_created s j (rs' ! k) w)))
      (schedule_slots_thread s ts rs) v"
    proof (rule safe_weaken)
      fix rs' w assume h: "(length rs' = length rs \<and> (\<forall>k < length rs.
        (k \<notin> fst ` set ts \<longrightarrow> rs' ! k = rs ! k) \<and> (\<forall>j. (k, j) \<in> set ts \<longrightarrow> slot_created s j (rs' ! k) w))) \<and> evolves v w"
      have "slot_created s j' (rs' ! k) w" if "k < length results" "(k, j') \<in> set (t # ts)" for k j'
      proof (cases "k = idx")
        case True
        then have "j' = j" using that(2) fresh by (force simp: t)
        moreover have "rs' ! k = r" using h True fresh that(1) by (simp add: rs)
        ultimately show ?thesis using slot_created_evolves [OF rs(2)] h by simp
      qed (use that h in \<open>auto simp: t rs\<close>)
      then show "length rs' = length results \<and> (\<forall>k < length results.
        (k \<notin> fst ` set (t # ts) \<longrightarrow> rs' ! k = results ! k) \<and> (\<forall>j. (k, j) \<in> set (t # ts) \<longrightarrow> slot_created s j (rs' ! k) w))"
        using h by (auto simp: t rs)
    qed
  qed
qed simp

lemma CloudTasks_ScheduleBulk_safe:
  assumes js: "\<forall>j \<in> set js. good_job j" and inv: "service_inv I b w"
  shows "guarded b (\<lambda>rs w. list_all2 (\<lambda>j r. slot_created s j r w) js rs) (CloudTasks_ScheduleBulk_thread s js) w"
  unfolding CloudTasks_ScheduleBulk_thread_def
proof (rule quiet_step)
  let ?jobs = "List.enumerate 0 js"
  show "quietly (any_order ?jobs :: ('a tasks_world_scheme, _) state)"
    by (rule quietly_run [where n = ticks and p = entropy_pos and c = "\<lambda>w. Suc (choice_pos w)" and ms = metrics]) simp
  fix order v and w' :: "'a tasks_world_scheme" assume "run_state (any_order ?jobs) v = (order, w')" and inv': "service_inv I b w'"
  then have o: "order = permute (choice v (choice_pos v)) ?jobs" by simp
  then have set: "set order = set ?jobs" by simp
  have "mset (map fst order) = mset (map fst ?jobs)" unfolding o by (metis mset_map mset_permute)
  from mset_eq_imp_distinct_iff [OF this] have d: "distinct (map fst order)" by (simp add: enumerate_eq_zip)
  have g: "\<forall>(k, j) \<in> set order. good_job j" unfolding set using js in_set_enumerateE by fast
  show "guarded b (\<lambda>rs w. list_all2 (\<lambda>j r. slot_created s j r w) js rs)
    (schedule_slots_thread s order (replicate (length js) zero_result)) w'"
  proof (rule safe_weaken [OF schedule_slots_safe [OF g d inv']])
    fix rs u assume "length rs = length (replicate (length js) zero_result) \<and> (\<forall>k < length (replicate (length js) zero_result).
      (k \<notin> fst ` set order \<longrightarrow> rs ! k = replicate (length js) zero_result ! k)
      \<and> (\<forall>j. (k, j) \<in> set order \<longrightarrow> slot_created s j (rs ! k) u))"
    then show "list_all2 (\<lambda>j r. slot_created s j r u) js rs"
      by (auto simp: list_all2_conv_all_nth set in_set_enumerate_eq)
  qed
qed

end

section \<open>The contracts hold\<close>

text \<open>For every deployment: the store may be either, the invariant is the one it keeps.\<close>

sublocale deployed_store \<subseteq> publishing: backend_threads_contract "service_inv I (legacy_pubsub ts)"
    "pubsub_threads (legacy_pubsub ts)" "message_confirmed (legacy_pubsub ts)" for ts
proof unfold_locales
  fix w :: "'a tasks_world_scheme" and j js assume "service_inv I (legacy_pubsub ts) w"
  then show "\<forall>j \<in> set js. good_job j \<Longrightarrow> guarded (legacy_pubsub ts)
      (\<lambda>rs w. list_all2 (\<lambda>j r. answers j r \<and> (result_Error r = None \<longrightarrow> message_confirmed (legacy_pubsub ts) j w)) js rs)
      (bt_EnqueueBulk (pubsub_threads (legacy_pubsub ts)) js) w"
    using PubSub_EnqueueBulk_safe [OF legacy_pubsub_simps(2)] by (simp add: pubsub_threads_def)
  show "good_job j \<Longrightarrow> guarded (legacy_pubsub ts) (\<lambda>e w. e = None \<longrightarrow> message_confirmed (legacy_pubsub ts) j w)
      (bt_Enqueue (pubsub_threads (legacy_pubsub ts)) j) w"
    using PubSub_Enqueue_safe [OF legacy_pubsub_simps(2)] by (simp add: pubsub_threads_def)
qed (rule message_confirmed_evolves)

sublocale deployed_store \<subseteq> scheduling: scheduler_threads_contract "service_inv I b" "cloud_tasks_threads s" "task_created s" for b s
proof unfold_locales
  fix w :: "'a tasks_world_scheme" and j js assume "service_inv I b w"
  then show "\<forall>j \<in> set js. good_job j \<Longrightarrow> guarded b
      (\<lambda>rs w. list_all2 (\<lambda>j r. answers j r \<and> (result_Error r = None \<longrightarrow> task_created s j w)) js rs)
      (st_ScheduleBulk (cloud_tasks_threads s) js) w"
    using CloudTasks_ScheduleBulk_safe [where s = s] by (simp add: cloud_tasks_threads_def slot_created_def)
  show "good_job j \<Longrightarrow> guarded b (\<lambda>e w. e = None \<longrightarrow> task_created s j w) (st_Schedule (cloud_tasks_threads s) j) w"
    using CloudTasks_Schedule_safe by (simp add: cloud_tasks_threads_def)
qed (rule task_created_evolves)

end
