(* ===== verification/Concurrency.thy ===== *)
theory Concurrency
  imports ThreadContracts
begin

text \<open>
  Handlers that run at the same time. Requests and deliveries of tasks arrive at any
  moment, and any thread may make its next step; what every reachable pool satisfies
  follows from one rely-guarantee proof of each handler.
\<close>


section \<open>The pool of the service\<close>

datatype call = Rpc rpc_request | Delivery task
datatype answer = RpcAnswer rpc_response | HttpAnswer http_response

text \<open>Beside its call, a thread carries the world its call arrived in, which no step reads.\<close>

type_synonym 'w service_pool = "('w, call \<times> 'w, answer) pool"

definition call_thread :: "'a env_scheme service_threads \<Rightarrow> call \<Rightarrow> ('a env_scheme, answer) thread" where
  "call_thread st c =
     (case c of
        Rpc req \<Rightarrow> map_thread_result RpcAnswer (serve_thread st req)
      | Delivery t \<Rightarrow> map_thread_result HttpAnswer (callback_thread (thr_backend st) (Inr (task_Body t))))"

definition enter :: "'a env_scheme service_threads \<Rightarrow> call \<Rightarrow> 'a env_scheme service_pool \<Rightarrow> 'a env_scheme service_pool" where
  "enter st c p = p\<lparr>pool_threads := pool_threads p @ [((c, pool_world p), call_thread st c)]\<rparr>"

inductive pool_step :: "'a tasks_world_scheme service_threads \<Rightarrow> 'a tasks_world_scheme service_pool
    \<Rightarrow> 'a tasks_world_scheme service_pool \<Rightarrow> bool" for st where
  arrives: "rpc_ok req \<Longrightarrow> pool_step st p (enter st (Rpc req) p)"
| delivered: "t \<in> set (tasks (pool_world p)) \<Longrightarrow> pool_step st p (enter st (Delivery t) p)"
| advances: "advance p p' \<Longrightarrow> pool_step st p p'"

inductive_cases pool_stepE: "pool_step st p p'"

definition idle :: "'w \<Rightarrow> 'w service_pool" where
  "idle w = \<lparr>pool_world = w, pool_threads = []\<rparr>"


section \<open>What an answer says of the world\<close>

text \<open>
  The route of a job, for a job type that was registered before its request arrived.
\<close>

definition routed_since :: "'a tasks_world_scheme \<Rightarrow> 'a tasks_world_scheme server \<Rightarrow> enqueue_request \<Rightarrow> job \<Rightarrow> bool" where
  "routed_since w0 srv r j \<longleftrightarrow>
     (\<forall>jt. map_of (jobTypes w0) (jobTypeKey (enqueue_request_ProducerId r) (enqueue_request_JobType r)) = Some jt \<longrightarrow>
        \<not> (sc_LegacyPayloadQueueRouting (srv_config srv) \<and> snd (legacyPayloadPriority (enqueue_request_Payload r))) \<longrightarrow>
        job_Priority j = storageQueueToQueuePriority (job_type_Queue jt) \<and> job_MaxRetries j = sint (job_type_MaxRetries jt))"

text \<open>The run time was seen at least a threshold ahead.\<close>

definition deferred :: "'a env_scheme server \<Rightarrow> job \<Rightarrow> 'a env_scheme \<Rightarrow> bool" where
  "deferred srv j w \<longleftrightarrow> 0 < sc_ScheduleThreshold (srv_config srv)
     \<and> (\<exists>n. sc_ScheduleThreshold (srv_config srv) \<le> time_sub (job_RunAt j) (clock w n))"

text \<open>The job of a success is with the backend, or it is far ahead and with the scheduler.\<close>

definition handed_on :: "'a env_scheme server \<Rightarrow> (job \<Rightarrow> 'a env_scheme \<Rightarrow> bool) \<Rightarrow> (job \<Rightarrow> 'a env_scheme \<Rightarrow> bool)
    \<Rightarrow> job \<Rightarrow> 'a env_scheme \<Rightarrow> bool" where
  "handed_on srv taken kept j w \<longleftrightarrow> taken j w \<or> kept j w \<and> deferred srv j w"

lemma deferred_evolves: "deferred srv j w \<Longrightarrow> evolves w w' \<Longrightarrow> deferred srv j w'"
  by (simp add: deferred_def evolves_def)

lemma is_future_deferred: "run_state (is_future srv j) w = (True, w') \<Longrightarrow> deferred srv j w"
  by (auto simp: is_future_def deferred_def split: if_splits)

lemma is_future_later: "run_state (is_future srv j) w = (f, w') \<Longrightarrow> evolves w w' \<Longrightarrow> f \<longrightarrow> deferred srv j w'"
  by (cases f) (simp_all add: deferred_evolves [OF is_future_deferred])

lemma partition_deferred:
  fixes w :: "'a tasks_world_scheme"
  shows "run_state (partition_loop srv i js p) w = (p', w') \<Longrightarrow> j \<in> set (futureJobs p') \<Longrightarrow>
    j \<in> set (futureJobs p) \<or> deferred srv j w"
proof (induction srv i js p arbitrary: w rule: partition_loop.induct)
  case (3 srv i j0 js p)
  obtain f w1 where f: "run_state (is_future srv j0) w = (f, w1)" by fastforce
  let ?q = "if f then p\<lparr>futureJobs := futureJobs p @ [j0], futureIndexes := futureIndexes p @ [i]\<rparr>
    else p\<lparr>immediateJobs := immediateJobs p @ [j0], immediateIndexes := immediateIndexes p @ [i]\<rparr>"
  have "run_state (partition_loop srv (Suc i) js ?q) w1 = (p', w')" using "3.prems"(1) f by simp
  from "3.IH" [OF this "3.prems"(2)] have "j \<in> set (futureJobs p) \<or> f \<and> j = j0 \<or> deferred srv j w1" by (auto split: if_splits)
  moreover have "deferred srv j w1 \<Longrightarrow> deferred srv j w"
    using quietlyD [OF quietly_is_future f] by (simp add: deferred_def quiet_env)
  moreover have "f \<Longrightarrow> deferred srv j0 w" using f is_future_deferred by simp
  ultimately show ?case by blast
qed simp_all

definition accepted :: "'a tasks_world_scheme server \<Rightarrow> (job \<Rightarrow> 'a tasks_world_scheme \<Rightarrow> bool) \<Rightarrow> 'a tasks_world_scheme
    \<Rightarrow> rpc_context \<Rightarrow> enqueue_request \<Rightarrow> enqueue_response \<Rightarrow> 'a tasks_world_scheme \<Rightarrow> bool" where
  "accepted srv placed w0 ctx r resp w \<longleftrightarrow>
     (\<exists>j. job_of srv (shadowFromContext ctx) r j \<and> good_job j \<and> job_ID j = enqueue_response_JobId resp
        \<and> routed_since w0 srv r j \<and> placed j w)"

definition bulk_accepted :: "'a tasks_world_scheme server \<Rightarrow> (job \<Rightarrow> 'a tasks_world_scheme \<Rightarrow> bool) \<Rightarrow> rpc_context
    \<Rightarrow> enqueue_bulk_request \<Rightarrow> enqueue_bulk_response \<Rightarrow> 'a tasks_world_scheme \<Rightarrow> bool" where
  "bulk_accepted srv placed ctx req resp w \<longleftrightarrow>
     length (enqueue_bulk_response_Results resp) = length (enqueue_bulk_request_Jobs req)
     \<and> (\<forall>i < length (enqueue_bulk_request_Jobs req).
          bulk_slot (\<lambda>j br. answers j br \<and> (result_Error br = None \<longrightarrow> placed j w)) srv (shadowFromContext ctx) i
            (enqueue_bulk_request_Jobs req ! i) (enqueue_bulk_response_Results resp ! i))"

definition answered :: "'a tasks_world_scheme server \<Rightarrow> (job \<Rightarrow> 'a tasks_world_scheme \<Rightarrow> bool)
    \<Rightarrow> (job \<Rightarrow> 'a tasks_world_scheme \<Rightarrow> bool) \<Rightarrow> call \<times> 'a tasks_world_scheme \<Rightarrow> answer \<Rightarrow> 'a tasks_world_scheme \<Rightarrow> bool" where
  "answered srv taken kept cw x w \<longleftrightarrow>
     (\<forall>ctx r resp. fst cw = Rpc (RpcEnqueue ctx r) \<longrightarrow> x = RpcAnswer (EnqueueReply (Inr resp)) \<longrightarrow>
        accepted srv (handed_on srv taken kept) (snd cw) ctx r resp w)
   \<and> (\<forall>ctx req resp. fst cw = Rpc (RpcEnqueueBulk ctx req) \<longrightarrow> x = RpcAnswer (EnqueueBulkReply (Inr resp)) \<longrightarrow>
        bulk_accepted srv (handed_on srv taken kept) ctx req resp w)
   \<and> (\<forall>resp. x = RpcAnswer (CreateProducerReply (Inr resp)) \<longrightarrow>
        map_of (producers w) (producer_ProducerId (create_producer_response_Producer resp)) = Some (create_producer_response_Producer resp))
   \<and> (\<forall>resp. x = RpcAnswer (CreateJobTypeReply (Inr resp)) \<longrightarrow>
        map_of (jobTypes w) (job_type_key (create_job_type_response_JobType resp)) = Some (create_job_type_response_JobType resp))
   \<and> (\<forall>t body. fst cw = Delivery t \<longrightarrow> x = HttpAnswer \<lparr>http_status = 200, http_body = body\<rparr> \<longrightarrow>
        (\<exists>j now. UnmarshalJob (task_Body t) = Inr j \<and> taken (j\<lparr>job_RunAt := now\<rparr>) w))"

lemma bulk_slot_mono: "bulk_slot Q srv shadow i r b \<Longrightarrow> (\<And>j br. Q j br \<Longrightarrow> Q' j br) \<Longrightarrow> bulk_slot Q' srv shadow i r b"
  by (auto simp: bulk_slot_def split: option.splits) blast

lemma answered_evolves:
  assumes a: "answered srv taken kept cw x w" and e: "evolves w w'"
    and taken: "\<And>j. taken j w \<Longrightarrow> taken j w'" and kept: "\<And>j. kept j w \<Longrightarrow> kept j w'"
  shows "answered srv taken kept cw x w'"
proof -
  have "map_of (producers w) \<subseteq>\<^sub>m map_of (producers w')" "map_of (jobTypes w) \<subseteq>\<^sub>m map_of (jobTypes w')"
    using e by (auto simp: evolves_def)
  then have m: "\<And>i p. map_of (producers w) i = Some p \<Longrightarrow> map_of (producers w') i = Some p"
    "\<And>k j. map_of (jobTypes w) k = Some j \<Longrightarrow> map_of (jobTypes w') k = Some j"
    unfolding map_le_def by (metis domI)+
  let ?placed = "handed_on srv taken kept"
  have placed: "?placed j w \<Longrightarrow> ?placed j w'" for j using taken kept deferred_evolves [OF _ e] by (auto simp: handed_on_def)
  have acc: "accepted srv ?placed w0 ctx r resp w \<Longrightarrow> accepted srv ?placed w0 ctx r resp w'" for w0 ctx r resp
    unfolding accepted_def using placed by blast
  have bulk: "bulk_accepted srv ?placed ctx req resp w \<Longrightarrow> bulk_accepted srv ?placed ctx req resp w'" for ctx req resp
    unfolding bulk_accepted_def
    by (elim conjE, intro conjI allI impI, assumption, drule spec, drule (1) mp, erule bulk_slot_mono, use placed in blast)
  show ?thesis unfolding answered_def
  proof (intro conjI allI impI)
    fix ctx r resp assume "fst cw = Rpc (RpcEnqueue ctx r)" "x = RpcAnswer (EnqueueReply (Inr resp))"
    then show "accepted srv ?placed (snd cw) ctx r resp w'" using a acc by (simp add: answered_def)
  next
    fix ctx req resp assume "fst cw = Rpc (RpcEnqueueBulk ctx req)" "x = RpcAnswer (EnqueueBulkReply (Inr resp))"
    then show "bulk_accepted srv ?placed ctx req resp w'" using a bulk by (simp add: answered_def)
  next
    fix t body assume "fst cw = Delivery t" "x = HttpAnswer \<lparr>http_status = 200, http_body = body\<rparr>"
    then have "\<exists>j now. UnmarshalJob (task_Body t) = Inr j \<and> taken (j\<lparr>job_RunAt := now\<rparr>) w" using a by (simp add: answered_def)
    then show "\<exists>j now. UnmarshalJob (task_Body t) = Inr j \<and> taken (j\<lparr>job_RunAt := now\<rparr>) w'" using taken by blast
  qed (use a m in \<open>simp_all add: answered_def\<close>)
qed


section \<open>Every handler is safe\<close>

locale concurrent_deployment = deployment S I ext cfg b B sched
    + backend_threads_contract "service_inv I b" bt taken + scheduler_threads_contract "service_inv I b" sts kept
  for S :: "'a tasks_world_scheme store" and I ext cfg b B sched and bt :: "'a tasks_world_scheme backend_threads"
    and sts :: "'a tasks_world_scheme scheduler_threads" and taken kept

context deployed_store begin

lemma create_producer_evolves:
  assumes "service_inv I b w" and "producer_id_ok i" and "create_producer_request_Name req \<noteq> []"
    and "run_state (store_CreateProducer S (new_producer req i)) w = ((p', e), w')"
  shows "evolves w w'"
  using store_create_producer_keeps(2,3) [OF assms] map_le_add_new [of "map_of (producers w)" i p']
  by (cases e) (simp_all add: evolves_def)

lemma create_job_type_evolves:
  assumes "service_inv I b w" and run: "run_state (AdminServer_CreateJobType (NewAdminServer S) req) w = (r, w')"
  shows "evolves w w' \<and> (\<forall>resp. r = Inr resp \<longrightarrow>
    map_of (jobTypes w) (job_type_key (create_job_type_response_JobType resp)) = None
    \<and> map_of (jobTypes w') (job_type_key (create_job_type_response_JobType resp)) = Some (create_job_type_response_JobType resp))"
proof (cases "create_job_type_request_ProducerId req = [] \<or> create_job_type_request_Name req = []")
  case True
  then have "w' = w \<and> (\<forall>resp. r \<noteq> Inr resp)" using run by (auto simp: AdminServer_CreateJobType_def split: if_splits)
  then show ?thesis by simp
next
  case False
  have "I w" using assms(1) by (simp add: service_inv_def)
  note out = create_job_type_outcome [OF this run]
  obtain x where "run_state (store_CreateJobType S (new_job_type req)) w = (x, w')"
    using run False by (auto simp: AdminServer_CreateJobType_def NewAdminServer_def
        new_job_type_def effective_retries_def Let_def split: prod.splits)
  note f = frame_create_job_type [OF this]
  show ?thesis
  proof (cases r)
    case (Inr resp)
    with out False obtain t where j: "create_job_type_response_JobType resp = stamped_job_type (new_job_type req) t"
      and m: "map_of (jobTypes w) (job_type_key (new_job_type req)) = None" "map_of (producers w') = map_of (producers w)"
        "map_of (jobTypes w') = (map_of (jobTypes w))(job_type_key (new_job_type req) \<mapsto> create_job_type_response_JobType resp)" by auto
    have "job_type_key (create_job_type_response_JobType resp) = job_type_key (new_job_type req)" by (simp add: j)
    with m f map_le_add_new [where m = "map_of (jobTypes w)", OF m(1), of "create_job_type_response_JobType resp"] show ?thesis by (simp add: evolves_def Inr)
  qed (use out False f in \<open>simp add: evolves_def\<close>)
qed

lemma CreateProducer_safe:
  "guarded b (\<lambda>x w. \<forall>resp. x = Inr resp \<longrightarrow>
      map_of (producers w) (producer_ProducerId (create_producer_response_Producer resp)) = Some (create_producer_response_Producer resp))
    (CreateProducer_thread (NewAdminServer S) req) w"
proof (cases "create_producer_request_Name req = []")
  case True
  then show ?thesis by (simp add: CreateProducer_thread_def)
next
  case False
  let ?Q = "\<lambda>x w. \<forall>resp. x = Inr resp \<longrightarrow>
      map_of (producers w) (producer_ProducerId (create_producer_response_Producer resp)) = Some (create_producer_response_Producer resp)"
  have create: "guarded b ?Q (step (store_CreateProducer S (new_producer req i)) (\<lambda>(p', e). Finish (case e of
      Some e \<Rightarrow> Inl (if errors_is e ErrAlreadyExists then RpcStatus AlreadyExists (error_text e)
        else RpcStatus Internal ''failed to create producer'')
    | None \<Rightarrow> Inr \<lparr>create_producer_response_Producer = p'\<rparr>))) v" if i: "producer_id_ok i" for i v
  proof (rule safe_stepI)
    fix pe u u' assume u: "service_inv I b u" and run: "run_state (store_CreateProducer S (new_producer req i)) u = (pe, u')"
    obtain p' e where pe: "pe = (p', e)" by fastforce
    note c = store_create_producer_keeps [OF u i False run [unfolded pe]] create_producer_evolves [OF u i False run [unfolded pe]]
    show "evolves u u' \<and> service_inv I b u' \<and> guarded b ?Q (case pe of (p', e) \<Rightarrow> Finish (case e of
        Some e \<Rightarrow> Inl (if errors_is e ErrAlreadyExists then RpcStatus AlreadyExists (error_text e)
          else RpcStatus Internal ''failed to create producer'')
      | None \<Rightarrow> Inr \<lparr>create_producer_response_Producer = p'\<rparr>)) u'"
      using c by (cases e) (auto simp: pe new_producer_def)
  qed
  have "quietly generateProducerID" unfolding generateProducerID_def by (intro quietlyI)
  then have "guarded b ?Q (step generateProducerID (\<lambda>i. step (store_CreateProducer S (new_producer req i)) (\<lambda>(p', e). Finish (case e of
      Some e \<Rightarrow> Inl (if errors_is e ErrAlreadyExists then RpcStatus AlreadyExists (error_text e)
        else RpcStatus Internal ''failed to create producer'')
    | None \<Rightarrow> Inr \<lparr>create_producer_response_Producer = p'\<rparr>)))) w"
    by (rule quiet_step) (rule create, auto simp: run_generateProducerID next_producer_id_ok)
  then show ?thesis using False by (simp add: CreateProducer_thread_def NewAdminServer_def new_producer_def)
qed

lemma one_step_safe:
  assumes "\<And>v x w'. service_inv I b v \<Longrightarrow> run_state m v = (x, w') \<Longrightarrow> evolves v w' \<and> service_inv I b w' \<and> Q x w'"
  shows "guarded b Q (step m Finish) w"
  using assms by (intro safe_stepI) simp

end

context concurrent_deployment begin

abbreviation "srv \<equiv> svc_server (wire ext cfg S B sched)"
abbreviation "placed \<equiv> handed_on srv taken kept"

lemma placed_stable: "placed j w \<Longrightarrow> evolves w w' \<Longrightarrow> placed j w'"
  using taken_stable kept_stable deferred_evolves by (auto simp: handed_on_def)

lemma placedI: "taken j w \<Longrightarrow> placed j w" "kept j w \<Longrightarrow> deferred srv j w \<Longrightarrow> placed j w"
  by (simp_all add: handed_on_def)

lemma quiet_srv: "quiet_server srv"
  by (rule quiet_server) simp

lemma routed_later:
  assumes e: "evolves w0 v" and inv: "service_inv I b v"
    and run: "run_state (routingConfig srv (enqueue_request_ProducerId r) (enqueue_request_JobType r) (enqueue_request_Payload r)) v
      = ((p, n, warning), w')"
    and j: "job_Priority j = p" "job_MaxRetries j = n"
  shows "routed_since w0 srv r j"
  unfolding routed_since_def
proof (intro allI impI)
  let ?i = "enqueue_request_ProducerId r" and ?t = "enqueue_request_JobType r"
  fix jt assume jt: "map_of (jobTypes w0) (jobTypeKey ?i ?t) = Some jt"
    and legacy: "\<not> (sc_LegacyPayloadQueueRouting (srv_config srv) \<and> snd (legacyPayloadPriority (enqueue_request_Payload r)))"
  have "map_of (jobTypes v) (jobTypeKey ?i ?t) = Some jt"
    using e jt unfolding evolves_def map_le_def by (metis domI)
  moreover have "I v" using inv by (simp add: service_inv_def)
  moreover obtain x u where g: "run_state (store_GetJobType S ?i ?t) v = (x, u)" by fastforce
  ultimately have x: "x = Inr jt" using get_job_type [OF _ g] by auto
  have "run_state (getJobTypeConfig srv ?i ?t) v = ((p, n, warning), w')"
    using run legacy by (auto simp: routingConfig_def split: prod.splits)
  then show "job_Priority j = storageQueueToQueuePriority (job_type_Queue jt) \<and> job_MaxRetries j = sint (job_type_MaxRetries jt)"
    using g x j by (simp add: getJobTypeConfig_def)
qed

text \<open>A job made in several steps is as good as one made at once.\<close>

lemma prepare_safe:
  assumes r: "request_ok r" "rejection srv r = None" and e: "evolves w0 w"
  shows "guarded b (\<lambda>(ws, j) _. job_of srv shadow r j \<and> good_job j \<and> routed_since w0 srv r j) (prepare_job_thread srv shadow r) w"
  unfolding prepare_job_thread_def
proof (rule quiet_steps [OF quietly_check_producer [OF quiet_srv]], rule quiet_step [OF quietly_routingConfig [OF quiet_srv]])
  fix ws :: "string list" and u and x :: "priority \<times> int \<times> string" and v w' :: "'a tasks_world_scheme"
  let ?rc = "routingConfig srv (enqueue_request_ProducerId r) (enqueue_request_JobType r) (enqueue_request_Payload r)"
  assume u: "evolves w u" "evolves u v" and inv: "service_inv I b v" and run: "run_state ?rc v = (x, w')"
  obtain p n warning where x: "x = (p, n, warning)" by (metis prod_cases3)
  have c: "sc_DefaultQueue (srv_config srv) = PriorityMedium" "sc_DefaultMaxRetries (srv_config srv) = 10"
    "sc_MaxPayloadSize (srv_config srv) = 1048576" by (simp_all add: main_server_config_def DefaultServerConfig_def)
  have "0 < n" using routing_retries [OF _ _ _ _ run [unfolded x]] inv c by (simp add: service_inv_def)
  moreover have "known_priority p" "is_int32 n"
    using routingConfig_routed [OF run [unfolded x]] c by (auto simp: routed_def is_int32_def)
  moreover have "enqueue_request_ProducerId r \<noteq> []" "enqueue_request_JobType r \<noteq> []"
    "slice_len (enqueue_request_Payload r) \<le> 1048576"
    using r(2) c(3) by (auto simp: rejection_def split: if_splits)
  ultimately have good: "good_job (job.make i (enqueue_request_ProducerId r) (enqueue_request_JobType r) p
      (enqueue_request_Payload r) ra (enqueue_request_TraceId r) n ca shadow)"
    if "set i \<subseteq> set base62Alphabet \<union> {CHR ''_''}" for i ra ca
    using that r(1) by (simp add: good_job_def request_ok_def job.defs)
  have routed: "routed_since w0 srv r j" if "job_Priority j = p" "job_MaxRetries j = n" for j
    using routed_later [OF _ inv run [unfolded x] that] e u by (blast intro: evolves_trans)
  show "guarded b (\<lambda>(ws, j) _. job_of srv shadow r j \<and> good_job j \<and> routed_since w0 srv r j)
    (case x of (priority, maxRetries, jobTypeWarning) \<Rightarrow>
      step (generate (enqueue_request_ProducerId r) (enqueue_request_JobType r)) (\<lambda>jobID.
      step time_now (\<lambda>now. step time_now (\<lambda>createdAt.
      Finish (if jobTypeWarning \<noteq> '''' then ws @ [jobTypeWarning] else ws, \<lparr>
        job_ID = jobID, job_ProducerID = enqueue_request_ProducerId r, job_Type = enqueue_request_JobType r,
        job_Priority = priority, job_Payload = enqueue_request_Payload r,
        job_RunAt = (case enqueue_request_RunAt r of None \<Rightarrow> now | Some t \<Rightarrow> srv_as_time srv t),
        job_TraceID = enqueue_request_TraceId r, job_MaxRetries = maxRetries,
        job_CreatedAt = createdAt, job_Shadow = shadow\<rparr>))))) w'"
    unfolding x prod.case
  proof (rule quiet_step [OF quietly_generate], intro quiet_steps [OF quietly_now])
    fix i and s s' :: "'a tasks_world_scheme" and now createdAt and z
    assume "run_state (generate (enqueue_request_ProducerId r) (enqueue_request_JobType r)) s = (i, s')"
    then have "set i \<subseteq> set base62Alphabet \<union> {CHR ''_''}"
      using set_generate [of "enqueue_request_ProducerId r" "enqueue_request_JobType r" s] by simp
    from good [OF this] show "guarded b (\<lambda>(ws, j) _. job_of srv shadow r j \<and> good_job j \<and> routed_since w0 srv r j)
      (Finish (if warning \<noteq> '''' then ws @ [warning] else ws, \<lparr>
        job_ID = i, job_ProducerID = enqueue_request_ProducerId r, job_Type = enqueue_request_JobType r,
        job_Priority = p, job_Payload = enqueue_request_Payload r,
        job_RunAt = (case enqueue_request_RunAt r of None \<Rightarrow> now | Some t \<Rightarrow> srv_as_time srv t),
        job_TraceID = enqueue_request_TraceId r, job_MaxRetries = n,
        job_CreatedAt = createdAt, job_Shadow = shadow\<rparr>)) z"
      using routed by (simp add: job_of_def job.defs)
  qed
qed

lemma enqueue_done_safe:
  assumes "job_of srv (shadowFromContext ctx) r j" "good_job j" "routed_since w0 srv r j" and "placed j w"
  shows "guarded b (\<lambda>x w. \<forall>resp. x = Inr resp \<longrightarrow> accepted srv placed w0 ctx r resp w)
    (step (enqueue_done start r ws j meth) Finish) w"
proof (rule quiet_step [OF quietly_enqueue_done])
  fix x v w' assume run: "run_state (enqueue_done start r ws j meth) v = (x, w')" and e: "evolves w w'"
  have "x = Inr \<lparr>enqueue_response_JobId = job_ID j, enqueue_response_ErrorMessages = ws,
      enqueue_response_CorrelationId = enqueue_request_CorrelationId r\<rparr>"
    using run by (simp add: enqueue_done_def Let_def)
  with assms placed_stable [OF assms(4) e]
  show "guarded b (\<lambda>x w. \<forall>resp. x = Inr resp \<longrightarrow> accepted srv placed w0 ctx r resp w) (Finish x) w'"
    by (auto simp: accepted_def)
qed

lemma Enqueue_safe:
  assumes r: "request_ok r" and inv: "service_inv I b w"
  shows "guarded b (\<lambda>x u. \<forall>resp. x = Inr resp \<longrightarrow> accepted srv placed w ctx r resp u) (Enqueue_thread srv bt (Some sts) ctx r) w"
    (is "guarded b ?Q _ _")
proof (cases "rejection srv r")
  case (Some m)
  then show ?thesis unfolding Enqueue_thread_def
    by (intro quiet_steps [OF quietly_now]) (auto simp: rejection_def split: if_splits)
next
  case ok: None
  have refused: "guarded b ?Q (step (emit m) (\<lambda>_. Finish (Inl s))) v" for m s v
    by (intro quiet_steps [OF quietly_emit]) simp
  have body: "guarded b ?Q (case (Some sts, future) of
      (Some sched, True) \<Rightarrow> bind_thread (st_Schedule sched j) (\<lambda>err. case err of
        Some e \<Rightarrow> step (emit (m1 e)) (\<lambda>_. Finish (Inl (s1 e)))
      | None \<Rightarrow> step (enqueue_done start r ws j ''scheduled'') Finish)
    | _ \<Rightarrow> bind_thread (bt_Enqueue bt j) (\<lambda>err. case err of
        Some e \<Rightarrow> step (emit (m2 e)) (\<lambda>_. Finish (Inl (s2 e)))
      | None \<Rightarrow> step (enqueue_done start r ws j ''immediate'') Finish)) v"
    if j: "job_of srv (shadowFromContext ctx) r j" "good_job j" "routed_since w srv r j" and v: "service_inv I b v" and future: "future \<longrightarrow> deferred srv j v"
    for future j m1 s1 m2 s2 start ws v
  proof (cases future)
    case True
    have f: "future = True" using True by simp
    show ?thesis unfolding f prod.case option.case bool.case
    proof (rule steps.safe_bind [OF schedule_safe [OF v j(2)] v])
      fix err :: "go_error option" and u assume "err = None \<longrightarrow> kept j u" "evolves v u"
      moreover from this have "deferred srv j u" using future True deferred_evolves by blast
      ultimately have "err = None \<longrightarrow> placed j u" by (auto intro: placedI(2))
      then show "guarded b ?Q (case err of Some e \<Rightarrow> step (emit (m1 e)) (\<lambda>_. Finish (Inl (s1 e)))
        | None \<Rightarrow> step (enqueue_done start r ws j ''scheduled'') Finish) u"
        using refused enqueue_done_safe [OF j] by (cases err) simp_all
    qed
  next
    case False
    have f: "future = False" using False by simp
    show ?thesis unfolding f prod.case option.case bool.case
    proof (rule steps.safe_bind [OF enqueue_safe [OF v j(2)] v])
      fix err :: "go_error option" and u assume "err = None \<longrightarrow> taken j u"
      then have "err = None \<longrightarrow> placed j u" by (auto intro: placedI)
      then show "guarded b ?Q (case err of Some e \<Rightarrow> step (emit (m2 e)) (\<lambda>_. Finish (Inl (s2 e)))
        | None \<Rightarrow> step (enqueue_done start r ws j ''immediate'') Finish) u"
        using refused enqueue_done_safe [OF j] by (cases err) auto
    qed
  qed
  have n: "enqueue_request_ProducerId r \<noteq> []" "enqueue_request_JobType r \<noteq> []"
    "\<not> sc_MaxPayloadSize (srv_config srv) < int (slice_len (enqueue_request_Payload r))"
    using ok by (auto simp: rejection_def split: if_splits)
  show ?thesis unfolding Enqueue_thread_def
  proof (rule quiet_step [OF quietly_now], simp only: n if_False, rule steps.safe_bind, rule prepare_safe [OF r ok])
    fix start and v w1 u :: "'a tasks_world_scheme" and x :: "string list \<times> job"
    assume "(case x of (ws, j) \<Rightarrow> \<lambda>_. job_of srv (shadowFromContext ctx) r j \<and> good_job j \<and> routed_since w srv r j) u"
    then obtain ws j where x: "x = (ws, j)" and j: "job_of srv (shadowFromContext ctx) r j" "good_job j" "routed_since w srv r j" by auto
    show "guarded b ?Q (case x of (warnings, j) \<Rightarrow> step (is_future srv j) (\<lambda>future.
       case (Some sts, future) of
         (Some sched, True) \<Rightarrow>
           bind_thread (st_Schedule sched j) (\<lambda>err.
           case err of
             Some e \<Rightarrow>
               step (emit (Incr ''jack.enqueue.count'' (enqueue_tags r (job_Priority j) @ [''status:error'', ''method:scheduled'']))) (\<lambda>_.
               Finish (Inl (RpcStatus Internal ''failed to schedule future job'')))
           | None \<Rightarrow> step (enqueue_done start r warnings j ''scheduled'') Finish)
       | _ \<Rightarrow>
           bind_thread (bt_Enqueue bt j) (\<lambda>err.
           case err of
             Some e \<Rightarrow>
               step (emit (Incr ''jack.enqueue.count'' (enqueue_tags r (job_Priority j) @ [''status:error'', ''method:immediate'']))) (\<lambda>_.
               Finish (Inl (if errors_is e ErrQueueUnavailable
                 then RpcStatus Unavailable ''queue temporarily unavailable''
                 else RpcStatus Internal ''failed to enqueue job'')))
           | None \<Rightarrow> step (enqueue_done start r warnings j ''immediate'') Finish))) u"
      unfolding x prod.case
      by (rule quiet_step [OF quietly_is_future]) (rule body [OF j, unfolded prod.case], assumption, erule (1) is_future_later)
  qed
qed

text \<open>What the loop of a bulk call makes of each request, and leaves in its four slices.\<close>

definition prep_spec :: "bool \<Rightarrow> enqueue_request \<Rightarrow> prep_out \<Rightarrow> bool" where
  "prep_spec shadow r x \<longleftrightarrow> (case bulk_validation srv r of
     Some mr \<Rightarrow> x = Inl mr | None \<Rightarrow> (\<exists>ws j. x = Inr (ws, j) \<and> job_of srv shadow r j \<and> good_job j))"

lemma prepare_loop_safe:
  assumes "prep_jobs p = js @ replicate (length rs) None" and "prep_errors p = es @ replicate (length rs) []"
    and "prep_reasons p = qs @ replicate (length rs) []" and "prep_warnings p = wss @ replicate (length rs) []"
    and "length js = i" and "length es = i" and "length qs = i" and "length wss = i"
    and "\<forall>r \<in> set rs. request_ok r" and inv: "service_inv I b w"
  shows "guarded b (\<lambda>p' _. \<exists>outs. list_all2 (prep_spec shadow) rs outs
      \<and> p' = \<lparr>prep_jobs = js @ map out_job outs, prep_errors = es @ map out_error outs,
         prep_reasons = qs @ map out_reason outs, prep_warnings = wss @ map out_warnings outs\<rparr>)
    (prepare_loop_thread srv shadow rs i p) w"
  using assms
proof (induction rs arbitrary: i p js es qs wss w)
  case (Cons r rs)
  let ?Q = "\<lambda>js es qs wss rs p' _. \<exists>outs. list_all2 (prep_spec shadow) rs outs
      \<and> p' = \<lparr>prep_jobs = js @ map out_job outs, prep_errors = es @ map out_error outs,
         prep_reasons = qs @ map out_reason outs, prep_warnings = wss @ map out_warnings outs\<rparr>"
  have more: "?Q js es qs wss (r # rs) p' u"
    if x: "prep_spec shadow r x" and "?Q (js @ [out_job x]) (es @ [out_error x]) (qs @ [out_reason x]) (wss @ [out_warnings x]) rs p' u"
    for x p' and u :: "'a tasks_world_scheme"
  proof -
    from that(2) obtain outs where "list_all2 (prep_spec shadow) rs outs" "p' = \<lparr>prep_jobs = js @ map out_job (x # outs),
        prep_errors = es @ map out_error (x # outs), prep_reasons = qs @ map out_reason (x # outs),
        prep_warnings = wss @ map out_warnings (x # outs)\<rparr>" by auto
    with x show ?thesis by (intro exI [of _ "x # outs"]) simp
  qed
  show ?case
  proof (cases "bulk_validation srv r")
    case (Some mr)
    obtain m q where mr: "mr = (m, q)" by fastforce
    have x: "prep_spec shadow r (Inl (m, q))" using Some by (simp add: prep_spec_def mr)
    have "guarded b (?Q (js @ [out_job (Inl (m, q))]) (es @ [out_error (Inl (m, q))]) (qs @ [out_reason (Inl (m, q))])
        (wss @ [out_warnings (Inl (m, q))]) rs) (prepare_loop_thread srv shadow rs (Suc i)
          (p\<lparr>prep_errors := (prep_errors p)[i := m], prep_reasons := (prep_reasons p)[i := q]\<rparr>)) w"
      using Cons.prems by (intro Cons.IH) (simp_all add: update_at)
    from safe_weaken [OF this more [OF x]] show ?thesis by (simp add: Some mr)
  next
    case None
    then have "rejection srv r = None" by (simp add: bulk_validation_rejection)
    moreover have "request_ok r" using Cons.prems(9) by simp
    ultimately have prep: "guarded b (\<lambda>(ws, j) _. job_of srv shadow r j \<and> good_job j \<and> routed_since w srv r j)
        (prepare_job_thread srv shadow r) w" by (intro prepare_safe) simp_all
    have "guarded b (?Q js es qs wss (r # rs)) (bind_thread (prepare_job_thread srv shadow r) (\<lambda>(warnings, j).
        prepare_loop_thread srv shadow rs (Suc i)
          (p\<lparr>prep_warnings := (prep_warnings p)[i := warnings], prep_jobs := (prep_jobs p)[i := Some j]\<rparr>))) w"
    proof (rule steps.safe_bind [OF prep Cons.prems(10)])
      fix wj :: "string list \<times> job" and v :: "'a tasks_world_scheme"
      assume "(case wj of (ws, j) \<Rightarrow> \<lambda>_. job_of srv shadow r j \<and> good_job j \<and> routed_since w srv r j) v"
        and v: "service_inv I b v"
      then obtain ws j where wj: "wj = (ws, j)" and j: "job_of srv shadow r j" "good_job j" by auto
      have x: "prep_spec shadow r (Inr (ws, j))" using None j by (simp add: prep_spec_def)
      have "guarded b (?Q (js @ [out_job (Inr (ws, j))]) (es @ [out_error (Inr (ws, j))]) (qs @ [out_reason (Inr (ws, j))])
          (wss @ [out_warnings (Inr (ws, j))]) rs) (prepare_loop_thread srv shadow rs (Suc i)
            (p\<lparr>prep_warnings := (prep_warnings p)[i := ws], prep_jobs := (prep_jobs p)[i := Some j]\<rparr>)) v"
        using Cons.prems v by (intro Cons.IH) (simp_all add: update_at)
      from safe_weaken [OF this more [OF x]]
      show "guarded b (?Q js es qs wss (r # rs)) (case wj of (warnings, j) \<Rightarrow> prepare_loop_thread srv shadow rs (Suc i)
          (p\<lparr>prep_warnings := (prep_warnings p)[i := warnings], prep_jobs := (prep_jobs p)[i := Some j]\<rparr>)) v"
        by (simp add: wj)
    qed
    then show ?thesis by (simp add: None)
  qed
qed (cases p, simp)

lemma quietly_partition: "quietly (partition_loop srv i js p)"
  unfolding quietly_def using partition_quiet prod.collapse by metis

lemma prep_spec_good: "list_all2 (prep_spec shadow) rs outs \<Longrightarrow> (k, Some j) \<in> set (List.enumerate n (map out_job outs)) \<Longrightarrow> good_job j"
proof -
  assume spec: "list_all2 (prep_spec shadow) rs outs" and "(k, Some j) \<in> set (List.enumerate n (map out_job outs))"
  from in_set_enumerateE [OF this(2)] obtain i where "i < length outs" "out_job (outs ! i) = Some j"
    by (auto simp: in_set_conv_nth)
  moreover from this(1) have "prep_spec shadow (rs ! i) (outs ! i)" using spec by (simp add: list_all2_conv_all_nth)
  ultimately show "good_job j" by (auto simp: prep_spec_def split: option.splits)
qed

text \<open>Both halves of the work, then the slots.\<close>

lemma bulk_tail_safe:
  assumes outs: "list_all2 (prep_spec shadow) reqs outs" and u: "service_inv I b u"
    and idx: "set im \<union> set fu = {(k, j). (k, Some j) \<in> set (List.enumerate 0 (map out_job outs))}"
    and d: "distinct (map fst im @ map fst fu)" and fut: "\<forall>j \<in> set (map snd fu). deferred srv j u"
    and final: "\<And>ir fr z. list_all2 (\<lambda>j br. answers j br \<and> (result_Error br = None \<longrightarrow> placed j z)) (map snd im) ir \<Longrightarrow>
      list_all2 (\<lambda>j br. answers j br \<and> (result_Error br = None \<longrightarrow> placed j z)) (map snd fu) fr \<Longrightarrow>
      service_inv I b z \<Longrightarrow> guarded b Q (k ir fr) z"
  shows "guarded b Q (bind_thread (if map snd im \<noteq> [] then bt_EnqueueBulk bt (map snd im) else Finish []) (\<lambda>ir.
    bind_thread (if map snd fu = [] then Finish [] else case Some sts of Some sched \<Rightarrow> st_ScheduleBulk sched (map snd fu) | None \<Rightarrow> Finish [])
      (\<lambda>fr. k ir fr))) u"
proof (rule steps.safe_bind [OF _ u])
  have g: "good_job j" if "(k, j) \<in> set im \<union> set fu" for k j
    using that prep_spec_good [OF outs] unfolding idx by blast
  then have gi: "\<forall>j \<in> set (map snd im). good_job j" and gf: "\<forall>j \<in> set (map snd fu). good_job j" by (auto; blast)+
  show "guarded b (\<lambda>ir z. list_all2 (\<lambda>j br. answers j br \<and> (result_Error br = None \<longrightarrow> taken j z)) (map snd im) ir)
      (if map snd im \<noteq> [] then bt_EnqueueBulk bt (map snd im) else Finish []) u"
    using enqueue_bulk_safe [OF u gi] by simp
  fix ir v assume ir: "list_all2 (\<lambda>j br. answers j br \<and> (result_Error br = None \<longrightarrow> taken j v)) (map snd im) ir"
    and v: "service_inv I b v" "evolves u v"
  have sched: "guarded b (\<lambda>fr z. list_all2 (\<lambda>j br. answers j br \<and> (result_Error br = None \<longrightarrow> kept j z)) (map snd fu) fr)
      (if map snd fu = [] then Finish [] else case Some sts of Some sched \<Rightarrow> st_ScheduleBulk sched (map snd fu) | None \<Rightarrow> Finish []) v"
    using schedule_bulk_safe [OF v(1) gf] by simp
  show "guarded b Q (bind_thread (if map snd fu = [] then Finish [] else case Some sts of
      Some sched \<Rightarrow> st_ScheduleBulk sched (map snd fu) | None \<Rightarrow> Finish []) (\<lambda>fr. k ir fr)) v"
  proof (rule steps.safe_bind [OF sched v(1)])
    fix fr z assume fr: "list_all2 (\<lambda>j br. answers j br \<and> (result_Error br = None \<longrightarrow> kept j z)) (map snd fu) fr"
      and z: "service_inv I b z" "evolves v z"
    have "list_all2 (\<lambda>j br. answers j br \<and> (result_Error br = None \<longrightarrow> placed j z)) (map snd im) ir"
      by (rule list_all2_mono [OF ir]) (use taken_stable z(2) placedI(1) in blast)
    moreover have "list_all2 (\<lambda>j br. answers j br \<and> (result_Error br = None \<longrightarrow> placed j z)) (map snd fu) fr"
      using fr fut deferred_evolves [OF _ evolves_trans [OF v(2) z(2)]]
      by (auto simp: list_all2_conv_all_nth intro!: placedI(2))
    ultimately show "guarded b Q (k ir fr) z" using final z by blast
  qed
qed

lemma EnqueueBulk_safe:
  assumes r: "\<forall>r \<in> set (enqueue_bulk_request_Jobs req). request_ok r" and inv: "service_inv I b w"
  shows "guarded b (\<lambda>x u. \<forall>resp. x = Inr resp \<longrightarrow> bulk_accepted srv placed ctx req resp u) (EnqueueBulk_thread srv bt (Some sts) ctx req) w"
    (is "guarded b ?Q _ _")
proof (cases "enqueue_bulk_request_Jobs req = []")
  case True
  then show ?thesis unfolding EnqueueBulk_thread_def by (intro quiet_steps [OF quietly_now]) simp
next
  case False
  let ?reqs = "enqueue_bulk_request_Jobs req" and ?shadow = "shadowFromContext ctx"
  let ?p0 = "\<lparr>immediateJobs = [], immediateIndexes = [], futureJobs = [], futureIndexes = []\<rparr>"
  let ?finish = "\<lambda>start prep parts ir fr. step (bulk_metrics start (length ?reqs) ir fr) (\<lambda>_.
       Finish (Inr \<lparr>enqueue_bulk_response_Results = bulk_results ?reqs prep parts ir fr\<rparr>))"
  let ?prep = "\<lambda>outs. \<lparr>prep_jobs = map out_job outs, prep_errors = map out_error outs,
         prep_reasons = map out_reason outs, prep_warnings = map out_warnings outs\<rparr>"
  let ?parts = "\<lambda>im fu. \<lparr>immediateJobs = map snd im, immediateIndexes = map fst im, futureJobs = map snd fu, futureIndexes = map fst fu\<rparr>"
  have finish: "guarded b ?Q (?finish start (?prep outs) (?parts im fu) ir fr) z"
    if outs: "list_all2 (prep_spec ?shadow) ?reqs outs"
      and idx: "set im \<union> set fu = {(k, j). (k, Some j) \<in> set (List.enumerate 0 (map out_job outs))}"
      and d: "distinct (map fst im @ map fst fu)"
      and ir: "list_all2 (\<lambda>j br. answers j br \<and> (result_Error br = None \<longrightarrow> placed j z)) (map snd im) ir"
      and fr: "list_all2 (\<lambda>j br. answers j br \<and> (result_Error br = None \<longrightarrow> placed j z)) (map snd fu) fr"
    for start outs im fu ir fr z
  proof (rule quiet_steps [OF quietly_bulk_metrics])
    fix y and z' :: "'a tasks_world_scheme" assume z': "evolves z z'"
    let ?P = "\<lambda>j br. answers j br \<and> (result_Error br = None \<longrightarrow> placed j z')"
    have "list_all2 ?P (map snd im) ir" "list_all2 ?P (map snd fu) fr"
      using list_all2_mono [OF ir, of ?P] list_all2_mono [OF fr, of ?P] placed_stable [OF _ z'] by blast+
    moreover have "list_all2 (\<lambda>r x. case bulk_validation srv r of Some mr \<Rightarrow> x = Inl mr
        | None \<Rightarrow> (\<exists>ws j. x = Inr (ws, j) \<and> job_of srv ?shadow r j)) ?reqs outs"
      by (rule list_all2_mono [OF outs]) (auto simp: prep_spec_def split: option.splits)
    ultimately have "bulk_slot ?P srv ?shadow i (?reqs ! i) (bulk_results ?reqs (?prep outs) (?parts im fu) ir fr ! i)"
      if "i < length ?reqs" for i
      using filled_slot [OF d idx _ _ _ that] by (simp add: bulk_results_def Let_def)
    then have "bulk_accepted srv placed ctx req
        \<lparr>enqueue_bulk_response_Results = bulk_results ?reqs (?prep outs) (?parts im fu) ir fr\<rparr> z'"
      by (simp add: bulk_accepted_def bulk_results_def Let_def)
    then show "guarded b ?Q (Finish (Inr \<lparr>enqueue_bulk_response_Results = bulk_results ?reqs (?prep outs) (?parts im fu) ir fr\<rparr>)) z'"
      by simp
  qed
  have prep: "guarded b (\<lambda>p' _. \<exists>outs. list_all2 (prep_spec ?shadow) ?reqs outs \<and> p' = ?prep outs)
      (prepare_loop_thread srv ?shadow ?reqs 0 (fresh_prepared (length ?reqs))) v" if "service_inv I b v" for v
    using prepare_loop_safe [of "fresh_prepared (length ?reqs)" "[]" ?reqs "[]" "[]" "[]" 0 v ?shadow] r that
    by (simp add: fresh_prepared_def)
  show ?thesis unfolding EnqueueBulk_thread_def
  proof (rule quiet_step [OF quietly_now], simp only: False if_False, rule steps.safe_bind, erule prep)
    fix start and x v w1 v1 :: "'a tasks_world_scheme" and p' :: prepared
    assume "\<exists>outs. list_all2 (prep_spec ?shadow) ?reqs outs \<and> p' = ?prep outs" and "service_inv I b v1"
    then obtain outs where outs: "list_all2 (prep_spec ?shadow) ?reqs outs" and p': "p' = ?prep outs" by blast
    show "guarded b ?Q (step (partition_loop srv 0 (prep_jobs p') ?p0) (\<lambda>parts.
       bind_thread (if immediateJobs parts \<noteq> [] then bt_EnqueueBulk bt (immediateJobs parts) else Finish []) (\<lambda>ir.
       bind_thread (if futureJobs parts = [] then Finish []
         else case Some sts of Some sched \<Rightarrow> st_ScheduleBulk sched (futureJobs parts) | None \<Rightarrow> Finish []) (\<lambda>fr.
       ?finish start p' parts ir fr)))) v1"
    proof (rule quiet_step [OF quietly_partition])
      fix parts and u u' :: "'a tasks_world_scheme"
      assume run: "run_state (partition_loop srv 0 (prep_jobs p') ?p0) u = (parts, u')" and u': "service_inv I b u'"
        and e: "evolves u u'"
      from run_partition_loop [OF run] obtain im fu where parts: "parts = ?parts im fu"
        and d: "distinct (map fst im @ map fst fu)"
        and idx: "set im \<union> set fu = {(k, j). (k, Some j) \<in> set (List.enumerate 0 (map out_job outs))}"
        by (auto simp: p')
      have fut: "\<forall>j \<in> set (map snd fu). deferred srv j u'"
        using partition_deferred [OF run] deferred_evolves [OF _ e] by (auto simp: parts)
      show "guarded b ?Q (bind_thread (if immediateJobs parts \<noteq> [] then bt_EnqueueBulk bt (immediateJobs parts) else Finish []) (\<lambda>ir.
       bind_thread (if futureJobs parts = [] then Finish []
         else case Some sts of Some sched \<Rightarrow> st_ScheduleBulk sched (futureJobs parts) | None \<Rightarrow> Finish []) (\<lambda>fr.
       ?finish start p' parts ir fr))) u'"
        unfolding parts p' bulk_parts.simps
        by (rule bulk_tail_safe [OF outs u' idx d fut]) (rule finish [OF outs idx d])
    qed
  qed
qed

lemma callback_safe:
  assumes inv: "service_inv I b w" and t: "t \<in> set (tasks w)"
  shows "guarded b (\<lambda>x u. \<forall>body. x = \<lparr>http_status = 200, http_body = body\<rparr> \<longrightarrow>
      (\<exists>j now. UnmarshalJob (task_Body t) = Inr j \<and> taken (j\<lparr>job_RunAt := now\<rparr>) u)) (callback_thread bt (Inr (task_Body t))) w"
    (is "guarded b ?Q _ _")
proof (cases "UnmarshalJob (task_Body t)")
  case (Inl e)
  then show ?thesis unfolding callback_thread_def
    by (intro quiet_steps [OF quietly_now]) (auto simp: http_error_def intro!: quiet_steps [OF quietly_emit])
next
  case (Inr j)
  obtain j0 s where "good_job j0" "task_of s j0 t" using inv t by (auto simp: service_inv_def)
  from task_job [OF this Inr] have good: "good_job (j\<lparr>job_RunAt := now\<rparr>)" for now by simp
  have fin: "guarded b ?Q (step (time_since s) (\<lambda>d. step (emit (f d)) (\<lambda>_. Finish \<lparr>http_status = 200, http_body = ''''\<rparr>))) v"
    if "taken (j\<lparr>job_RunAt := now\<rparr>) u" "evolves u v" for s f now u v
    using that taken_stable Inr by (intro quiet_steps quietlyI) (simp, blast)
  have answer: "guarded b ?Q (case err of
        Some e \<Rightarrow> step (emit m1) (\<lambda>_. Finish (http_error ''failed to enqueue job'' 500))
      | None \<Rightarrow> step (emit m2) (\<lambda>_. step (time_since s) (\<lambda>d. step (emit (f d)) (\<lambda>_. Finish \<lparr>http_status = 200, http_body = ''''\<rparr>)))) u"
    if "err = None \<longrightarrow> taken (j\<lparr>job_RunAt := now\<rparr>) u" for err :: "go_error option" and m1 m2 s f now u
  proof (cases err)
    case None
    then show ?thesis using that by (simp only: option.case) (rule quiet_steps [OF quietly_emit], rule fin, simp)
  next
    case (Some e)
    then show ?thesis by (simp only: option.case) (rule quiet_steps [OF quietly_emit], simp add: http_error_def)
  qed
  show ?thesis unfolding callback_thread_def sum.case Inr
    by (rule quiet_step [OF quietly_now], rule quiet_step [OF quietly_now])
      (rule steps.safe_bind, erule enqueue_safe, rule good, assumption, erule answer [unfolded Inr])
qed

lemma safe_map_result:
  assumes "guarded b P t w" and "service_inv I b w" and "\<And>x u. P x u \<Longrightarrow> Q (f x) u"
  shows "guarded b Q (map_thread_result f t) w"
  unfolding map_thread_result_def by (rule steps.safe_bind [OF assms(1,2)]) (use assms(3) in simp)

abbreviation "st \<equiv> \<lparr>thr_service = wire ext cfg S B sched, thr_backend = bt, thr_scheduler = Some sts\<rparr>"

lemma serve_safe:
  assumes inv: "service_inv I b w" and ok: "rpc_ok req"
  shows "guarded b (\<lambda>x. answered srv taken kept (Rpc req, w) (RpcAnswer x)) (serve_thread st req) w"
proof (cases req)
  case (RpcEnqueue ctx r)
  then have "request_ok r" using ok by simp
  then show ?thesis unfolding RpcEnqueue serve_thread.simps service_threads.simps
    by (rule safe_map_result [OF Enqueue_safe [OF _ inv] inv]) (simp add: answered_def)
next
  case (RpcEnqueueBulk ctx r)
  then have "\<forall>r \<in> set (enqueue_bulk_request_Jobs r). request_ok r" using ok by (simp add: list_all_iff)
  then show ?thesis unfolding RpcEnqueueBulk serve_thread.simps service_threads.simps
    by (rule safe_map_result [OF EnqueueBulk_safe [OF _ inv] inv]) (simp add: answered_def)
next
  case (RpcCreateProducer r)
  show ?thesis unfolding RpcCreateProducer serve_thread.simps service_threads.simps wire_simps
    by (rule safe_map_result [OF CreateProducer_safe inv]) (simp add: answered_def)
next
  case (RpcCreateJobType r)
  show ?thesis unfolding RpcCreateJobType serve_thread.simps
  proof (rule one_step_safe)
    fix v w' x assume v: "service_inv I b v"
      and "run_state (reply CreateJobTypeReply (AdminServer_CreateJobType (svc_admin (thr_service st)) r)) v = (x, w')"
    then obtain y where y: "run_state (AdminServer_CreateJobType (NewAdminServer S) r) v = (y, w')" "x = CreateJobTypeReply y"
      by (auto simp: run_reply split: prod.splits)
    from create_job_type_evolves [OF v y(1)] create_job_type_keeps [OF v y(1)]
    show "evolves v w' \<and> service_inv I b w' \<and> answered srv taken kept (Rpc (RpcCreateJobType r), w) (RpcAnswer x) w'"
      by (simp add: answered_def y(2))
  qed
next
  case (RpcGetProducer r)
  have "quietly (reply GetProducerReply (AdminServer_GetProducer (NewAdminServer S) r))"
    unfolding reply_def by (intro quietlyI reads_quiet)
  from quiet_step [OF this] show ?thesis unfolding RpcGetProducer serve_thread.simps service_threads.simps wire_simps
    by this (auto simp: answered_def run_reply split: prod.splits)
next
  case RpcListProducers
  have "quietly (reply ListProducersReply (AdminServer_ListProducers (NewAdminServer S)))"
    unfolding reply_def by (intro quietlyI reads_quiet)
  from quiet_step [OF this] show ?thesis unfolding RpcListProducers serve_thread.simps service_threads.simps wire_simps
    by this (auto simp: answered_def run_reply split: prod.splits)
next
  case (RpcListJobTypes r)
  have "quietly (reply ListJobTypesReply (AdminServer_ListJobTypes (NewAdminServer S) r))"
    unfolding reply_def by (intro quietlyI reads_quiet)
  from quiet_step [OF this] show ?thesis unfolding RpcListJobTypes serve_thread.simps service_threads.simps wire_simps
    by this (auto simp: answered_def run_reply split: prod.splits)
qed

lemma call_safe:
  assumes inv: "service_inv I b w" and "case c of Rpc req \<Rightarrow> rpc_ok req | Delivery t \<Rightarrow> t \<in> set (tasks w)"
  shows "guarded b (answered srv taken kept (c, w)) (call_thread st c) w"
proof (cases c)
  case (Rpc req)
  then show ?thesis using assms(2) unfolding call_thread_def Rpc call.case
    by (intro safe_map_result [OF serve_safe [OF inv] inv]) simp_all
next
  case (Delivery t)
  then have t: "t \<in> set (tasks w)" using assms(2) by simp
  show ?thesis unfolding call_thread_def Delivery call.case service_threads.simps
    by (rule safe_map_result [OF callback_safe [OF inv t] inv]) (simp add: answered_def)
qed

lemma stable_answered: "stable evolves (answered srv taken kept cw)"
  unfolding stable_def using answered_evolves taken_stable kept_stable by blast

abbreviation "pool_ok \<equiv> steps.pool_safe b (answered srv taken kept)"

lemma enter_ok:
  assumes ok: "pool_ok p" and "case c of Rpc req \<Rightarrow> rpc_ok req | Delivery t \<Rightarrow> t \<in> set (tasks (pool_world p))"
  shows "pool_ok (enter st c p)"
proof -
  have "service_inv I b (pool_world p)" using ok by (simp add: steps.pool_safe_def)
  from call_safe [OF this assms(2)] ok show ?thesis by (auto simp: steps.pool_safe_def enter_def)
qed

lemma pool_step_ok:
  assumes "pool_step st p p'" and ok: "pool_ok p"
  shows "pool_ok p' \<and> evolves (pool_world p) (pool_world p')"
  using assms(1)
proof (rule pool_stepE)
  assume "advance p p'"
  from steps.advance_safe [OF this ok stable_answered] show ?thesis .
next
  fix req assume "p' = enter st (Rpc req) p" "rpc_ok req"
  then show ?thesis using enter_ok [OF ok, of "Rpc req"] by (simp add: enter_def)
next
  fix t assume "p' = enter st (Delivery t) p" "t \<in> set (tasks (pool_world p))"
  then show ?thesis using enter_ok [OF ok, of "Delivery t"] by (simp add: enter_def)
qed

lemma pool_reaches:
  assumes "(pool_step st)\<^sup>*\<^sup>* (idle w) p" and "service_inv I b w"
  shows "pool_ok p"
  using assms(1)
proof (induction rule: rtranclp_induct)
  case base
  show ?case using assms(2) by (simp add: steps.pool_safe_def idle_def)
qed (use pool_step_ok in blast)

lemma finished_answer:
  assumes "pool_ok p" and "((c, w0), Finish x) \<in> set (pool_threads p)"
  shows "answered srv taken kept (c, w0) x (pool_world p)"
  using assms by (auto simp: steps.pool_safe_def)

end


section \<open>Claims of names\<close>

definition registered :: "'a store_world_scheme \<Rightarrow> (string + string) set" where
  "registered w = Inl ` dom (map_of (producers w)) \<union> Inr ` dom (map_of (jobTypes w))"

definition claim_of :: "answer \<Rightarrow> (string + string) option" where
  "claim_of x = (case x of
     RpcAnswer (CreateProducerReply (Inr resp)) \<Rightarrow> Some (Inl (producer_ProducerId (create_producer_response_Producer resp)))
   | RpcAnswer (CreateJobTypeReply (Inr resp)) \<Rightarrow> Some (Inr (job_type_key (create_job_type_response_JobType resp)))
   | _ \<Rightarrow> None)"

lemma claim_of_simps [simp]:
  "claim_of (RpcAnswer (EnqueueReply x1)) = None" "claim_of (RpcAnswer (EnqueueBulkReply x2)) = None"
  "claim_of (RpcAnswer (GetProducerReply x3)) = None" "claim_of (RpcAnswer (ListProducersReply x4)) = None"
  "claim_of (RpcAnswer (ListJobTypesReply x5)) = None" "claim_of (HttpAnswer x6) = None"
  "claim_of (RpcAnswer (CreateProducerReply (Inl e))) = None" "claim_of (RpcAnswer (CreateJobTypeReply (Inl e))) = None"
  "claim_of (RpcAnswer (CreateProducerReply (Inr p))) = Some (Inl (producer_ProducerId (create_producer_response_Producer p)))"
  "claim_of (RpcAnswer (CreateJobTypeReply (Inr j))) = Some (Inr (job_type_key (create_job_type_response_JobType j)))"
  by (simp_all add: claim_of_def)

lemma registered_mono: "evolves w w' \<Longrightarrow> registered w \<subseteq> registered w'"
  unfolding registered_def by (intro Un_mono image_mono map_le_implies_dom_le) (simp_all add: evolves_def)

lemma done_claim_map: "done_claim cl (map_thread_result f t) = done_claim (\<lambda>x. cl (f x)) t"
  by (cases t) (simp_all add: map_thread_result_def)

lemma claims_map: "claims J own (\<lambda>x. cl (f x)) t \<Longrightarrow> claims J own cl (map_thread_result f t)"
proof (induction t)
  case (Act g h)
  then show ?case
    by (simp add: map_thread_result_def done_claim_map [unfolded map_thread_result_def])
qed (simp add: map_thread_result_def)

context concurrent_deployment begin

lemma CreateProducer_claims:
  "claims (service_inv I b) registered (\<lambda>x. claim_of (RpcAnswer (CreateProducerReply x))) (CreateProducer_thread (NewAdminServer S) req)"
proof (cases "create_producer_request_Name req = []")
  case False
  let ?cl = "\<lambda>x. claim_of (RpcAnswer (CreateProducerReply x))"
  let ?k = "\<lambda>(p', e). Finish (case e of
      Some e \<Rightarrow> Inl (if errors_is e ErrAlreadyExists then RpcStatus AlreadyExists (error_text e)
        else RpcStatus Internal ''failed to create producer'')
    | None \<Rightarrow> Inr \<lparr>create_producer_response_Producer = p'\<rparr>)"
  have create: "claims (service_inv I b) registered ?cl (step (store_CreateProducer S (new_producer req i)) ?k)"
    if i: "producer_id_ok i" for i
  proof (rule claims_step)
    fix w x w' assume inv: "service_inv I b w" and run: "run_state (store_CreateProducer S (new_producer req i)) w = (x, w')"
    obtain p' e where x: "x = (p', e)" by fastforce
    from store_create_producer_keeps(3) [OF inv i False run [unfolded x]]
    show "claims (service_inv I b) registered ?cl (?k x) \<and>
      (\<forall>n. done_claim ?cl (?k x) = Some n \<longrightarrow> n \<notin> registered w \<and> n \<in> registered w')"
      by (cases e) (auto simp: x registered_def new_producer_def)
  qed
  have "claims (service_inv I b) registered ?cl (step generateProducerID (\<lambda>i. step (store_CreateProducer S (new_producer req i)) ?k))"
    by (rule claims_step) (use create next_producer_id_ok in \<open>auto simp: run_generateProducerID\<close>)
  then show ?thesis using False by (simp add: CreateProducer_thread_def NewAdminServer_def new_producer_def)
qed (simp add: CreateProducer_thread_def)

lemma CreateJobType_claims:
  "claims (service_inv I b) registered (\<lambda>x. claim_of (RpcAnswer x))
    (step (reply CreateJobTypeReply (AdminServer_CreateJobType (NewAdminServer S) r)) Finish)"
proof (rule claims_step)
  fix w x w' assume inv: "service_inv I b w"
    and "run_state (reply CreateJobTypeReply (AdminServer_CreateJobType (NewAdminServer S) r)) w = (x, w')"
  then obtain y where y: "run_state (AdminServer_CreateJobType (NewAdminServer S) r) w = (y, w')" "x = CreateJobTypeReply y"
    by (auto simp: run_reply split: prod.splits)
  from create_job_type_evolves [OF inv y(1)]
  show "claims (service_inv I b) registered (\<lambda>x. claim_of (RpcAnswer x)) (Finish x) \<and>
    (\<forall>n. done_claim (\<lambda>x. claim_of (RpcAnswer x)) (Finish x) = Some n \<longrightarrow> n \<notin> registered w \<and> n \<in> registered w')"
    by (cases y) (auto simp: registered_def y(2))
qed

lemma mapped_nothing:
  assumes "\<And>x. cl (f x) = None"
  shows "claims J own cl (map_thread_result f t)" and "done_claim cl (map_thread_result f t) = None"
  using assms by (auto intro!: claims_map simp: done_claim_map claims_nothing)

lemma call_claims: "claims (service_inv I b) registered claim_of (call_thread st c)" "done_claim claim_of (call_thread st c) = None"
proof -
  have read: "claims (service_inv I b) registered (\<lambda>x. claim_of (RpcAnswer x)) (step (reply f m) Finish)"
    if "\<And>x. claim_of (RpcAnswer (f x)) = None" for f :: "'b \<Rightarrow> rpc_response" and m
    using that by (intro claims_step) (auto simp: run_reply split: prod.splits)
  have "claims (service_inv I b) registered claim_of (call_thread st c) \<and> done_claim claim_of (call_thread st c) = None"
  proof (cases c)
    case (Delivery t)
    show ?thesis unfolding Delivery call_thread_def call.case
      by (simp add: mapped_nothing)
  next
    case (Rpc req)
    have "claims (service_inv I b) registered (\<lambda>x. claim_of (RpcAnswer x)) (serve_thread st req)
        \<and> done_claim (\<lambda>x. claim_of (RpcAnswer x)) (serve_thread st req) = None"
    proof (cases req)
      case (RpcCreateProducer r)
      have "done_claim (\<lambda>x. claim_of (RpcAnswer (CreateProducerReply x))) (CreateProducer_thread (NewAdminServer S) r) = None"
        by (simp add: CreateProducer_thread_def)
      then show ?thesis unfolding RpcCreateProducer serve_thread.simps service_threads.simps wire_simps
        using CreateProducer_claims by (intro conjI claims_map) (simp_all add: done_claim_map)
    next
      case (RpcCreateJobType r)
      then show ?thesis using CreateJobType_claims by simp
    next
      case (RpcEnqueue ctx r)
      show ?thesis unfolding RpcEnqueue serve_thread.simps by (simp add: mapped_nothing)
    next
      case (RpcEnqueueBulk ctx r)
      show ?thesis unfolding RpcEnqueueBulk serve_thread.simps by (simp add: mapped_nothing)
    qed (simp_all add: read)
    then show ?thesis unfolding Rpc call_thread_def call.case by (intro conjI claims_map) (simp_all add: done_claim_map)
  qed
  then show "claims (service_inv I b) registered claim_of (call_thread st c)" "done_claim claim_of (call_thread st c) = None" by blast+
qed

abbreviation "pool_claims \<equiv> claims_ok (service_inv I b) registered (\<lambda>_. claim_of)"

lemma pool_reaches_claims:
  assumes "(pool_step st)\<^sup>*\<^sup>* (idle w) p" and "service_inv I b w"
  shows "pool_claims p"
  using assms(1)
proof (induction rule: rtranclp_induct)
  case base
  show ?case by (simp add: claims_ok_def idle_def)
next
  case (step p p')
  have ok: "pool_ok p" by (rule pool_reaches [OF step(1) assms(2)])
  from step(2) show ?case
  proof (rule pool_stepE)
    assume a: "advance p p'"
    have "evolves (pool_world p) (pool_world p')" using pool_step_ok [OF step(2) ok] by blast
    then have "registered (pool_world p) \<subseteq> registered (pool_world p')" by (rule registered_mono)
    from advance_claims [OF a _ step(3) this] show ?thesis using ok by (simp add: steps.pool_safe_def)
  next
    fix req assume "p' = enter st (Rpc req) p"
    then show ?thesis using arrival_claims [OF step(3)] call_claims by (simp add: enter_def)
  next
    fix t assume "p' = enter st (Delivery t) p"
    then show ?thesis using arrival_claims [OF step(3)] call_claims by (simp add: enter_def)
  qed
qed

end

end
