(* ===== verification/Interleavings.thy ===== *)
theory Interleavings
  imports Concurrency Startup
begin

text \<open>
  The threads of the service \<open>main\<close> starts, and what holds of them however they interleave:
  every answer stands for what it promises, names are registered once, the invariant of the
  service holds. The sequential model is one of the schedules.
\<close>


section \<open>The threads \<open>main\<close> starts\<close>

text \<open>The threads of the backend and the scheduler that \<open>init_backend\<close> and \<open>init_scheduler\<close> choose.\<close>

definition main_threads :: "externals \<Rightarrow> config \<Rightarrow> 'a tasks_world_scheme service \<Rightarrow> 'a tasks_world_scheme service_threads" where
  "main_threads ext cfg svc = \<lparr>
     thr_service = svc,
     thr_backend =
       (if QueueBackend cfg = ''pubsub'' then
          (case main_pubsub ext cfg of
             Inr b \<Rightarrow> pubsub_threads b
           | Inl _ \<Rightarrow> noop_backend_threads (NewNoopBackend DefaultConfig))
        else noop_backend_threads (NewNoopBackend DefaultConfig)),
     thr_scheduler = Some
       (if CloudTasksProject cfg \<noteq> '''' then
          (case main_cloud_tasks ext cfg of
             Inr s \<Rightarrow> cloud_tasks_threads s
           | Inl _ \<Rightarrow> noop_scheduler_threads)
        else noop_scheduler_threads)\<rparr>"

text \<open>What a success means in a configuration: what the backend took, what the scheduler keeps.\<close>

definition main_taken :: "externals \<Rightarrow> config \<Rightarrow> job \<Rightarrow> 'a tasks_world_scheme \<Rightarrow> bool" where
  "main_taken ext cfg j w \<longleftrightarrow>
     (QueueBackend cfg = ''pubsub'' \<longrightarrow> (\<forall>b. main_pubsub ext cfg = Inr b \<longrightarrow> message_confirmed b j w))"

definition main_kept :: "externals \<Rightarrow> config \<Rightarrow> job \<Rightarrow> 'a tasks_world_scheme \<Rightarrow> bool" where
  "main_kept ext cfg j w \<longleftrightarrow>
     (CloudTasksProject cfg \<noteq> '''' \<longrightarrow> (\<forall>s. main_cloud_tasks ext cfg = Inr s \<longrightarrow> task_created s j w))"

lemma legacy_pubsub_eq: "adapter b = LegacyAdapter_Marshal \<Longrightarrow> b = legacy_pubsub (topics b)"
  for b :: "'a tasks_world_scheme pubsub_backend"
  by (cases b) (simp add: legacy_pubsub_def)

lemma main_pubsub_adapter: "main_pubsub ext cfg = Inr b \<Longrightarrow> adapter b = LegacyAdapter_Marshal"
  unfolding main_pubsub_def by (erule NewPubSubBackend_adapter) simp

context deployed_store begin

lemma main_backend_contract:
  assumes "init_backend ext cfg = Inr B"
  obtains b where "backend_of b B"
    and "backend_threads_contract (service_inv I b) (thr_backend (main_threads ext cfg svc)) (main_taken ext cfg)"
proof (cases "QueueBackend cfg = ''pubsub''")
  case False
  then have t: "main_taken ext cfg = (\<lambda>_ _. True)"
    and bt: "thr_backend (main_threads ext cfg svc) = noop_backend_threads (NewNoopBackend DefaultConfig)"
    by (auto simp: main_taken_def main_threads_def fun_eq_iff)
  have "backend_of b B" for b using assms False by (auto simp: init_backend_def backend_of_def split: if_splits)
  then show ?thesis by (rule that) (unfold t bt, rule noop_threads.backend_threads_contract_axioms)
next
  case True
  with assms obtain b where b: "main_pubsub ext cfg = Inr b" "B = pubsub_queue (ext_pubsub_close ext) b"
    by (auto simp: init_backend_def split: sum.splits)
  note a = main_pubsub_adapter [OF b(1)]
  have "main_taken ext cfg = message_confirmed b" "thr_backend (main_threads ext cfg svc) = pubsub_threads b"
    using True b(1) by (auto simp: main_taken_def main_threads_def fun_eq_iff)
  moreover have "backend_of b B" using a b(2) by (auto simp: backend_of_def)
  moreover have "backend_threads_contract (service_inv I b) (pubsub_threads b) (message_confirmed b)"
    by (subst (1 2 3) legacy_pubsub_eq [OF a]) (rule publishing.backend_threads_contract_axioms)
  ultimately show ?thesis by (intro that) simp_all
qed

lemma main_scheduler_contract:
  assumes "init_scheduler ext cfg = Inr sched"
  obtains sts where "thr_scheduler (main_threads ext cfg svc) = Some sts"
    and "\<And>b. scheduler_threads_contract (service_inv I b) sts (main_kept ext cfg)"
proof (cases "CloudTasksProject cfg = ''''")
  case True
  then have t: "main_kept ext cfg = (\<lambda>_ _. True)" and st: "thr_scheduler (main_threads ext cfg svc) = Some noop_scheduler_threads"
    by (auto simp: main_kept_def main_threads_def fun_eq_iff)
  show ?thesis by (rule that [OF st]) (unfold t, rule noop_scheduling.scheduler_threads_contract_axioms)
next
  case False
  with assms obtain s where s: "main_cloud_tasks ext cfg = Inr s" by (auto simp: init_scheduler_def split: sum.splits)
  then have t: "main_kept ext cfg = task_created s"
    and st: "thr_scheduler (main_threads ext cfg svc) = Some (cloud_tasks_threads s)"
    using False by (auto simp: main_kept_def main_threads_def fun_eq_iff)
  show ?thesis by (rule that [OF st]) (unfold t, rule scheduling.scheduler_threads_contract_axioms)
qed

end

text \<open>Any invariant that the store keeps is an invariant of the interleaved service.\<close>

lemma main_concurrent:
  fixes w :: "'a tasks_world_scheme"
  assumes init: "run_state (main_init ext cfg) w = (Inr svc, w1)" and dep: "deployed_store (svc_store svc) I"
  obtains b B sched bt sts
  where "concurrent_deployment (svc_store svc) I b B sched bt sts (main_taken ext cfg) (main_kept ext cfg)"
    and "main_threads ext cfg svc = \<lparr>thr_service = wire ext cfg (svc_store svc) B sched, thr_backend = bt, thr_scheduler = Some sts\<rparr>"
proof -
  obtain r v where st: "run_state (init_store ext cfg) w = (r, v)" by fastforce
  from init st obtain S B sched where s: "init_backend ext cfg = Inr B" "init_scheduler ext cfg = Inr sched"
    "svc = wire ext cfg S B sched"
    by (auto simp: main_init_def split: sum.splits)
  from deployed_store.main_backend_contract [OF dep s(1)] obtain b where
    b: "backend_of b B" "backend_threads_contract (service_inv I b) (thr_backend (main_threads ext cfg svc)) (main_taken ext cfg)" by blast
  from deployed_store.main_scheduler_contract [OF dep s(2)] obtain sts where
    sts: "thr_scheduler (main_threads ext cfg svc) = Some sts" "\<And>b. scheduler_threads_contract (service_inv I b) sts (main_kept ext cfg)"
    by blast
  have "concurrent_deployment (svc_store svc) I b B sched (thr_backend (main_threads ext cfg svc)) sts (main_taken ext cfg) (main_kept ext cfg)"
    by (intro concurrent_deployment.intro deployment_intro dep b sts(2) init_scheduler_of [OF s(2)])
  then show ?thesis using that sts(1) by (simp add: main_threads_def s(3) wire_def)
qed

text \<open>The invariant that goes with each of the two stores.\<close>

lemma main_deployed:
  fixes w :: "'a tasks_world_scheme"
  assumes init: "run_state (main_init ext cfg) w = (Inr svc, w1)"
  obtains I where "deployed_store (svc_store svc) I" and "I = store_inv \<or> I = gcs_inv (ext_lib ext)"
proof -
  obtain r v where st: "run_state (init_store ext cfg) w = (r, v)" by fastforce
  from init st obtain B sched where "r = Inr (svc_store svc)"
    by (auto simp: main_init_def wire_def split: sum.splits)
  with init_store_of [of ext cfg w "svc_store svc" v] st
  consider "svc_store svc = memory_store (gcs_pb (ext_lib ext))" | "svc_store svc = gcs_store (ext_lib ext) (main_gcs cfg)" by auto
  then show ?thesis
  proof cases
    case 1
    show ?thesis by (rule that [of store_inv]) (unfold 1, rule mem_deployed.deployed_store_axioms, simp)
  next
    case 2
    show ?thesis by (rule that [of "gcs_inv (ext_lib ext)"]) (unfold 2, rule gcs_deployed.deployed_store_axioms, simp)
  qed
qed

lemma main_threaded:
  fixes w :: "'a tasks_world_scheme"
  assumes init: "run_state (main_init ext cfg) w = (Inr svc, w1)"
  shows "threaded_service (main_threads ext cfg svc)"
proof -
  obtain r v where st: "run_state (init_store ext cfg) w = (r, v)" by fastforce
  from init st obtain S B sched where s: "init_backend ext cfg = Inr B" "init_scheduler ext cfg = Inr sched"
    "svc = wire ext cfg S B sched"
    by (auto simp: main_init_def split: sum.splits)
  have backend: "implements (bt_Enqueue (thr_backend (main_threads ext cfg svc)) j) (backend_Enqueue B j)"
    "implements (bt_EnqueueBulk (thr_backend (main_threads ext cfg svc)) js) (backend_EnqueueBulk B js)" for j js
    using s(1) by (auto simp: init_backend_def main_threads_def pubsub_threads_def pubsub_queue_def noop_queue_def
        implements_PubSub_Enqueue implements_PubSub_EnqueueBulk implements_noop_backend split: sum.splits if_splits)
  obtain sts where sts: "thr_scheduler (main_threads ext cfg svc) = Some sts" by (simp add: main_threads_def)
  have "implements (st_Schedule sts j) (scheduler_Schedule sched j)"
    "implements (st_ScheduleBulk sts js) (scheduler_ScheduleBulk sched js)" for j js
    using s(2) sts by (auto simp: init_scheduler_def main_threads_def cloud_tasks_threads_def cloud_tasks_def NewNoopScheduler_def
        implements_Schedule implements_ScheduleBulk implements_noop_scheduler split: sum.splits if_splits)
  moreover have "thr_service (main_threads ext cfg svc) = wire ext cfg S B sched" by (simp add: main_threads_def s(3))
  ultimately show ?thesis using backend sts by unfold_locales simp_all
qed


text \<open>The deployment the configuration documents, as threads.\<close>

interpretation production_threads: threaded_service "\<lparr>thr_service = wire ext cfg S (pubsub_queue pe b) (cloud_tasks ce s),
    thr_backend = pubsub_threads b, thr_scheduler = Some (cloud_tasks_threads s)\<rparr>"
  for ext cfg S pe b ce s
  by unfold_locales
    (simp_all add: pubsub_threads_def pubsub_queue_def implements_PubSub_Enqueue implements_PubSub_EnqueueBulk
      cloud_tasks_threads_def cloud_tasks_def implements_Schedule implements_ScheduleBulk)

interpretation production_concurrent: concurrent_deployment "gcs_store lib gc" "gcs_inv lib" ext cfg "legacy_pubsub ts"
    "pubsub_queue pe (legacy_pubsub ts)" "cloud_tasks ce s" "pubsub_threads (legacy_pubsub ts)" "cloud_tasks_threads s"
    "message_confirmed (legacy_pubsub ts)" "task_created s"
  for lib gc ext cfg ts pe ce s
  by (intro concurrent_deployment.intro production.deployment_axioms gcs_deployed.publishing.backend_threads_contract_axioms
      gcs_deployed.scheduling.scheduler_threads_contract_axioms)


section \<open>A thread that runs to its end\<close>

lemma advances_reach: "advance\<^sup>*\<^sup>* p p' \<Longrightarrow> (pool_step st)\<^sup>*\<^sup>* p p'"
  by (rule rtranclp_mono [THEN predicate2D]) (auto intro: advances)

lemma call_alone:
  assumes "pool_step st p (enter st c p)" and "run_thread (call_thread st c) (pool_world p) = (x, w')"
  shows "(pool_step st)\<^sup>*\<^sup>* p (p\<lparr>pool_world := w', pool_threads := pool_threads p @ [((c, pool_world p), Finish x)]\<rparr>)"
proof -
  let ?q = "enter st c p" and ?n = "length (pool_threads p)"
  have "advance\<^sup>*\<^sup>* ?q (?q\<lparr>pool_world := w', pool_threads := (pool_threads ?q)[?n := ((c, pool_world p), Finish x)]\<rparr>)"
    using assms(2) by (intro advance_alone) (simp_all add: enter_def)
  from advances_reach [OF this] assms(1) show ?thesis
    by (simp add: enter_def converse_rtranclp_into_rtranclp)
qed

context threaded_service begin

lemma run_rpc_alone: "run_thread (call_thread st (Rpc req)) w = (case run_state (serve (thr_service st) req) w of (x, w') \<Rightarrow> (RpcAnswer x, w'))"
  using implements_serve [of req] by (simp add: call_thread_def map_thread_result_def run_bind_thread implements_def split: prod.split)

lemma run_delivery_alone: "run_thread (call_thread st (Delivery t)) w =
    (case run_state (handleEnqueueCallback (svc_callback (thr_service st)) (Inr (task_Body t))) w of (x, w') \<Rightarrow> (HttpAnswer x, w'))"
  using implements_callback [of "Inr (task_Body t)"]
  by (simp add: call_thread_def map_thread_result_def run_bind_thread implements_def split: prod.split)

end


section \<open>Agreement with the sequential model\<close>

text \<open>
  A handler that no other handler comes between computes what the sequential model
  computes: the steps of the threads are the steps of the handlers and nothing else.
\<close>

lemma handler_alone_is_sequential:
  fixes w1 :: "'a tasks_world_scheme"
  assumes "run_state (main_init ext cfg) w0 = (Inr svc, w1)"
  shows "run_thread (serve_thread (main_threads ext cfg svc) req) w = run_state (serve svc req) w
    \<and> run_thread (callback_thread (thr_backend (main_threads ext cfg svc)) body) w
        = run_state (handleEnqueueCallback (svc_callback svc) body) w"
proof -
  have "thr_service (main_threads ext cfg svc) = svc" by (simp add: main_threads_def)
  then show ?thesis
    using threaded_service.implements_serve [OF main_threaded [OF assms], of req]
      threaded_service.implements_callback [OF main_threaded [OF assms], of body] by (simp add: implements_def)
qed

text \<open>
  Every world the sequential model reaches is reached by a pool whose calls came one
  after the other: the sequential histories are among the interleavings.
\<close>

lemma sequential_histories_are_interleavings:
  fixes w1 :: "'a tasks_world_scheme"
  assumes "run_state (main_init ext cfg) w0 = (Inr svc, w1)" and "reachable svc w1 w"
  shows "\<exists>p. (pool_step (main_threads ext cfg svc))\<^sup>*\<^sup>* (idle w1) p \<and> pool_world p = w \<and> all_done p"
  using assms(2)
proof (induction rule: rtranclp_induct)
  case base
  show ?case by (intro exI [of _ "idle w1"]) (simp add: idle_def all_done_def)
next
  case (step u v)
  let ?st = "main_threads ext cfg svc"
  have svc: "thr_service ?st = svc" by (simp add: main_threads_def)
  from step.IH obtain p where p: "(pool_step ?st)\<^sup>*\<^sup>* (idle w1) p" "pool_world p = u" "all_done p" by blast
  have "\<exists>c x. pool_step ?st p (enter ?st c p) \<and> run_thread (call_thread ?st c) u = (x, v)"
    using step.hyps(2)
  proof (cases rule: service_step.cases)
    case (serves req resp)
    then show ?thesis using threaded_service.run_rpc_alone [OF main_threaded [OF assms(1)], of req u]
      by (intro exI [of _ "Rpc req"]) (auto simp: svc intro: arrives)
  next
    case (delivers t hr)
    then show ?thesis using threaded_service.run_delivery_alone [OF main_threaded [OF assms(1)], of t u]
      by (intro exI [of _ "Delivery t"]) (auto simp: svc p(2) intro: delivered)
  qed
  then obtain c x where "pool_step ?st p (enter ?st c p)" "run_thread (call_thread ?st c) (pool_world p) = (x, v)"
    using p(2) by blast
  let ?q = "p\<lparr>pool_world := v, pool_threads := pool_threads p @ [((c, pool_world p), Finish x)]\<rparr>"
  have q: "(pool_step ?st)\<^sup>*\<^sup>* p ?q" by (rule call_alone) fact+
  have "all_done ?q" using p(3) by (simp add: all_done_def)
  with rtranclp_trans [OF p(1) q] show ?case by (intro exI [of _ ?q]) simp
qed


section \<open>What holds in every pool\<close>

text \<open>The world a process starts in, as far as it can be told from outside.\<close>

definition fresh_start :: "externals \<Rightarrow> 'a tasks_world_scheme \<Rightarrow> bool" where
  "fresh_start ext w \<longleftrightarrow> store_inv w \<and> foreign_errors (ext_lib ext) w \<and> registry_ok w \<and> published w = [] \<and> tasks w = []"

definition pool_answers :: "externals \<Rightarrow> config \<Rightarrow> 'a tasks_world_scheme service \<Rightarrow> 'a tasks_world_scheme service_pool \<Rightarrow> bool" where
  "pool_answers ext cfg svc p \<longleftrightarrow> (\<forall>c w0 x. ((c, w0), Finish x) \<in> set (pool_threads p) \<longrightarrow>
     answered (svc_server svc) (main_taken ext cfg) (main_kept ext cfg) (c, w0) x (pool_world p))"

lemma main_pool:
  fixes w1 :: "'a tasks_world_scheme"
  assumes init: "run_state (main_init ext cfg) w0 = (Inr svc, w1)" and start: "fresh_start ext w1"
    and reach: "(pool_step (main_threads ext cfg svc))\<^sup>*\<^sup>* (idle w1) p"
  obtains I b where "service_inv I b (pool_world p)" and "pool_answers ext cfg svc p"
    and "claims_ok (service_inv I b) registered (\<lambda>_. claim_of) p"
proof -
  obtain I where dep: "deployed_store (svc_store svc) I" and I: "I = store_inv \<or> I = gcs_inv (ext_lib ext)"
    using main_deployed [OF init] .
  let ?S = "svc_store svc"
  obtain b B sched bt sts
    where c: "concurrent_deployment ?S I b B sched bt sts (main_taken ext cfg) (main_kept ext cfg)"
      and st: "main_threads ext cfg svc = \<lparr>thr_service = wire ext cfg ?S B sched, thr_backend = bt, thr_scheduler = Some sts\<rparr>"
    using main_concurrent [OF init dep] .
  have svc: "svc_server svc = svc_server (wire ext cfg ?S B sched)" using st by (simp add: main_threads_def)
  have "I w1" using I start by (auto simp: fresh_start_def gcs_inv_def)
  then have inv: "service_inv I b w1" using start by (simp add: fresh_start_def service_inv_def)
  note ok = concurrent_deployment.pool_reaches [OF c reach [unfolded st] inv]
  have "pool_answers ext cfg svc p"
    unfolding pool_answers_def svc using concurrent_deployment.finished_answer [OF c ok] by blast
  moreover have "service_inv I b (pool_world p)" using ok by (simp add: rely.pool_safe_def [OF evolving.rely_axioms])
  ultimately show ?thesis using that concurrent_deployment.pool_reaches_claims [OF c reach [unfolded st] inv] by blast
qed


section \<open>Properties\<close>

text \<open>
  C5. Whatever the configuration and however the handlers interleave, the registries stay
  well formed, every message published is the encoding of an acceptable job and every task
  carries an acceptable job, at every moment and not only between two calls.
\<close>

lemma concurrent_service_invariant:
  fixes w1 :: "'a tasks_world_scheme"
  assumes "run_state (main_init ext cfg) w0 = (Inr svc, w1)" and "fresh_start ext w1"
    and "(pool_step (main_threads ext cfg svc))\<^sup>*\<^sup>* (idle w1) p"
  shows "registry_ok (pool_world p)
    \<and> (\<forall>m \<in> set (published (pool_world p)). \<exists>j now. good_job j \<and> legacy_data now j = Inr (message_Data m)
         \<and> message_Attributes m = shadow_attrs j)
    \<and> (\<forall>t \<in> set (tasks (pool_world p)). \<exists>j. good_job j \<and> marshalJob j = Inr (task_Body t))"
proof -
  obtain I b where "service_inv I b (pool_world p)" using main_pool [OF assms] .
  then show ?thesis by (fastforce simp: service_inv_def message_for_def task_of_def task_for_def)
qed

text \<open>
  C1. However the handlers interleave, a call that was answered with success has its job
  in a confirmed message, or, when it was due a threshold ahead, in a task; the job carries
  the request's fields and the id that was answered, and is routed by the job type if that
  was registered before the call arrived. Messages and tasks of finished calls are never
  lost, whatever the other handlers do later.
\<close>

lemma concurrent_accept_is_durable:
  fixes w1 :: "'a tasks_world_scheme"
  assumes "run_state (main_init ext cfg) w0 = (Inr svc, w1)" and "fresh_start ext w1"
    and "(pool_step (main_threads ext cfg svc))\<^sup>*\<^sup>* (idle w1) p"
    and "((Rpc (RpcEnqueue ctx r), w), Finish (RpcAnswer (EnqueueReply (Inr resp)))) \<in> set (pool_threads p)"
  shows "\<exists>j. job_of (svc_server svc) (shadowFromContext ctx) r j \<and> good_job j \<and> job_ID j = enqueue_response_JobId resp
    \<and> routed_since w (svc_server svc) r j
    \<and> (main_taken ext cfg j (pool_world p) \<or> main_kept ext cfg j (pool_world p) \<and> deferred (svc_server svc) j (pool_world p))"
proof -
  have "pool_answers ext cfg svc p" using main_pool [OF assms(1-3)] .
  with assms(4) have "accepted (svc_server svc) (handed_on (svc_server svc) (main_taken ext cfg) (main_kept ext cfg)) w ctx r resp (pool_world p)"
    unfolding pool_answers_def answered_def by force
  then show ?thesis unfolding accepted_def handed_on_def .
qed

text \<open>
  C6. However the handlers interleave, and in whatever order a bulk call runs its
  goroutines, a bulk call that was answered has one result for each request in its place, and each result without an
  error names a job of that request which is in a confirmed message or in a task.
\<close>

lemma concurrent_bulk_is_aligned:
  fixes w1 :: "'a tasks_world_scheme"
  assumes "run_state (main_init ext cfg) w0 = (Inr svc, w1)" and "fresh_start ext w1"
    and "(pool_step (main_threads ext cfg svc))\<^sup>*\<^sup>* (idle w1) p"
    and "((Rpc (RpcEnqueueBulk ctx req), w), Finish (RpcAnswer (EnqueueBulkReply (Inr resp)))) \<in> set (pool_threads p)"
  shows "length (enqueue_bulk_response_Results resp) = length (enqueue_bulk_request_Jobs req)
    \<and> (\<forall>i < length (enqueue_bulk_request_Jobs req).
         bulk_slot (\<lambda>j br. answers j br \<and> (result_Error br = None \<longrightarrow>
             handed_on (svc_server svc) (main_taken ext cfg) (main_kept ext cfg) j (pool_world p)))
           (svc_server svc) (shadowFromContext ctx) i (enqueue_bulk_request_Jobs req ! i) (enqueue_bulk_response_Results resp ! i))"
proof -
  have "pool_answers ext cfg svc p" using main_pool [OF assms(1-3)] .
  with assms(4) have "bulk_accepted (svc_server svc) (handed_on (svc_server svc) (main_taken ext cfg) (main_kept ext cfg)) ctx req resp (pool_world p)"
    unfolding pool_answers_def answered_def by force
  then show ?thesis unfolding bulk_accepted_def .
qed

text \<open>
  C9. However the handlers interleave, no two calls that create a producer are answered
  with the same id and no two that create a job type with the same key: the check and the
  registration are one step under the store's mutex. What was answered stays registered.
\<close>

lemma concurrent_registrations_are_unique:
  fixes w1 :: "'a tasks_world_scheme"
  assumes "run_state (main_init ext cfg) w0 = (Inr svc, w1)" and "fresh_start ext w1"
    and "(pool_step (main_threads ext cfg svc))\<^sup>*\<^sup>* (idle w1) p"
    and "i < length (pool_threads p)" and "pool_threads p ! i = (c, Finish x)" and "claim_of x = Some n"
  shows "n \<in> registered (pool_world p)
    \<and> (\<forall>k d y. k < length (pool_threads p) \<longrightarrow> pool_threads p ! k = (d, Finish y) \<longrightarrow> claim_of y = Some n \<longrightarrow> k = i)"
proof -
  obtain I b where claims: "claims_ok (service_inv I b) registered (\<lambda>_. claim_of) p" using main_pool [OF assms(1-3)] .
  have "(c, Finish x) \<in> set (pool_threads p)" using assms(4,5) by (metis nth_mem)
  from claims_owned [OF claims this] have "n \<in> registered (pool_world p)" using assms(6) by simp
  moreover have "k = i" if "k < length (pool_threads p)" "pool_threads p ! k = (d, Finish y)" "claim_of y = Some n" for k d y
    using claims_unique [OF claims that(1) assms(4) that(2) assms(5)] that(3) assms(6) by simp
  ultimately show ?thesis by blast
qed


section \<open>Witnesses\<close>

abbreviation one_call :: "rpc_request \<Rightarrow> 'w \<Rightarrow> rpc_response \<Rightarrow> 'w \<Rightarrow> 'w service_pool" where
  "one_call req w1 resp w \<equiv> \<lparr>pool_world = w, pool_threads = [((Rpc req, w1), Finish (RpcAnswer resp))]\<rparr>"

lemma rpc_pool:
  fixes w1 :: "'a tasks_world_scheme"
  assumes init: "run_state (main_init ext cfg) w0 = (Inr svc, w1)" and "rpc_ok req" and "run_state (serve svc req) w1 = (resp, w)"
  shows "(pool_step (main_threads ext cfg svc))\<^sup>*\<^sup>* (idle w1) (one_call req w1 resp w)"
proof -
  let ?st = "main_threads ext cfg svc"
  have "thr_service ?st = svc" by (simp add: main_threads_def)
  then have "run_thread (call_thread ?st (Rpc req)) w1 = (RpcAnswer resp, w)"
    using threaded_service.run_rpc_alone [OF main_threaded [OF init], of req w1] assms(3) by simp
  from call_alone [OF arrives [OF assms(2)], of ?st "idle w1", simplified idle_def pool.simps, OF this]
  show ?thesis by (simp add: idle_def)
qed

definition sample_gcs_config :: config where
  "sample_gcs_config = sample_config\<lparr>GCSBucket := ''b''\<rparr>"

definition sample_gcs_service :: "tasks_world service" where
  "sample_gcs_service = production_service sample_externals sample_gcs_config sample_total_lib sample_gc sample_topics
     \<lparr>ct_queuePath = ''projects/p/locations/l/queues/q'', ct_callbackURL = ''http://jack/internal/callback/enqueue'',
      ct_saEmail = [], ct_pb = sample_pb\<rparr>"

definition sample_gcs_start :: tasks_world where
  "sample_gcs_start = sample_tasks_world\<lparr>gcs_calls := 2\<rparr>"

lemma sample_ext [simp]:
  "ext_lib sample_externals = sample_total_lib" "ext_statsd_error sample_externals = None" "ext_gcs_error sample_externals = None"
  "ext_pubsub_error sample_externals = None" "ext_tasks_error sample_externals = None" "ext_pubsub_close sample_externals = None"
  "ext_tasks_close sample_externals = None" "not_exist sample_total_lib = Sentinel ErrObjectNotExist" "gcs_pb sample_total_lib = sample_pb"
  by (simp_all add: sample_externals_def sample_total_lib_def sample_lib_def)

lemma sample_main_gcs [simp]: "main_gcs sample_gcs_config = sample_gc"
  by (simp add: main_gcs_def sample_gcs_config_def sample_config_def sample_gc_def)

lemma sample_load: "run_state (NewGCSStore sample_total_lib sample_gc None) sample_tasks_world = (None, sample_gcs_start)"
  by (simp add: NewGCSStore_def load_def loadProducers_def loadJobTypes_def new_reader_def index_producers_def index_job_types_def object_handle_def
      sample_gcs_start_def sample_tasks_world_def)

lemma sample_gcs_init:
  "run_state (main_init sample_externals sample_gcs_config) sample_tasks_world = (Inr sample_gcs_service, sample_gcs_start)"
proof -
  have c: "GCSBucket sample_gcs_config = ''b''" "GCSPrefix sample_gcs_config = []" "DatadogStatsdAddr sample_gcs_config = []"
    "QueueBackend sample_gcs_config = ''pubsub''" "CloudTasksProject sample_gcs_config = ''p''"
    by (simp_all add: sample_gcs_config_def sample_config_def)
  have p: "main_pubsub sample_externals sample_gcs_config = Inr (legacy_pubsub sample_topics)"
    by (simp add: main_pubsub_def NewPubSubBackend_def sample_gcs_config_def sample_config_def add_topic_def legacy_pubsub_def)
  have t: "main_cloud_tasks sample_externals sample_gcs_config = Inr \<lparr>ct_queuePath = ''projects/p/locations/l/queues/q'',
      ct_callbackURL = ''http://jack/internal/callback/enqueue'', ct_saEmail = [], ct_pb = sample_pb\<rparr>"
    by (simp add: main_cloud_tasks_def NewCloudTasksScheduler_def sample_gcs_config_def sample_config_def trim_sample)
  show ?thesis
    by (simp add: main_init_def init_statsd_def init_store_def init_backend_def init_scheduler_def c p t sample_load sample_gcs_service_def)
qed

lemma sample_gcs_fresh: "fresh_start sample_externals sample_gcs_start"
  using sample_start by (simp add: fresh_start_def sample_gcs_start_def registry_ok_def)

lemma sample_gcs_now:
  obtains resp w where "run_state (serve sample_gcs_service (RpcEnqueue None sample_now)) sample_gcs_start = (EnqueueReply (Inr resp), w)"
proof -
  obtain x w where run: "run_state (Server_Enqueue (svc_server sample_gcs_service) None sample_now) sample_gcs_start = (x, w)" by fastforce
  have "\<exists>resp. x = Inr resp \<and> (\<exists>m. published w = published sample_gcs_start @ [m])"
    by (rule immediate_accepted [OF _ _ _ _ _ _ _ run [unfolded sample_gcs_service_def]])
      (simp_all add: sample_now_def sample_gcs_start_def sample_fields sample_payload sample_years mono_def rejection_def wired_defaults
        del: wire_simps)
  with run that show ?thesis by (auto simp: run_reply)
qed

lemma sample_new_producer:
  "\<exists>resp w. run_state (serve sample_service (RpcCreateProducer sample_create_producer)) sample_tasks_world
    = (CreateProducerReply (Inr resp), w)"
  by (simp add: run_reply sample_service_def AdminServer_CreateProducer_def NewAdminServer_def
      sample_create_producer_def run_generateProducerID sample_next_id memory_store_def run_MemoryStore_CreateProducer
      new_producer_def Let_def) (simp add: sample_tasks_world_def)

abbreviation sample_pools :: "tasks_world service_pool \<Rightarrow> bool" where
  "sample_pools \<equiv> (pool_step (main_threads sample_externals sample_gcs_config sample_gcs_service))\<^sup>*\<^sup>* (idle sample_gcs_start)"

lemma sample_request_ok: "rpc_ok (RpcEnqueue None sample_now)"
  by (simp add: request_ok_def sample_now_def valid_utf8_ascii)

lemma concurrent_service_invariant_witness:
  "\<exists>p. sample_pools p \<and> length (pool_threads p) = 1 \<and> registry_ok (pool_world p)"
proof -
  obtain resp w where "run_state (serve sample_gcs_service (RpcEnqueue None sample_now)) sample_gcs_start = (EnqueueReply (Inr resp), w)"
    using sample_gcs_now .
  from rpc_pool [OF sample_gcs_init sample_request_ok this] have p: "sample_pools (one_call (RpcEnqueue None sample_now) sample_gcs_start (EnqueueReply (Inr resp)) w)" .
  from p concurrent_service_invariant [OF sample_gcs_init sample_gcs_fresh p] show ?thesis
    by (intro exI [of _ "one_call (RpcEnqueue None sample_now) sample_gcs_start (EnqueueReply (Inr resp)) w"]) simp
qed

lemma concurrent_accept_is_durable_witness:
  "\<exists>p j. sample_pools p \<and> job_Payload j = Some [123, 125]
    \<and> (main_taken sample_externals sample_gcs_config j (pool_world p) \<or> main_kept sample_externals sample_gcs_config j (pool_world p))"
proof -
  obtain resp w where "run_state (serve sample_gcs_service (RpcEnqueue None sample_now)) sample_gcs_start = (EnqueueReply (Inr resp), w)"
    using sample_gcs_now .
  from rpc_pool [OF sample_gcs_init sample_request_ok this] have p: "sample_pools (one_call (RpcEnqueue None sample_now) sample_gcs_start (EnqueueReply (Inr resp)) w)" .
  have "\<exists>j. job_of (svc_server sample_gcs_service) (shadowFromContext None) sample_now j
    \<and> (main_taken sample_externals sample_gcs_config j w \<or> main_kept sample_externals sample_gcs_config j w)"
    using concurrent_accept_is_durable [OF sample_gcs_init sample_gcs_fresh p, of None sample_now sample_gcs_start resp] by auto
  with p show ?thesis by (force simp: job_of_def sample_now_def)
qed

lemma concurrent_bulk_is_aligned_witness:
  "\<exists>p resp. sample_pools p \<and> snd (hd (pool_threads p)) = Finish (RpcAnswer (EnqueueBulkReply (Inr resp)))
    \<and> length (enqueue_bulk_response_Results resp) = 2"
proof -
  let ?req = "\<lparr>enqueue_bulk_request_Jobs = [sample_now, sample_now]\<rparr>"
  obtain x w where run: "run_state (Server_EnqueueBulk (svc_server sample_gcs_service) None ?req) sample_gcs_start = (x, w)" by fastforce
  then obtain resp where x: "x = Inr resp" by (rule run_EnqueueBulk_stages) simp_all
  have "run_state (serve sample_gcs_service (RpcEnqueueBulk None ?req)) sample_gcs_start = (EnqueueBulkReply (Inr resp), w)"
    using run x by (simp add: run_reply)
  from rpc_pool [OF sample_gcs_init _ this] sample_request_ok
  have p: "sample_pools (one_call (RpcEnqueueBulk None ?req) sample_gcs_start (EnqueueBulkReply (Inr resp)) w)" by simp
  from concurrent_bulk_is_aligned [OF sample_gcs_init sample_gcs_fresh p, of None ?req sample_gcs_start resp]
  have "length (enqueue_bulk_response_Results resp) = 2" by simp
  with p show ?thesis by force
qed

lemma concurrent_registrations_are_unique_witness:
  "\<exists>p n. (pool_step (main_threads sample_externals sample_config sample_service))\<^sup>*\<^sup>* (idle sample_tasks_world) p
    \<and> n \<in> registered (pool_world p)"
proof -
  obtain resp w where "run_state (serve sample_service (RpcCreateProducer sample_create_producer)) sample_tasks_world
    = (CreateProducerReply (Inr resp), w)" using sample_new_producer by blast
  from rpc_pool [OF sample_init _ this] have p: "(pool_step (main_threads sample_externals sample_config sample_service))\<^sup>*\<^sup>*
      (idle sample_tasks_world) (one_call (RpcCreateProducer sample_create_producer) sample_tasks_world (CreateProducerReply (Inr resp)) w)" by simp
  have fresh: "fresh_start sample_externals sample_tasks_world" using sample_start by (simp add: fresh_start_def)
  from concurrent_registrations_are_unique [OF sample_init fresh p, of 0, OF _ _ claim_of_simps(9)]
  have "Inl (producer_ProducerId (create_producer_response_Producer resp)) \<in> registered w" by simp
  with p show ?thesis by force
qed

end
