(* ===== verification/Process.thy ===== *)
theory Process
  imports Interleavings
begin

text \<open>
  The life of the process of cmd/jack/main.go: it comes up or exits, serves, is told to
  shut down, waits for the calls that are under way, closes its clients and exits. The
  threads of the handlers run beside \<open>main\<close> until it returns.
\<close>


section \<open>The process\<close>

datatype health = HealthServing | HealthNotServing

text \<open>
  Where \<open>main\<close> is: waiting for a signal, in \<open>httpServer.Shutdown\<close>, in
  \<open>grpcServer.GracefulStop\<close>, between its deferred calls, or gone, with the text of
  \<open>log.Fatalf\<close> when that ended it.
\<close>

datatype phase =
    Serving
  | ShuttingDown
  | Stopping
  | Closing nat
  | Exited "string option"

record 'w process =
  proc_phase :: phase
  proc_health :: "health option"
  proc_service :: "'w service option"
  proc_pool :: "'w service_pool"
  proc_closed :: "go_error option list"

text \<open>
  The libraries the process is built on: whether the port can be opened, and with which
  calls under way \<open>Shutdown\<close> and \<open>GracefulStop\<close> return. \<open>Shutdown\<close> does not wait for
  connections that were taken over, as the ones of HTTP/2 are; \<open>GracefulStop\<close> is
  documented to wait for all pending RPCs.
\<close>

record net_lib =
  net_Listen :: "int \<Rightarrow> go_error option"
  http_Shutdown_returns :: "call list \<Rightarrow> bool"
  grpc_GracefulStop_returns :: "call list \<Rightarrow> bool"

definition waits_for_rpcs :: "net_lib \<Rightarrow> bool" where
  "waits_for_rpcs lib \<longleftrightarrow> (\<forall>req cs. Rpc req \<in> set cs \<longrightarrow> \<not> grpc_GracefulStop_returns lib cs)"

fun is_finished :: "('w, 'a) thread \<Rightarrow> bool" where
  "is_finished (Finish x) = True"
| "is_finished (Act f h) = False"

definition under_way :: "'w service_pool \<Rightarrow> call list" where
  "under_way p = map (fst \<circ> fst) (filter (\<lambda>(_, t). \<not> is_finished t) (pool_threads p))"

text \<open>From the configuration to the goroutine that serves.\<close>

definition main_start :: "net_lib \<Rightarrow> externals \<Rightarrow> config \<Rightarrow> 'a tasks_world_scheme \<Rightarrow> 'a tasks_world_scheme process" where
  "main_start lib ext cfg w =
     (case run_state (main_init ext cfg) w of
        (Inl msg, w') \<Rightarrow> \<lparr>proc_phase = Exited (Some msg), proc_health = None, proc_service = None,
            proc_pool = idle w', proc_closed = []\<rparr>
      | (Inr svc, w') \<Rightarrow> \<lparr>
            proc_phase = (case net_Listen lib (GRPCPort cfg) of
                Some e \<Rightarrow> Exited (Some (''Failed to listen on port '' @ show_int (GRPCPort cfg) @ '': '' @ error_text e))
              | None \<Rightarrow> Serving),
            proc_health = Some HealthServing, proc_service = Some svc,
            proc_pool = idle w', proc_closed = []\<rparr>)"

text \<open>\<open>Load\<close> never reports an error, so the first \<open>log.Fatalf\<close> of \<open>main\<close> is not reached.\<close>

definition main_run :: "net_lib \<Rightarrow> externals \<Rightarrow> fraction \<Rightarrow> environment \<Rightarrow> 'a tasks_world_scheme \<Rightarrow> 'a tasks_world_scheme process" where
  "main_run lib ext frac getenv w = main_start lib ext (Load frac getenv) w"

definition is_live :: "'w process \<Rightarrow> bool" where
  "is_live P \<longleftrightarrow> (case proc_phase P of Exited _ \<Rightarrow> False | _ \<Rightarrow> True)"

text \<open>What happens without anything from outside.\<close>

inductive settle_step :: "net_lib \<Rightarrow> 'a tasks_world_scheme process \<Rightarrow> 'a tasks_world_scheme process \<Rightarrow> bool" for lib where
  thread_advances: "is_live P \<Longrightarrow> advance (proc_pool P) p' \<Longrightarrow> settle_step lib P (P\<lparr>proc_pool := p'\<rparr>)"
| shutdown_returns: "proc_phase P = ShuttingDown \<Longrightarrow> http_Shutdown_returns lib (under_way (proc_pool P)) \<Longrightarrow>
    settle_step lib P (P\<lparr>proc_phase := Stopping\<rparr>)"
| stop_returns: "proc_phase P = Stopping \<Longrightarrow> grpc_GracefulStop_returns lib (under_way (proc_pool P)) \<Longrightarrow>
    settle_step lib P (P\<lparr>proc_phase := Closing 0\<rparr>)"
| closes: "proc_phase P = Closing n \<Longrightarrow> proc_service P = Some svc \<Longrightarrow> n < length (deferred_closes svc) \<Longrightarrow>
    run_state (deferred_closes svc ! n) (pool_world (proc_pool P)) = (e, w') \<Longrightarrow>
    settle_step lib P (P\<lparr>proc_phase := Closing (Suc n), proc_pool := (proc_pool P)\<lparr>pool_world := w'\<rparr>,
      proc_closed := proc_closed P @ [e]\<rparr>)"
| main_returns: "proc_phase P = Closing n \<Longrightarrow> proc_service P = Some svc \<Longrightarrow> n = length (deferred_closes svc) \<Longrightarrow>
    settle_step lib P (P\<lparr>proc_phase := Exited None\<rparr>)"

text \<open>
  A signal is read once, and later ones are kept in the channel. After \<open>Shutdown\<close> no RPC
  comes in; deliveries may, over connections that were taken over. \<open>Serve\<close> may fail at any
  moment, and its goroutine ends the process then.
\<close>

inductive process_step :: "net_lib \<Rightarrow> externals \<Rightarrow> config \<Rightarrow> 'a tasks_world_scheme process \<Rightarrow> 'a tasks_world_scheme process \<Rightarrow> bool"
  for lib ext cfg where
  settles: "settle_step lib P P' \<Longrightarrow> process_step lib ext cfg P P'"
| signalled: "proc_phase P = Serving \<Longrightarrow>
    process_step lib ext cfg P (P\<lparr>proc_phase := ShuttingDown, proc_health := Some HealthNotServing\<rparr>)"
| serve_fails: "is_live P \<Longrightarrow>
    process_step lib ext cfg P (P\<lparr>proc_phase := Exited (Some (''Server error: '' @ error_text e))\<rparr>)"
| rpc_comes: "proc_phase P \<in> {Serving, ShuttingDown} \<Longrightarrow> proc_service P = Some svc \<Longrightarrow> rpc_ok req \<Longrightarrow>
    process_step lib ext cfg P (P\<lparr>proc_pool := enter (main_threads ext cfg svc) (Rpc req) (proc_pool P)\<rparr>)"
| delivery_comes: "is_live P \<Longrightarrow> proc_service P = Some svc \<Longrightarrow> t \<in> set (tasks (pool_world (proc_pool P))) \<Longrightarrow>
    process_step lib ext cfg P (P\<lparr>proc_pool := enter (main_threads ext cfg svc) (Delivery t) (proc_pool P)\<rparr>)"

inductive_cases settle_stepE: "settle_step lib P P'"
inductive_cases process_stepE: "process_step lib ext cfg P P'"

lemma length_closes [simp]: "length (deferred_closes svc) = 4"
  by (simp add: deferred_closes_def)


section \<open>The phases\<close>

definition rpcs_finished :: "'w service_pool \<Rightarrow> bool" where
  "rpcs_finished p \<longleftrightarrow> (\<forall>req w t. ((Rpc req, w), t) \<in> set (pool_threads p) \<longrightarrow> is_finished t)"

lemma is_finished_iff: "is_finished t \<longleftrightarrow> (\<exists>x. t = Finish x)"
  by (cases t) simp_all

lemma stop_waits: "waits_for_rpcs lib \<Longrightarrow> grpc_GracefulStop_returns lib (under_way p) \<Longrightarrow> rpcs_finished p"
  unfolding waits_for_rpcs_def rpcs_finished_def under_way_def by force

lemma advance_rpcs_finished: "advance p p' \<Longrightarrow> rpcs_finished p \<Longrightarrow> rpcs_finished p'"
proof (erule advanceE)
  fix i c f h
  assume i: "i < length (pool_threads p)" "pool_threads p ! i = (c, Act f h)" and fin: "rpcs_finished p"
    and p': "p' = p\<lparr>pool_world := f (pool_world p), pool_threads := (pool_threads p)[i := (c, h (pool_world p))]\<rparr>"
  have "(c, Act f h) \<in> set (pool_threads p)" using i nth_mem by fastforce
  with fin have "fst c \<noteq> Rpc req" for req unfolding rpcs_finished_def by (cases c) fastforce
  with fin show ?thesis unfolding rpcs_finished_def p' using set_update_subset_insert by fastforce
qed

lemma enter_delivery_finished: "rpcs_finished p \<Longrightarrow> rpcs_finished (enter st (Delivery t) p)"
  by (auto simp: rpcs_finished_def enter_def)

definition phase_ok :: "net_lib \<Rightarrow> 'w service \<Rightarrow> 'w process \<Rightarrow> bool" where
  "phase_ok lib svc P \<longleftrightarrow> proc_service P = Some svc \<and>
     (case proc_phase P of
        Serving \<Rightarrow> proc_health P = Some HealthServing \<and> proc_closed P = []
      | Closing n \<Rightarrow> proc_health P = Some HealthNotServing \<and> length (proc_closed P) = n \<and> n \<le> 4
          \<and> (waits_for_rpcs lib \<longrightarrow> rpcs_finished (proc_pool P))
      | Exited None \<Rightarrow> proc_health P = Some HealthNotServing \<and> length (proc_closed P) = 4
          \<and> (waits_for_rpcs lib \<longrightarrow> rpcs_finished (proc_pool P))
      | Exited (Some _) \<Rightarrow> True
      | _ \<Rightarrow> proc_health P = Some HealthNotServing \<and> proc_closed P = [])"

lemma settle_phase_ok: "settle_step lib P P' \<Longrightarrow> phase_ok lib svc P \<Longrightarrow> phase_ok lib svc P'"
proof (erule settle_stepE)
  fix p' assume "phase_ok lib svc P" "P' = P\<lparr>proc_pool := p'\<rparr>" "advance (proc_pool P) p'" "is_live P"
  then show ?thesis using advance_rpcs_finished
    by (auto simp: phase_ok_def is_live_def split: phase.splits)
qed (auto simp: phase_ok_def rpcs_finished_def stop_waits [unfolded rpcs_finished_def] split: phase.splits)

lemma process_phase_ok: "process_step lib ext cfg P P' \<Longrightarrow> phase_ok lib svc P \<Longrightarrow> phase_ok lib svc P'"
  by (erule process_stepE)
    (auto simp: phase_ok_def is_live_def settle_phase_ok enter_delivery_finished split: phase.splits
      dest: settle_phase_ok [unfolded phase_ok_def])


lemma start_phase_ok:
  fixes w0 w1 :: "'a tasks_world_scheme"
  assumes "run_state (main_init ext cfg) w0 = (Inr svc, w1)" and "(process_step lib ext cfg)\<^sup>*\<^sup>* (main_start lib ext cfg w0) P"
  shows "phase_ok lib svc P"
  using assms(2)
proof (induction rule: rtranclp_induct)
  case base
  show ?case using assms(1) by (simp add: main_start_def phase_ok_def split: option.split)
qed (rule process_phase_ok)


section \<open>The threads of a process\<close>

context rely begin

lemma pool_safe_world:
  assumes "pool_safe Q p" and "\<And>c. stable R (Q c)" and "R (pool_world p) w" and "I w"
  shows "pool_safe Q (p\<lparr>pool_world := w\<rparr>)"
  using assms safe_later [OF _ assms(2,3)] by (auto simp: pool_safe_def)

end

context concurrent_deployment begin

lemma settle_pool_ok:
  fixes P P' :: "'a tasks_world_scheme process"
  assumes step: "settle_step lib P P'" and ok: "pool_ok (proc_pool P)" and svc: "proc_service P = Some svc"
    and closing: "\<And>m w e w'. m \<in> set (deferred_closes svc) \<Longrightarrow> service_inv I b w \<Longrightarrow> run_state m w = (e, w') \<Longrightarrow>
      evolves w w' \<and> service_inv I b w'"
  shows "pool_ok (proc_pool P') \<and> evolves (pool_world (proc_pool P)) (pool_world (proc_pool P'))"
  using step
proof (rule settle_stepE)
  fix p' assume "P' = P\<lparr>proc_pool := p'\<rparr>" "advance (proc_pool P) p'"
  then show ?thesis using steps.advance_safe [OF _ ok stable_answered] by simp
next
  fix n svc' e w' assume P': "P' = P\<lparr>proc_phase := Closing (Suc n), proc_pool := (proc_pool P)\<lparr>pool_world := w'\<rparr>,
      proc_closed := proc_closed P @ [e]\<rparr>"
    and n: "proc_service P = Some svc'" "n < length (deferred_closes svc')"
      "run_state (deferred_closes svc' ! n) (pool_world (proc_pool P)) = (e, w')"
  have inv: "service_inv I b (pool_world (proc_pool P))" using ok by (simp add: steps.pool_safe_def)
  have "svc' = svc" using n(1) svc by simp
  with closing [of "deferred_closes svc ! n", OF _ inv] n(2,3)
  have "evolves (pool_world (proc_pool P)) w'" "service_inv I b w'" by simp_all
  then show ?thesis using steps.pool_safe_world [OF ok stable_answered, of w'] by (simp add: P')
qed (use ok in simp_all)

lemma process_pool_ok:
  fixes P P' :: "'a tasks_world_scheme process"
  assumes step: "process_step lib ext' cfg' P P'" and ok: "pool_ok (proc_pool P)" and svc: "proc_service P = Some svc"
    and st: "main_threads ext' cfg' svc = st"
    and closing: "\<And>m w e w'. m \<in> set (deferred_closes svc) \<Longrightarrow> service_inv I b w \<Longrightarrow> run_state m w = (e, w') \<Longrightarrow>
      evolves w w' \<and> service_inv I b w'"
  shows "pool_ok (proc_pool P') \<and> evolves (pool_world (proc_pool P)) (pool_world (proc_pool P'))"
  using step
proof (rule process_stepE)
  assume "settle_step lib P P'"
  from settle_pool_ok [OF this ok svc closing] show ?thesis .
next
  fix svc' req assume "P' = P\<lparr>proc_pool := enter (main_threads ext' cfg' svc') (Rpc req) (proc_pool P)\<rparr>"
    "proc_service P = Some svc'" "rpc_ok req"
  then show ?thesis using enter_ok [OF ok, of "Rpc req"] svc st by (simp add: enter_def)
next
  fix svc' t assume "P' = P\<lparr>proc_pool := enter (main_threads ext' cfg' svc') (Delivery t) (proc_pool P)\<rparr>"
    "proc_service P = Some svc'" "t \<in> set (tasks (pool_world (proc_pool P)))"
  then show ?thesis using enter_ok [OF ok, of "Delivery t"] svc st by (simp add: enter_def)
qed (use ok in simp_all)

end

text \<open>Closing a client changes nothing another thread can see.\<close>

lemma evolves_calls: "evolves w (w\<lparr>gcs_calls := n\<rparr>)"
  by (simp add: evolves_def)

lemma close_effect:
  fixes w :: "'a tasks_world_scheme"
  assumes svc: "svc = wire ext cfg S B sched" and B: "backend_of b B" and sched: "scheduler_of sched"
    and S: "S = memory_store pb \<or> S = gcs_store lib gc"
    and m: "m \<in> set (deferred_closes svc)" and run: "run_state m w = (e, w')"
  shows "w' = w \<or> w' = w\<lparr>gcs_calls := Suc (gcs_calls w)\<rparr>"
proof -
  consider "m = scheduler_Close sched" | "m = backend_Close B" | "m = store_Close S" | "m = statsd_Close ext cfg"
    using m by (auto simp: deferred_closes_def defer_scheduler_def defer_backend_def defer_store_def defer_statsd_def svc wire_def)
  then show ?thesis
  proof cases
    case 1
    with sched run show ?thesis
      by (auto simp: scheduler_of_def NewNoopScheduler_def NoopScheduler_Close_def cloud_tasks_def CloudTasksScheduler_Close_def)
  next
    case 2
    with B run show ?thesis
      by (auto simp: backend_of_def noop_queue_def NoopBackend_Close_def pubsub_queue_def PubSubBackend_Close_def)
  next
    case 3
    with S run show ?thesis
      by (auto simp: memory_store_def MemoryStore_Close_def gcs_store_def GCSStore_Close_def split: prod.splits)
  next
    case 4
    with run show ?thesis by (simp add: statsd_Close_def)
  qed
qed

lemma inv_calls:
  "I = store_inv \<or> I = gcs_inv lib \<Longrightarrow> I (w\<lparr>gcs_calls := n\<rparr>) = I w" for w :: "'a tasks_world_scheme"
  by (auto simp: gcs_inv_def store_inv_def foreign_errors_def)


lemma main_closing:
  fixes w0 w1 :: "'a tasks_world_scheme"
  assumes init: "run_state (main_init ext cfg) w0 = (Inr svc, w1)"
    and m: "m \<in> set (deferred_closes svc)" and inv: "service_inv I b w" and run: "run_state m w = (e, w')"
    and I: "\<And>u n. I u \<Longrightarrow> I (u\<lparr>gcs_calls := n\<rparr>)"
  shows "evolves w w' \<and> service_inv I b w'"
proof -
  obtain S b' B sched where s: "svc = wire ext cfg S B sched" "backend_of b' B" "scheduler_of sched"
    "S = memory_store (gcs_pb (ext_lib ext)) \<or> S = gcs_store (ext_lib ext) (main_gcs cfg)"
    using main_init_wires [OF init] .
  from close_effect [OF s m run] show ?thesis
    using inv I [of w] by (auto simp: evolves_calls service_inv_def registry_ok_def)
qed

lemma main_process:
  fixes w0 w1 :: "'a tasks_world_scheme"
  assumes init: "run_state (main_init ext cfg) w0 = (Inr svc, w1)" and start: "fresh_start ext w1"
    and reach: "(process_step lib ext cfg)\<^sup>*\<^sup>* (main_start lib ext cfg w0) P"
    and dep: "deployed_store (svc_store svc) I" and I: "I w1" "\<And>u n. I u \<Longrightarrow> I (u\<lparr>gcs_calls := n\<rparr>)"
  obtains b where "service_inv I b (pool_world (proc_pool P))" and "pool_answers ext cfg svc (proc_pool P)"
    and "evolves w1 (pool_world (proc_pool P))"
proof -
  let ?S = "svc_store svc"
  obtain b B sched bt sts
    where c: "concurrent_deployment ?S I b B sched bt sts (main_taken ext cfg) (main_kept ext cfg)"
      and st: "main_threads ext cfg svc = \<lparr>thr_service = wire ext cfg ?S B sched, thr_backend = bt, thr_scheduler = Some sts\<rparr>"
    using main_concurrent [OF init dep] .
  have svc: "svc_server svc = svc_server (wire ext cfg ?S B sched)" using st by (simp add: main_threads_def)
  have inv: "service_inv I b w1" using start I(1) by (simp add: fresh_start_def service_inv_def)
  let ?ok = "rely.pool_safe (service_inv I b) evolves (answered (svc_server (wire ext cfg ?S B sched)) (main_taken ext cfg) (main_kept ext cfg))"
  have idle: "?ok (idle w1)" by (rule concurrent_deployment.pool_reaches [OF c rtranclp.rtrancl_refl inv])
  from reach have ok': "?ok (proc_pool P) \<and> evolves w1 (pool_world (proc_pool P))"
  proof (induction rule: rtranclp_induct)
    case base
    show ?case using idle init by (simp add: main_start_def idle_def)
  next
    case (step P P')
    have "phase_ok lib svc P" by (rule start_phase_ok [OF init step(1)])
    then have "proc_service P = Some svc" by (simp add: phase_ok_def)
    from concurrent_deployment.process_pool_ok [OF c step(2) conjunct1 [OF step(3)] this st] show ?case
      using main_closing [OF init, where I = I, OF _ _ _ I(2)] step(3) by (blast intro: evolves_trans)
  qed
  then have ok: "?ok (proc_pool P)" ..
  have "pool_answers ext cfg svc (proc_pool P)"
    unfolding pool_answers_def svc using concurrent_deployment.finished_answer [OF c ok] by blast
  moreover have "service_inv I b (pool_world (proc_pool P))" using ok by (simp add: rely.pool_safe_def [OF evolving.rely_axioms])
  ultimately show ?thesis using that ok' by blast
qed

lemma main_process_answers:
  fixes w0 w1 :: "'a tasks_world_scheme"
  assumes init: "run_state (main_init ext cfg) w0 = (Inr svc, w1)" and start: "fresh_start ext w1"
    and reach: "(process_step lib ext cfg)\<^sup>*\<^sup>* (main_start lib ext cfg w0) P"
  shows "pool_answers ext cfg svc (proc_pool P)" and "evolves w1 (pool_world (proc_pool P))"
proof -
  obtain I where dep: "deployed_store (svc_store svc) I" and I: "I = store_inv \<or> I = gcs_inv (ext_lib ext)"
    using main_deployed [OF init] .
  have "I w1" using I start by (auto simp: fresh_start_def gcs_inv_def)
  moreover have "I u \<Longrightarrow> I (u\<lparr>gcs_calls := n\<rparr>)" for u n using inv_calls [OF I, where w = u] by simp
  ultimately show "pool_answers ext cfg svc (proc_pool P)" "evolves w1 (pool_world (proc_pool P))"
    using main_process [OF init start reach dep] by blast+
qed


section \<open>The closes\<close>

text \<open>
  What the four deferred calls report, in their order, in a configuration: the errors of the
  clients that are in use, where the storage client's is the oracle's for its \<open>n\<close>-th call.
\<close>

definition client_closes :: "externals \<Rightarrow> config \<Rightarrow> (nat \<Rightarrow> gcs_fault option) \<Rightarrow> nat \<Rightarrow> go_error option list" where
  "client_closes ext cfg faults n =
     [if CloudTasksProject cfg \<noteq> [] then ext_tasks_close ext else None,
      if QueueBackend cfg = ''pubsub'' then ext_pubsub_close ext else None,
      if GCSBucket cfg \<noteq> [] then map_option fault_error (faults n) else None,
      if DatadogStatsdAddr cfg \<noteq> [] then ext_statsd_close ext else None]"

lemma less_4: "n < 4 \<Longrightarrow> n = 0 \<or> n = 1 \<or> n = 2 \<or> n = 3" for n :: nat
  by arith

lemma close_report:
  fixes w w0 :: "'a tasks_world_scheme"
  assumes init: "run_state (main_init ext cfg) w0 = (Inr svc, w1)" and n: "n < 4"
    and run: "run_state (deferred_closes svc ! n) w = (e, w')"
  shows "e = client_closes ext cfg (gcs_faults w) (gcs_calls w) ! n"
proof -
  obtain r v where st: "run_state (init_store ext cfg) w0 = (r, v)" by fastforce
  from init st obtain S B sched where s: "r = Inr S" "init_backend ext cfg = Inr B" "init_scheduler ext cfg = Inr sched"
    "svc = wire ext cfg S B sched"
    by (auto simp: main_init_def split: sum.splits)
  have store: "fst (run_state (store_Close S) w) = (if GCSBucket cfg \<noteq> [] then map_option fault_error (gcs_faults w (gcs_calls w)) else None)"
    using st s(1) by (auto simp: init_store_def memory_store_def MemoryStore_Close_def gcs_store_def GCSStore_Close_def
        NewMemoryStore_def split: if_splits prod.splits option.splits)
  have backend: "fst (run_state (backend_Close B) w) = (if QueueBackend cfg = ''pubsub'' then ext_pubsub_close ext else None)"
    using s(2) by (auto simp: init_backend_def noop_queue_def NoopBackend_Close_def pubsub_queue_def PubSubBackend_Close_def
        split: if_splits sum.splits)
  have sched: "fst (run_state (scheduler_Close sched) w) = (if CloudTasksProject cfg \<noteq> [] then ext_tasks_close ext else None)"
    using s(3) by (auto simp: init_scheduler_def NewNoopScheduler_def NoopScheduler_Close_def cloud_tasks_def
        CloudTasksScheduler_Close_def split: if_splits sum.splits)
  have "fst (run_state (deferred_closes svc ! n) w) = client_closes ext cfg (gcs_faults w) (gcs_calls w) ! n"
    using less_4 [OF n] store backend sched
    by (elim disjE) (simp_all add: client_closes_def deferred_closes_def defer_scheduler_def defer_backend_def defer_store_def
        defer_statsd_def s(4) wire_def statsd_Close_def)
  then show ?thesis by (simp add: run)
qed

lemma closes_extend:
  assumes "es = take n (client_closes ext cfg F k)" and "n < 4" and "e = client_closes ext cfg F m ! n"
  shows "\<exists>k'. es @ [e] = take (Suc n) (client_closes ext cfg F k')"
  using less_4 [OF assms(2)] assms(1,3) by (elim disjE) (auto simp: client_closes_def intro: exI [of _ m] exI [of _ k])

definition closes_ok :: "externals \<Rightarrow> config \<Rightarrow> (nat \<Rightarrow> gcs_fault option) \<Rightarrow> 'w process \<Rightarrow> bool" where
  "closes_ok ext cfg F P \<longleftrightarrow> (\<exists>k. proc_closed P = take (length (proc_closed P)) (client_closes ext cfg F k))"

lemma process_closes_ok:
  fixes w0 w1 :: "'a tasks_world_scheme"
  assumes init: "run_state (main_init ext cfg) w0 = (Inr svc, w1)" and start: "fresh_start ext w1"
    and reach: "(process_step lib ext cfg)\<^sup>*\<^sup>* (main_start lib ext cfg w0) P"
  shows "closes_ok ext cfg (gcs_faults w1) P"
  using reach
proof (induction rule: rtranclp_induct)
  case base
  show ?case using init by (simp add: main_start_def closes_ok_def)
next
  case (step P P')
  have ph: "phase_ok lib svc P" by (rule start_phase_ok [OF init step(1)])
  have F: "gcs_faults (pool_world (proc_pool P)) = gcs_faults w1"
    using main_process_answers(2) [OF init start step(1)] by (simp add: evolves_def)
  have "closes_ok ext cfg (gcs_faults w1) P'" if settle: "settle_step lib P P'"
    using settle
  proof (rule settle_stepE)
    fix n svc' e w'
    assume P': "P' = P\<lparr>proc_phase := Closing (Suc n), proc_pool := (proc_pool P)\<lparr>pool_world := w'\<rparr>,
        proc_closed := proc_closed P @ [e]\<rparr>"
      and n: "proc_phase P = Closing n" "proc_service P = Some svc'" "n < length (deferred_closes svc')"
        "run_state (deferred_closes svc' ! n) (pool_world (proc_pool P)) = (e, w')"
    have "svc' = svc" and len: "length (proc_closed P) = n" using ph n(1,2) by (auto simp: phase_ok_def)
    with close_report [OF init _ n(4) [unfolded \<open>svc' = svc\<close>]] n(3)
    have e: "e = client_closes ext cfg (gcs_faults w1) (gcs_calls (pool_world (proc_pool P))) ! n" by (simp add: F)
    obtain k where "proc_closed P = take n (client_closes ext cfg (gcs_faults w1) k)"
      using step(3) len by (auto simp: closes_ok_def)
    from closes_extend [OF this _ e] n(3) show ?thesis by (simp add: closes_ok_def P' len)
  qed (use step(3) in \<open>simp_all add: closes_ok_def\<close>)
  then show ?case using step(2,3) by (auto simp: closes_ok_def elim!: process_stepE)
qed


section \<open>The end of a process\<close>

definition phase_rank :: "phase \<Rightarrow> nat" where
  "phase_rank ph = (case ph of Serving \<Rightarrow> 8 | ShuttingDown \<Rightarrow> 7 | Stopping \<Rightarrow> 6 | Closing n \<Rightarrow> Suc (4 - n) | Exited _ \<Rightarrow> 0)"

lemma settle_terminates: "wf {(P', P :: 'a tasks_world_scheme process). settle_step lib P P'}"
proof (rule wf_subset)
  let ?f = "\<lambda>P :: 'a tasks_world_scheme process. (phase_rank (proc_phase P), proc_pool P)"
  show "wf (inv_image (less_than <*lex*> {(p', p). advance p p'}) ?f)"
    by (intro wf_inv_image wf_lex_prod wf_less_than advance_terminates)
  show "{(P', P). settle_step lib P P'} \<subseteq> inv_image (less_than <*lex*> {(p', p). advance p p'}) ?f"
    by (auto simp: phase_rank_def elim!: settle_stepE)
qed

lemma all_done_under_way: "all_done p \<Longrightarrow> under_way p = []"
  by (auto simp: all_done_def under_way_def filter_empty_conv is_finished_iff)

lemma settle_stuck:
  assumes stuck: "\<nexists>P'. settle_step lib P P'" and ends: "http_Shutdown_returns lib []" "grpc_GracefulStop_returns lib []"
    and ok: "phase_ok lib svc P" and ph: "proc_phase P \<noteq> Serving"
  shows "\<exists>r. proc_phase P = Exited r"
proof (rule ccontr)
  assume no: "\<nexists>r. proc_phase P = Exited r"
  then have live: "is_live P" by (auto simp: is_live_def split: phase.split)
  then have "\<nexists>p'. advance (proc_pool P) p'" using stuck thread_advances by blast
  then have none: "under_way (proc_pool P) = []" by (intro all_done_under_way stuck_all_done)
  show False
  proof (cases "proc_phase P")
    case ShuttingDown
    with shutdown_returns none ends(1) stuck show False by metis
  next
    case Stopping
    with stop_returns none ends(2) stuck show False by metis
  next
    case (Closing n)
    then have n: "proc_service P = Some svc" "n \<le> 4" using ok by (auto simp: phase_ok_def)
    show False
    proof (cases "n = 4")
      case True
      have "settle_step lib P (P\<lparr>proc_phase := Exited None\<rparr>)" using True by (intro main_returns [OF Closing n(1)]) simp
      with stuck show False by blast
    next
      case False
      with n(2) closes [OF Closing n(1) _ prod.collapse [symmetric], of lib] stuck show False by simp
    qed
  qed (use no ph in blast)+
qed

text \<open>A settling process never fails, and keeps what its threads have answered.\<close>

lemma settle_keeps:
  assumes "settle_step lib P P'"
  shows "(\<forall>c x. (c, Finish x) \<in> set (pool_threads (proc_pool P)) \<longrightarrow> (c, Finish x) \<in> set (pool_threads (proc_pool P')))
    \<and> (proc_phase P' = Exited r \<longrightarrow> proc_phase P \<noteq> Exited r \<longrightarrow> r = None)"
proof -
  have "(c, Finish x) \<in> set (pool_threads p')" if adv: "advance p p'" and fin: "(c, Finish x) \<in> set (pool_threads p)"
    for p p' :: "'a tasks_world_scheme service_pool" and c x
    using adv
  proof (rule advanceE)
    fix i d f h assume i: "i < length (pool_threads p)" "pool_threads p ! i = (d, Act f h)"
      and p': "p' = p\<lparr>pool_world := f (pool_world p), pool_threads := (pool_threads p)[i := (d, h (pool_world p))]\<rparr>"
    obtain k where k: "k < length (pool_threads p)" "pool_threads p ! k = (c, Finish x)" using fin by (auto simp: in_set_conv_nth)
    with i have "k \<noteq> i" by auto
    with k have "(pool_threads p)[i := (d, h (pool_world p))] ! k = (c, Finish x)" by simp
    moreover have "k < length ((pool_threads p)[i := (d, h (pool_world p))])" using k(1) by simp
    ultimately have "(c, Finish x) \<in> set ((pool_threads p)[i := (d, h (pool_world p))])" by (metis nth_mem)
    then show ?thesis by (simp add: p')
  qed
  with assms show ?thesis by (auto elim!: settle_stepE)
qed


lemma settles_exit:
  assumes "(settle_step lib)\<^sup>*\<^sup>* P P'" and "is_live P" and "proc_phase P' = Exited r"
  shows "r = None"
  using assms(1,3)
proof (induction rule: rtranclp_induct)
  case base
  then show ?case using assms(2) by (simp add: is_live_def)
next
  case (step Q P')
  then show ?case using settle_keeps [OF step(2), of r] by (cases "proc_phase Q = Exited r") auto
qed

lemma settles_keep_answers:
  "(settle_step lib)\<^sup>*\<^sup>* P P' \<Longrightarrow> (c, Finish x) \<in> set (pool_threads (proc_pool P)) \<Longrightarrow>
     (c, Finish x) \<in> set (pool_threads (proc_pool P'))"
  by (induction rule: rtranclp_induct) (use settle_keeps in blast)+

lemma settles_phase_ok: "(settle_step lib)\<^sup>*\<^sup>* P P' \<Longrightarrow> phase_ok lib svc P \<Longrightarrow> phase_ok lib svc P'"
  by (induction rule: rtranclp_induct) (auto intro: settle_phase_ok)

lemma settle_signalled: "settle_step lib P P' \<Longrightarrow> proc_phase P \<noteq> Serving \<Longrightarrow> proc_phase P' \<noteq> Serving"
  by (erule settle_stepE) simp_all

lemma settles_signalled: "(settle_step lib)\<^sup>*\<^sup>* P P' \<Longrightarrow> proc_phase P \<noteq> Serving \<Longrightarrow> proc_phase P' \<noteq> Serving"
  by (induction rule: rtranclp_induct) (auto dest: settle_signalled)

lemma settles_somewhere: "\<exists>P'. (settle_step lib)\<^sup>*\<^sup>* P P' \<and> (\<nexists>P''. settle_step lib P' P'')"
proof (induction P rule: wf_induct_rule [OF settle_terminates [of lib]])
  case (1 P)
  show ?case
  proof (cases "\<exists>P'. settle_step lib P P'")
    case True
    then obtain P' where "settle_step lib P P'" by blast
    with 1 show ?thesis by (blast intro: converse_rtranclp_into_rtranclp)
  qed blast
qed

text \<open>While the process serves, its pool behaves like a pool without a process.\<close>

lemma serving_pool:
  fixes P :: "'a tasks_world_scheme process"
  assumes "(pool_step (main_threads ext cfg svc))\<^sup>*\<^sup>* (proc_pool P) p" and "proc_phase P = Serving" "proc_service P = Some svc"
  shows "(process_step lib ext cfg)\<^sup>*\<^sup>* P (P\<lparr>proc_pool := p\<rparr>)"
  using assms(1)
proof (induction rule: rtranclp_induct)
  case (step p p')
  have "process_step lib ext cfg (P\<lparr>proc_pool := p\<rparr>) (P\<lparr>proc_pool := p'\<rparr>)"
    using step(2)
  proof (rule pool_stepE)
    assume "advance p p'"
    then have "settle_step lib (P\<lparr>proc_pool := p\<rparr>) ((P\<lparr>proc_pool := p\<rparr>)\<lparr>proc_pool := p'\<rparr>)"
      by (intro thread_advances) (simp_all add: is_live_def assms(2))
    then show ?thesis by (intro settles) simp
  next
    fix req assume "p' = enter (main_threads ext cfg svc) (Rpc req) p" "rpc_ok req"
    then show ?thesis using rpc_comes [of "P\<lparr>proc_pool := p\<rparr>" svc req lib ext cfg] assms(2,3) by simp
  next
    fix t assume "p' = enter (main_threads ext cfg svc) (Delivery t) p" "t \<in> set (tasks (pool_world p))"
    then show ?thesis using delivery_comes [of "P\<lparr>proc_pool := p\<rparr>" svc t lib ext cfg] assms(2,3) by (simp add: is_live_def)
  qed
  with step.IH show ?case by (rule rtranclp.rtrancl_into_rtrancl)
qed simp

lemma process_exited_stuck: "proc_phase P = Exited r \<Longrightarrow> \<not> process_step lib ext cfg P P'"
  by (auto simp: is_live_def elim!: process_stepE settle_stepE)

lemma process_step_live: "process_step lib ext cfg P P' \<Longrightarrow> is_live P"
proof (cases "proc_phase P")
  case (Exited r)
  then show "process_step lib ext cfg P P' \<Longrightarrow> is_live P" using process_exited_stuck by blast
qed (simp_all add: is_live_def)

lemma exit_step:
  assumes "process_step lib ext cfg P P'" and "proc_phase P' = Exited (Some msg)"
  shows "\<exists>e. msg = ''Server error: '' @ error_text e"
proof -
  have "\<not> settle_step lib P P'"
  proof
    assume s: "settle_step lib P P'"
    have "proc_phase P \<noteq> Exited (Some msg)" using assms(1) process_exited_stuck by blast
    with settle_keeps [OF s, of "Some msg"] assms(2) show False by blast
  qed
  with assms show ?thesis by (auto elim!: process_stepE simp: is_live_def)
qed

lemma start_outcome:
  fixes w :: "'a tasks_world_scheme"
  assumes "proc_phase (main_start lib ext cfg w) = Exited r"
  shows "\<exists>msg. r = Some msg \<and> (fst (run_state (main_init ext cfg) w) = Inl msg \<or> (\<exists>e. net_Listen lib (GRPCPort cfg) = Some e
    \<and> msg = ''Failed to listen on port '' @ show_int (GRPCPort cfg) @ '': '' @ error_text e))"
  using assms by (auto simp: main_start_def split: prod.splits sum.splits option.splits)

text \<open>The failures a start may meet, in their order.\<close>

definition start_failures :: "net_lib \<Rightarrow> externals \<Rightarrow> config \<Rightarrow> 'a tasks_world_scheme \<Rightarrow> (string \<times> go_error option) list" where
  "start_failures lib ext cfg w =
     [(''Failed to initialize DogStatsD client: '', if DatadogStatsdAddr cfg = [] then None else ext_statsd_error ext),
      (''Failed to initialize storage: '',
        if GCSBucket cfg = [] then None else fst (run_state (NewGCSStore (ext_lib ext) (main_gcs cfg) (ext_gcs_error ext)) w)),
      (''Failed to initialize pubsub backend: '',
        if QueueBackend cfg \<noteq> ''pubsub'' then None
        else if PubSubProject cfg = [] then Some (Opaque ''pubsub: project is required'')
        else map_option (wrap_error ''pubsub: create client'') (ext_pubsub_error ext)),
      (''Failed to initialize Cloud Tasks scheduler: '',
        if CloudTasksProject cfg = [] then None
        else map_option (wrap_error ''scheduler: failed to create Cloud Tasks client'') (ext_tasks_error ext)),
      (''Failed to listen on port '' @ show_int (GRPCPort cfg) @ '': '', net_Listen lib (GRPCPort cfg))]"

lemma start_phase:
  fixes w :: "'a tasks_world_scheme"
  shows "proc_phase (main_start lib ext cfg w) =
    (case concat (map (\<lambda>(what, failure). case failure of None \<Rightarrow> [] | Some e \<Rightarrow> [what @ error_text e]) (start_failures lib ext cfg w)) of
       [] \<Rightarrow> Serving
     | msg # _ \<Rightarrow> Exited (Some msg))"
proof -
  have statsd: "init_statsd ext cfg = (case (if DatadogStatsdAddr cfg = [] then None else ext_statsd_error ext) of
      None \<Rightarrow> Inr () | Some e \<Rightarrow> Inl (''Failed to initialize DogStatsD client: '' @ error_text e))"
    by (simp add: init_statsd_def)
  obtain e v where new: "run_state (NewGCSStore (ext_lib ext) (main_gcs cfg) (ext_gcs_error ext)) w = (e, v)" by fastforce
  have "\<exists>(S :: 'a tasks_world_scheme store) u. run_state (init_store ext cfg) w =
      (case (if GCSBucket cfg = [] then None else e) of
        None \<Rightarrow> Inr S | Some e \<Rightarrow> Inl (''Failed to initialize storage: '' @ error_text e), u)"
    by (cases "GCSBucket cfg = []"; cases e) (simp_all add: init_store_def new NewMemoryStore_def)
  then obtain S :: "'a tasks_world_scheme store" and u where store: "run_state (init_store ext cfg) w =
      (case (if GCSBucket cfg = [] then None else e) of
        None \<Rightarrow> Inr S | Some e \<Rightarrow> Inl (''Failed to initialize storage: '' @ error_text e), u)" by blast
  have "\<exists>B :: 'a tasks_world_scheme backend. init_backend ext cfg =
      (case (if QueueBackend cfg \<noteq> ''pubsub'' then None
        else if PubSubProject cfg = [] then Some (Opaque ''pubsub: project is required'')
        else map_option (wrap_error ''pubsub: create client'') (ext_pubsub_error ext)) of
        None \<Rightarrow> Inr B | Some e \<Rightarrow> Inl (''Failed to initialize pubsub backend: '' @ error_text e))"
    by (cases "QueueBackend cfg = ''pubsub''"; cases "PubSubProject cfg = []"; cases "ext_pubsub_error ext")
      (simp_all add: init_backend_def main_pubsub_def NewPubSubBackend_def)
  then obtain B :: "'a tasks_world_scheme backend" where backend: "init_backend ext cfg =
      (case (if QueueBackend cfg \<noteq> ''pubsub'' then None
        else if PubSubProject cfg = [] then Some (Opaque ''pubsub: project is required'')
        else map_option (wrap_error ''pubsub: create client'') (ext_pubsub_error ext)) of
        None \<Rightarrow> Inr B | Some e \<Rightarrow> Inl (''Failed to initialize pubsub backend: '' @ error_text e))" by blast
  have "\<exists>T :: 'a tasks_world_scheme scheduler. init_scheduler ext cfg =
      (case (if CloudTasksProject cfg = [] then None
        else map_option (wrap_error ''scheduler: failed to create Cloud Tasks client'') (ext_tasks_error ext)) of
        None \<Rightarrow> Inr T | Some e \<Rightarrow> Inl (''Failed to initialize Cloud Tasks scheduler: '' @ error_text e))"
    by (cases "CloudTasksProject cfg = []"; cases "ext_tasks_error ext")
      (simp_all add: init_scheduler_def main_cloud_tasks_def NewCloudTasksScheduler_def)
  then obtain T :: "'a tasks_world_scheme scheduler" where sched: "init_scheduler ext cfg =
      (case (if CloudTasksProject cfg = [] then None
        else map_option (wrap_error ''scheduler: failed to create Cloud Tasks client'') (ext_tasks_error ext)) of
        None \<Rightarrow> Inr T | Some e \<Rightarrow> Inl (''Failed to initialize Cloud Tasks scheduler: '' @ error_text e))" by blast
  show ?thesis
    unfolding main_start_def main_init_def statsd start_failures_def new fst_conv
    by (simp add: store backend sched split: option.split)
qed

lemma start_pool: "pool_threads (proc_pool (main_start lib ext cfg w)) = []" "proc_closed (main_start lib ext cfg w) = []"
  by (simp_all add: main_start_def idle_def split: prod.split sum.split)

lemma start_serves:
  fixes w :: "'a tasks_world_scheme"
  assumes "is_live (main_start lib ext cfg w)"
  obtains svc w1 where "run_state (main_init ext cfg) w = (Inr svc, w1)"
  using assms by (auto simp: main_start_def is_live_def split: prod.splits sum.splits)


lemma exit_reasons:
  fixes w0 :: "'a tasks_world_scheme"
  assumes "(process_step lib ext cfg)\<^sup>*\<^sup>* (main_start lib ext cfg w0) P" and "proc_phase P = Exited r"
  shows "r = None \<and> proc_health P = Some HealthNotServing \<and> length (proc_closed P) = 4
    \<or> (\<exists>e. r = Some (''Server error: '' @ error_text e))
    \<or> P = main_start lib ext cfg w0 \<and> pool_threads (proc_pool P) = [] \<and> proc_closed P = []
      \<and> (\<exists>msg. r = Some msg \<and> (fst (run_state (main_init ext cfg) w0) = Inl msg \<or> (\<exists>e. net_Listen lib (GRPCPort cfg) = Some e
           \<and> msg = ''Failed to listen on port '' @ show_int (GRPCPort cfg) @ '': '' @ error_text e)))"
proof (cases "P = main_start lib ext cfg w0")
  case True
  with start_outcome [of lib ext cfg w0 r] assms(2) start_pool [of lib ext cfg w0] show ?thesis by simp
next
  case False
  obtain Q where Q: "process_step lib ext cfg Q P"
    using assms(1) by (rule rtranclp.cases) (use False in auto)
  show ?thesis
  proof (cases r)
    case (Some msg)
    with exit_step [OF Q] assms(2) show ?thesis by simp
  next
    case None
    obtain Q' where "process_step lib ext cfg (main_start lib ext cfg w0) Q'"
      using assms(1) by (rule converse_rtranclpE) (use False in auto)
    then have "is_live (main_start lib ext cfg w0)"
      by (rule process_step_live)
    then obtain svc w1 where "run_state (main_init ext cfg) w0 = (Inr svc, w1)" by (rule start_serves)
    from start_phase_ok [OF this assms(1)] assms(2) None show ?thesis by (simp add: phase_ok_def)
  qed
qed


section \<open>Properties\<close>

text \<open>
  C3. A process that is told to shut down and exits by itself has answered every RPC that
  ever came in, and every success it answered stands: the job is in a confirmed message or
  in a task. It reported that it is not serving, and closed the scheduler, the backend, the
  store and the statsd client, each once and in this order, with what each of them reported.
  This relies on \<open>GracefulStop\<close> waiting for the RPCs that are under way.
\<close>

lemma graceful_exit_loses_nothing:
  fixes w0 w1 :: "'a tasks_world_scheme"
  assumes "run_state (main_init ext cfg) w0 = (Inr svc, w1)" and "fresh_start ext w1"
    and "(process_step lib ext cfg)\<^sup>*\<^sup>* (main_start lib ext cfg w0) P"
    and "proc_phase P = Exited None" and "waits_for_rpcs lib"
  shows "proc_health P = Some HealthNotServing
    \<and> (\<exists>n. proc_closed P =
         [if CloudTasksProject cfg \<noteq> [] then ext_tasks_close ext else None,
          if QueueBackend cfg = ''pubsub'' then ext_pubsub_close ext else None,
          if GCSBucket cfg \<noteq> [] then map_option fault_error (gcs_faults w1 n) else None,
          if DatadogStatsdAddr cfg \<noteq> [] then ext_statsd_close ext else None])
    \<and> (\<forall>req w t. ((Rpc req, w), t) \<in> set (pool_threads (proc_pool P)) \<longrightarrow> (\<exists>x. t = Finish x))
    \<and> (\<forall>ctx r w resp. ((Rpc (RpcEnqueue ctx r), w), Finish (RpcAnswer (EnqueueReply (Inr resp)))) \<in> set (pool_threads (proc_pool P)) \<longrightarrow>
         (\<exists>j. job_of (svc_server svc) (shadowFromContext ctx) r j \<and> job_ID j = enqueue_response_JobId resp
            \<and> (main_taken ext cfg j (pool_world (proc_pool P)) \<or> main_kept ext cfg j (pool_world (proc_pool P)))))"
proof -
  have ph: "phase_ok lib svc P" by (rule start_phase_ok [OF assms(1,3)])
  have answers: "pool_answers ext cfg svc (proc_pool P)" by (rule main_process_answers [OF assms(1-3)])
  have closed: "\<exists>n. proc_closed P = client_closes ext cfg (gcs_faults w1) n"
    using process_closes_ok [OF assms(1-3)] ph assms(4) by (auto simp: closes_ok_def phase_ok_def client_closes_def)
  have "\<exists>j. job_of (svc_server svc) (shadowFromContext ctx) r j \<and> job_ID j = enqueue_response_JobId resp
      \<and> (main_taken ext cfg j (pool_world (proc_pool P)) \<or> main_kept ext cfg j (pool_world (proc_pool P)))"
    if t: "((Rpc (RpcEnqueue ctx r), w), Finish (RpcAnswer (EnqueueReply (Inr resp)))) \<in> set (pool_threads (proc_pool P))" for ctx r w resp
  proof -
    have "accepted (svc_server svc) (handed_on (svc_server svc) (main_taken ext cfg) (main_kept ext cfg)) w ctx r resp (pool_world (proc_pool P))"
      using answers t unfolding pool_answers_def answered_def by force
    then show ?thesis unfolding accepted_def handed_on_def by blast
  qed
  then show ?thesis using ph assms(4,5) closed [unfolded client_closes_def]
    by (intro conjI) (auto simp: phase_ok_def rpcs_finished_def is_finished_iff)
qed

text \<open>
  C10. Once a process was told to shut down and nothing more comes in, it comes to an end
  however its threads are scheduled: it can take no infinite run of steps, and where it can
  take no more it has exited, by itself unless \<open>Serve\<close> had failed before.
\<close>

lemma shutdown_completes:
  fixes w0 w1 :: "'a tasks_world_scheme"
  assumes "run_state (main_init ext cfg) w0 = (Inr svc, w1)"
    and "(process_step lib ext cfg)\<^sup>*\<^sup>* (main_start lib ext cfg w0) P" and "proc_phase P \<noteq> Serving"
    and "http_Shutdown_returns lib []" and "grpc_GracefulStop_returns lib []"
  shows "wf {(P', P :: 'a tasks_world_scheme process). settle_step lib P P'}
    \<and> (\<forall>P'. (settle_step lib)\<^sup>*\<^sup>* P P' \<longrightarrow> (\<nexists>P''. settle_step lib P' P'') \<longrightarrow>
         (\<exists>r. proc_phase P' = Exited r \<and> (is_live P \<longrightarrow> r = None)))"
proof (intro conjI allI impI settle_terminates)
  fix P' assume run: "(settle_step lib)\<^sup>*\<^sup>* P P'" and stuck: "\<nexists>P''. settle_step lib P' P''"
  have "phase_ok lib svc P'" by (rule settles_phase_ok [OF run start_phase_ok [OF assms(1,2)]])
  from settle_stuck [OF stuck assms(4,5) this settles_signalled [OF run assms(3)]] settles_exit [OF run]
  show "\<exists>r. proc_phase P' = Exited r \<and> (is_live P \<longrightarrow> r = None)" by blast
qed

text \<open>
  C36. What the process does when it is started, from the first check that fails: the clients it
  is configured for are made in the order statsd, store, Pub/Sub, Cloud Tasks, then the
  port is opened. The first failure ends it with its own text and nothing is served; without
  one it serves. An unknown backend is no failure.
\<close>

lemma process_start_outcome:
  fixes w :: "'a tasks_world_scheme"
  shows "proc_phase (main_start lib ext cfg w) =
    (case concat (map (\<lambda>(what, failure). case failure of None \<Rightarrow> [] | Some e \<Rightarrow> [what @ error_text e])
       [(''Failed to initialize DogStatsD client: '', if DatadogStatsdAddr cfg = [] then None else ext_statsd_error ext),
        (''Failed to initialize storage: '',
          if GCSBucket cfg = [] then None else fst (run_state (NewGCSStore (ext_lib ext) (main_gcs cfg) (ext_gcs_error ext)) w)),
        (''Failed to initialize pubsub backend: '',
          if QueueBackend cfg \<noteq> ''pubsub'' then None
          else if PubSubProject cfg = [] then Some (Opaque ''pubsub: project is required'')
          else map_option (wrap_error ''pubsub: create client'') (ext_pubsub_error ext)),
        (''Failed to initialize Cloud Tasks scheduler: '',
          if CloudTasksProject cfg = [] then None
          else map_option (wrap_error ''scheduler: failed to create Cloud Tasks client'') (ext_tasks_error ext)),
        (''Failed to listen on port '' @ show_int (GRPCPort cfg) @ '': '', net_Listen lib (GRPCPort cfg))]) of
       [] \<Rightarrow> Serving
     | msg # _ \<Rightarrow> Exited (Some msg))"
  using start_phase [of lib ext cfg w] unfolding start_failures_def .

text \<open>
  C11. A process exits in three ways only. It returns from \<open>main\<close>, with its clients closed;
  or \<open>Serve\<close> fails; or it never came up, since a client could not be made or the port not
  be opened, and then no call ever came in and nothing is closed, whatever had been opened.
\<close>

lemma process_exit_reasons:
  fixes w0 :: "'a tasks_world_scheme"
  assumes "(process_step lib ext (Load frac getenv))\<^sup>*\<^sup>* (main_run lib ext frac getenv w0) P" and "proc_phase P = Exited r"
  shows "r = None \<and> proc_health P = Some HealthNotServing \<and> length (proc_closed P) = 4
    \<or> (\<exists>e. r = Some (''Server error: '' @ error_text e))
    \<or> P = main_run lib ext frac getenv w0 \<and> pool_threads (proc_pool P) = [] \<and> proc_closed P = []
      \<and> (\<exists>msg. r = Some msg \<and> (fst (run_state (main_init ext (Load frac getenv)) w0) = Inl msg
         \<or> (\<exists>e. net_Listen lib (GRPCPort (Load frac getenv)) = Some e
           \<and> msg = ''Failed to listen on port '' @ show_int (GRPCPort (Load frac getenv)) @ '': '' @ error_text e)))"
  using exit_reasons [OF assms(1) [unfolded main_run_def] assms(2)] by (simp add: main_run_def)


section \<open>Witnesses\<close>

definition sample_net :: net_lib where
  "sample_net = \<lparr>net_Listen = (\<lambda>_. None), http_Shutdown_returns = (\<lambda>_. True),
     grpc_GracefulStop_returns = list_all (\<lambda>c. case c of Rpc _ \<Rightarrow> False | Delivery _ \<Rightarrow> True)\<rparr>"

definition sample_busy_net :: net_lib where
  "sample_busy_net = sample_net\<lparr>net_Listen := (\<lambda>_. Some (Opaque ''address already in use''))\<rparr>"

lemma sample_net_waits: "waits_for_rpcs sample_net"
  by (force simp: waits_for_rpcs_def sample_net_def list_all_iff)

abbreviation sample_process :: "tasks_world process \<Rightarrow> bool" where
  "sample_process \<equiv> (process_step sample_net sample_externals sample_gcs_config)\<^sup>*\<^sup>*
     (main_start sample_net sample_externals sample_gcs_config sample_tasks_world)"

text \<open>A process that was told to shut down after it answered one call.\<close>

lemma sample_shutdown:
  obtains P resp where "sample_process P" and "proc_phase P = ShuttingDown"
    and "((Rpc (RpcEnqueue None sample_now), sample_gcs_start), Finish (RpcAnswer (EnqueueReply (Inr resp)))) \<in> set (pool_threads (proc_pool P))"
proof -
  obtain resp w where run: "run_state (serve sample_gcs_service (RpcEnqueue None sample_now)) sample_gcs_start = (EnqueueReply (Inr resp), w)"
    using sample_gcs_now .
  let ?p = "one_call (RpcEnqueue None sample_now) sample_gcs_start (EnqueueReply (Inr resp)) w"
  let ?S = "main_start sample_net sample_externals sample_gcs_config sample_tasks_world"
  have start: "proc_pool ?S = idle sample_gcs_start" "proc_phase ?S = Serving" "proc_service ?S = Some sample_gcs_service"
    by (simp_all add: main_start_def sample_gcs_init sample_net_def)
  from rpc_pool [OF sample_gcs_init sample_request_ok run]
  have "sample_process (?S\<lparr>proc_pool := ?p\<rparr>)" using start by (intro serving_pool) simp_all
  moreover have "process_step sample_net sample_externals sample_gcs_config (?S\<lparr>proc_pool := ?p\<rparr>)
      ((?S\<lparr>proc_pool := ?p\<rparr>)\<lparr>proc_phase := ShuttingDown, proc_health := Some HealthNotServing\<rparr>)"
    by (rule signalled) (simp add: start)
  ultimately have "sample_process ((?S\<lparr>proc_pool := ?p\<rparr>)\<lparr>proc_phase := ShuttingDown, proc_health := Some HealthNotServing\<rparr>)"
    by (rule rtranclp.rtrancl_into_rtrancl)
  then show ?thesis by (rule that) simp_all
qed

lemma sample_settles:
  assumes "(settle_step sample_net)\<^sup>*\<^sup>* P P'" and "sample_process P"
  shows "sample_process P'"
  using assms by (induction rule: rtranclp_induct) (auto intro: settles rtranclp.rtrancl_into_rtrancl)

lemma sample_close_fields:
  "gcs_faults sample_gcs_start = (\<lambda>_. None)" "DatadogStatsdAddr sample_gcs_config = []"
  by (simp_all add: sample_gcs_start_def sample_tasks_world_def sample_gcs_config_def sample_config_def)

lemma graceful_exit_loses_nothing_witness:
  "\<exists>P j. sample_process P \<and> proc_phase P = Exited None \<and> proc_closed P = [None, None, None, None] \<and> job_Payload j = Some [123, 125]
    \<and> (main_taken sample_externals sample_gcs_config j (pool_world (proc_pool P))
       \<or> main_kept sample_externals sample_gcs_config j (pool_world (proc_pool P)))"
proof -
  obtain P resp where P: "sample_process P" "proc_phase P = ShuttingDown"
    "((Rpc (RpcEnqueue None sample_now), sample_gcs_start), Finish (RpcAnswer (EnqueueReply (Inr resp)))) \<in> set (pool_threads (proc_pool P))"
    by (rule sample_shutdown)
  obtain P' where P': "(settle_step sample_net)\<^sup>*\<^sup>* P P'" "\<nexists>P''. settle_step sample_net P' P''"
    using settles_somewhere by blast
  note reach = sample_settles [OF P'(1) P(1)]
  have "\<exists>r. proc_phase P' = Exited r"
    by (rule settle_stuck [OF P'(2) _ _ start_phase_ok [OF sample_gcs_init reach] settles_signalled [OF P'(1)]])
      (simp_all add: sample_net_def P(2))
  then have exited: "proc_phase P' = Exited None" using settles_exit [OF P'(1)] P(2) by (auto simp: is_live_def)
  note exit = graceful_exit_loses_nothing [OF sample_gcs_init sample_gcs_fresh reach exited sample_net_waits]
  have "proc_closed P' = [None, None, None, None]" using exit [THEN conjunct2, THEN conjunct1]
    by (elim exE) (simp add: sample_close_fields cong: if_cong split: if_splits)
  moreover obtain j where "job_of (svc_server sample_gcs_service) (shadowFromContext None) sample_now j"
    "main_taken sample_externals sample_gcs_config j (pool_world (proc_pool P'))
       \<or> main_kept sample_externals sample_gcs_config j (pool_world (proc_pool P'))"
    using exit [THEN conjunct2, THEN conjunct2, THEN conjunct2] settles_keep_answers [OF P'(1) P(3)] by blast
  ultimately show ?thesis using reach exited
    by (intro exI [of _ P'] exI [of _ j]) (simp add: job_of_def sample_now_def)
qed

lemma shutdown_completes_witness:
  "\<exists>P P'. sample_process P \<and> proc_phase P = ShuttingDown \<and> (settle_step sample_net)\<^sup>*\<^sup>* P P' \<and> proc_phase P' = Exited None"
proof -
  obtain P :: "tasks_world process" where P: "sample_process P" "proc_phase P = ShuttingDown" by (rule sample_shutdown)
  obtain P' where P': "(settle_step sample_net)\<^sup>*\<^sup>* P P'" "\<nexists>P''. settle_step sample_net P' P''"
    using settles_somewhere by blast
  have net: "http_Shutdown_returns sample_net []" "grpc_GracefulStop_returns sample_net []" by (simp_all add: sample_net_def)
  have "proc_phase P \<noteq> Serving" "is_live P" using P(2) by (simp_all add: is_live_def)
  with shutdown_completes [OF sample_gcs_init P(1) _ net] P' have "proc_phase P' = Exited None" by blast
  with P P'(1) show ?thesis by blast
qed

lemma process_exit_reasons_witness:
  "proc_phase (main_run sample_busy_net sample_externals (\<lambda>_ _ _. 0) (\<lambda>_. '' '') sample_tasks_world)
    = Exited (Some ''Failed to listen on port 50051: address already in use'')
   \<and> proc_closed (main_run sample_busy_net sample_externals (\<lambda>_ _ _. 0) (\<lambda>_. '' '') sample_tasks_world) = []"
proof -
  let ?S = "main_run sample_busy_net sample_externals (\<lambda>_ _ _. 0) (\<lambda>_. '' '') sample_tasks_world"
  have blank: "cenv_Get (\<lambda>_. '' '') key = []" for key unfolding cenv_Get_def by code_simp
  have port: "GRPCPort (Load (\<lambda>_ _ _. 0) (\<lambda>_. '' '')) = 50051" by (simp add: Load_def cenv_GetIntOrDefault_def blank Atoi_def)
  have shown: "show_int 50051 = ''50051''"
    by (simp add: show_int_def show_nat.simps digit_char_def char_of_def bit_0)
  have ph: "proc_phase ?S = Exited (Some ''Failed to listen on port 50051: address already in use'')"
    unfolding main_run_def main_start_def blank_init [OF blank] by (simp add: port shown sample_busy_net_def sample_net_def)
  have "proc_closed ?S = []"
    using process_exit_reasons [OF rtranclp.rtrancl_refl ph]
  proof (elim disjE exE conjE)
    fix e assume "Some ''Failed to listen on port 50051: address already in use'' = Some (''Server error: '' @ error_text e)"
    then show ?thesis by simp
  qed simp_all
  with ph show ?thesis ..
qed

end
