(* ===== verification/Recovery.thy ===== *)
theory Recovery
  imports Process
begin

text \<open>
  Restarts: what a process that is started on the bucket and prefix of an earlier one knows, wherever
  the earlier one was when it ended.
\<close>


section \<open>The bucket and the registries agree\<close>

text \<open>
  What the recovery needs of the storage client: protojson reads back what it wrote, an upload
  that fails leaves the object as it was or replaced as a whole, and no fault claims that an
  object does not exist.
\<close>

definition durable_client :: "gcs_lib \<Rightarrow> 'a gcs_world_scheme \<Rightarrow> bool" where
  "durable_client lib w \<longleftrightarrow> codec_ok lib \<and> atomic_faults w \<and> truthful_faults w"

definition durable_inv :: "gcs_lib \<Rightarrow> gcs_config \<Rightarrow> 'a gcs_world_scheme \<Rightarrow> bool" where
  "durable_inv lib gc w \<longleftrightarrow> gcs_inv lib w \<and> durable_client lib w \<and> synced lib gc w"

lemma durable_upd [simp]:
  "durable_inv lib gc (w\<lparr>choice_pos := n\<rparr>) = durable_inv lib gc w"
  "durable_inv lib gc (w\<lparr>gcs_calls := n\<rparr>) = durable_inv lib gc w"
  "durable_inv lib gc (w\<lparr>entropy_pos := n\<rparr>) = durable_inv lib gc w"
  by (simp_all add: durable_inv_def durable_client_def gcs_inv_def store_inv_def foreign_errors_def clean_faults_def atomic_faults_def
      truthful_faults_def synced_def)

lemma durable_create_producer:
  assumes inv: "durable_inv lib gc w" and run: "run_state (GCSStore_CreateProducer lib gc p) w = ((p', e), w')"
  shows "durable_inv lib gc w'"
proof -
  have "gcs_inv lib w'" using gcs_create_producer [OF _ run] inv by (simp add: durable_inv_def)
  moreover have "store_inv w' \<and> synced lib gc w' \<and> gcs_faults w' = gcs_faults w"
    by (rule synced_create_producer [OF _ _ _ _ run])
      (use inv in \<open>auto simp: durable_inv_def durable_client_def gcs_inv_def\<close>)
  ultimately show ?thesis using inv by (simp add: durable_inv_def durable_client_def truthful_faults_def atomic_faults_def)
qed

lemma durable_create_job_type:
  assumes inv: "durable_inv lib gc w" and run: "run_state (GCSStore_CreateJobType lib gc j) w = ((j', e), w')"
  shows "durable_inv lib gc w'"
proof -
  have "gcs_inv lib w'" using gcs_create_job_type [OF _ run] inv by (simp add: durable_inv_def)
  moreover have "store_inv w' \<and> synced lib gc w' \<and> gcs_faults w' = gcs_faults w"
    by (rule synced_create_job_type [OF _ _ _ _ run])
      (use inv in \<open>auto simp: durable_inv_def durable_client_def gcs_inv_def\<close>)
  ultimately show ?thesis using inv by (simp add: durable_inv_def durable_client_def truthful_faults_def atomic_faults_def)
qed

lemma durable_gcs: "durable_inv lib gc w \<Longrightarrow> gcs_inv lib w"
  by (simp add: durable_inv_def)

interpretation durable: store_contract "gcs_store lib gc" "durable_inv lib gc"
  "\<lambda>w. map_of (producers w)" "\<lambda>w. map_of (jobTypes w)"
proof (unfold_locales, goal_cases)
  case (1 w p p' e w')
  then have "run_state (GCSStore_CreateProducer lib gc p) w = ((p', e), w')" by (simp add: gcs_store_def)
  from durable_create_producer [OF 1(1) this] gcs_create_producer [OF durable_gcs [OF 1(1)] this] show ?case by blast
next
  case (2 w i r w')
  then show ?case by (auto simp: gcs_store_def run_GCSStore_reads run_MemoryStore_reads split: option.splits)
next
  case (3 w rs w')
  from 3(2) have "w' = w\<lparr>choice_pos := Suc (choice_pos w)\<rparr>" by (auto simp: gcs_store_def run_GCSStore_reads run_MemoryStore_reads)
  with gcs.list_producers [OF durable_gcs [OF 3(1)] 3(2)] 3(1) show ?case by simp
next
  case (4 w j j' e w')
  then have "run_state (GCSStore_CreateJobType lib gc j) w = ((j', e), w')" by (simp add: gcs_store_def)
  from durable_create_job_type [OF 4(1) this] gcs_create_job_type [OF durable_gcs [OF 4(1)] this] show ?case by blast
next
  case (5 w i n rj w')
  then show ?case by (auto simp: gcs_store_def run_GCSStore_reads run_MemoryStore_reads split: option.splits)
next
  case (6 w i rjs w')
  from 6(2) have "w' = w\<lparr>choice_pos := Suc (choice_pos w)\<rparr>" by (auto simp: gcs_store_def run_GCSStore_reads run_MemoryStore_reads)
  with gcs.list_job_types [OF durable_gcs [OF 6(1)] 6(2)] 6(1) show ?case by simp
next
  case (7 w i p)
  show ?case by (rule gcs.prods_keyed [OF durable_gcs [OF 7(1)] 7(2)])
next
  case (8 w k j)
  show ?case by (rule gcs.types_keyed [OF durable_gcs [OF 8(1)] 8(2)])
next
  case (9 w k j)
  show ?case by (rule gcs.types_owned [OF durable_gcs [OF 9(1)] 9(2)])
qed

interpretation durable_deployed: deployed_store "gcs_store lib gc" "durable_inv lib gc"
proof unfold_locales
  fix p :: producer and j :: job_type and w w' :: "'a tasks_world_scheme" and x y
  show "run_state (store_CreateProducer (gcs_store lib gc) p) w = (x, w') \<Longrightarrow>
      published w' = published w \<and> tasks w' = tasks w \<and> publish_errors w' = publish_errors w \<and> clock w' = clock w
      \<and> gcs_faults w' = gcs_faults w"
    by (rule gcs_deployed.frame_create_producer)
  show "run_state (store_CreateJobType (gcs_store lib gc) j) w = (y, w') \<Longrightarrow>
      published w' = published w \<and> tasks w' = tasks w \<and> publish_errors w' = publish_errors w \<and> clock w' = clock w
      \<and> gcs_faults w' = gcs_faults w"
    by (rule gcs_deployed.frame_create_job_type)
  show "quietly (store_ListProducers (gcs_store lib gc) :: ('a tasks_world_scheme, _) state)"
    "quietly (store_ListJobTypes (gcs_store lib gc) i :: ('a tasks_world_scheme, _) state)" for i
    by (rule gcs_deployed.frame_lists)+
qed (simp_all add: durable_inv_def durable_client_def gcs_inv_def store_inv_def foreign_errors_def clean_faults_def atomic_faults_def
    truthful_faults_def synced_def)


section \<open>What a start leaves\<close>

lemma loadProducers_synced:
  assumes "truthful_faults w" and run: "run_state (loadProducers lib gc) w = (Inr ps, w')"
  shows "decodes exact (unmarshal_producers lib) (\<lambda>f. index_producers (producers_file_Producers f))
      (objects w) (object_handle gc producersFile) (index_producers ps) \<and> (\<exists>g. w' = w\<lparr>gcs_calls := g\<rparr>)"
  using assms by (auto simp: loadProducers_def new_reader_def read_all_def decodes_def truthful_faults_def
      split: option.splits sum.splits if_splits)

lemma loadJobTypes_synced:
  assumes "truthful_faults w" and run: "run_state (loadJobTypes lib gc) w = (Inr js, w')"
  shows "decodes exact (unmarshal_job_types lib) (\<lambda>f. index_job_types (job_types_file_JobTypes f))
      (objects w) (object_handle gc jobTypesFile) (index_job_types js) \<and> (\<exists>g. w' = w\<lparr>gcs_calls := g\<rparr>)"
  using assms by (auto simp: loadJobTypes_def new_reader_def read_all_def decodes_def truthful_faults_def
      split: option.splits sum.splits if_splits)

lemma NewGCSStore_synced:
  assumes t: "truthful_faults w" and run: "run_state (NewGCSStore lib gc e) w = (None, w')"
  shows "synced lib gc w' \<and> gcs_faults w' = gcs_faults w"
proof -
  define w0 where "w0 = w\<lparr>producers := [], jobTypes := []\<rparr>"
  have e: "e = None" using run by (cases e) (simp_all add: NewGCSStore_def)
  from run have ld: "run_state (load lib gc) w0 = (None, w')"
    by (auto simp: e run_NewGCSStore w0_def split: prod.splits)
  then obtain ps w1 js w2 where lp: "run_state (loadProducers lib gc) w0 = (Inr ps, w1)"
    and lj: "run_state (loadJobTypes lib gc) w1 = (Inr js, w2)" by (rule run_load_fails)
  have t0: "truthful_faults w0" using t by (simp add: truthful_faults_def w0_def)
  note p = loadProducers_synced [OF t0 lp]
  then obtain g where w1: "w1 = w0\<lparr>gcs_calls := g\<rparr>" by blast
  have "truthful_faults w1" using t0 by (simp add: w1 truthful_faults_def)
  note j = loadJobTypes_synced [OF this lj]
  then obtain h where w2: "w2 = w1\<lparr>gcs_calls := h\<rparr>" by blast
  have "w' = w2\<lparr>producers := index_producers ps, jobTypes := index_job_types js\<rparr>"
    using ld run_load [OF lp lj] by simp
  with p j show ?thesis by (simp add: synced_def w1 w2 w0_def)
qed

lemma main_init_store:
  fixes w :: "'a tasks_world_scheme"
  assumes init: "run_state (main_init ext cfg) w = (Inr svc, w')" and "GCSBucket cfg \<noteq> []"
  shows "run_state (NewGCSStore (ext_lib ext) (main_gcs cfg) (ext_gcs_error ext)) w = (None, w')
    \<and> svc_store svc = gcs_store (ext_lib ext) (main_gcs cfg)"
  using assms by (auto simp: main_init_def init_store_def wire_def split: sum.splits prod.splits option.splits)


lemma main_process_durable:
  fixes w0 w1 :: "'a tasks_world_scheme"
  assumes init: "run_state (main_init ext cfg) w0 = (Inr svc, w1)" and start: "fresh_start ext w1" and bucket: "GCSBucket cfg \<noteq> []"
    and client: "durable_client (ext_lib ext) w0"
    and reach: "(process_step lib ext cfg)\<^sup>*\<^sup>* (main_start lib ext cfg w0) P"
  shows "durable_inv (ext_lib ext) (main_gcs cfg) (pool_world (proc_pool P))"
proof -
  let ?I = "durable_inv (ext_lib ext) (main_gcs cfg)"
  have store: "run_state (NewGCSStore (ext_lib ext) (main_gcs cfg) (ext_gcs_error ext)) w0 = (None, w1)"
    "svc_store svc = gcs_store (ext_lib ext) (main_gcs cfg)" using main_init_store [OF init bucket] by auto
  have t: "truthful_faults w0" using client by (simp add: durable_client_def)
  have "?I w1" using NewGCSStore_synced [OF t store(1)] client start
    by (simp add: durable_inv_def durable_client_def gcs_inv_def fresh_start_def atomic_faults_def truthful_faults_def)
  moreover have "deployed_store (svc_store svc) ?I" unfolding store(2) by (rule durable_deployed.deployed_store_axioms)
  ultimately obtain b where "service_inv ?I b (pool_world (proc_pool P))"
    using main_process [OF init start reach, of ?I] by auto
  then show ?thesis by (simp add: service_inv_def)
qed


lemma main_gcs_cong: "GCSBucket cfg' = GCSBucket cfg \<Longrightarrow> GCSPrefix cfg' = GCSPrefix cfg \<Longrightarrow> main_gcs cfg' = main_gcs cfg"
  by (simp add: main_gcs_def)


section \<open>Property\<close>

text \<open>
  C4. Whatever a process was doing when it ended, be it a signal, a failure of \<open>Serve\<close>, a
  crash or nothing at all, a process that comes up on the same bucket and prefix has every
  entry of its registries; so every producer and job type whose creation was answered is known
  again, unchanged. It has no other entries when no failed upload wrote anything. This needs an
  upload to replace an object as a whole or not at all, even when it reports an error, and
  protojson to read back what it wrote.
\<close>

lemma restart_recovers_registrations:
  fixes w0 w1 w2 :: "'a tasks_world_scheme"
  assumes "run_state (main_init ext cfg) w0 = (Inr svc, w1)" and "fresh_start ext w1" and "GCSBucket cfg \<noteq> []"
    and "codec_ok (ext_lib ext)" and "atomic_faults w0" and "truthful_faults w0"
    and "(process_step lib ext cfg)\<^sup>*\<^sup>* (main_start lib ext cfg w0) P"
    and "run_state (main_init ext' cfg') (pool_world (proc_pool P)) = (Inr svc', w2)"
    and "ext_lib ext' = ext_lib ext" and "GCSBucket cfg' = GCSBucket cfg" and "GCSPrefix cfg' = GCSPrefix cfg"
  shows "map_of (producers (pool_world (proc_pool P))) \<subseteq>\<^sub>m map_of (producers w2)
    \<and> map_of (jobTypes (pool_world (proc_pool P))) \<subseteq>\<^sub>m map_of (jobTypes w2)
    \<and> (\<forall>c resp. (c, Finish (RpcAnswer (CreateProducerReply (Inr resp)))) \<in> set (pool_threads (proc_pool P)) \<longrightarrow>
         map_of (producers w2) (producer_ProducerId (create_producer_response_Producer resp)) = Some (create_producer_response_Producer resp))
    \<and> (\<forall>c resp. (c, Finish (RpcAnswer (CreateJobTypeReply (Inr resp)))) \<in> set (pool_threads (proc_pool P)) \<longrightarrow>
         map_of (jobTypes w2) (job_type_key (create_job_type_response_JobType resp)) = Some (create_job_type_response_JobType resp))
    \<and> (clean_faults w0 \<longrightarrow> map_of (producers w2) = map_of (producers (pool_world (proc_pool P)))
         \<and> map_of (jobTypes w2) = map_of (jobTypes (pool_world (proc_pool P))))"
proof -
  let ?w = "pool_world (proc_pool P)"
  have d: "durable_inv (ext_lib ext) (main_gcs cfg) ?w"
    by (rule main_process_durable [OF assms(1-3) _ assms(7)]) (simp add: durable_client_def assms(4-6))
  have run: "run_state (NewGCSStore (ext_lib ext) (main_gcs cfg) (ext_gcs_error ext')) ?w = (None, w2)"
    using main_init_store [OF assms(8)] assms(3) unfolding assms(9,10) main_gcs_cong [OF assms(10,11)] by blast
  then have "ext_gcs_error ext' = None" by (cases "ext_gcs_error ext'") (simp_all add: NewGCSStore_def)
  with run have run: "run_state (NewGCSStore (ext_lib ext) (main_gcs cfg) None) ?w = (None, w2)" by simp
  have "gcs_faults ?w = gcs_faults w1" using main_process_answers(2) [OF assms(1,2,7)] by (simp add: evolves_def)
  moreover have "gcs_faults w1 = gcs_faults w0"
    using NewGCSStore_synced [OF assms(6)] main_init_store [OF assms(1,3)] by blast
  ultimately have clean: "clean_faults w0 = clean_faults ?w" by (simp add: clean_faults_def)
  have maps: "map_of (producers ?w) \<subseteq>\<^sub>m map_of (producers w2) \<and> map_of (jobTypes ?w) \<subseteq>\<^sub>m map_of (jobTypes w2)
      \<and> (clean_faults ?w \<longrightarrow> map_of (producers w2) = map_of (producers ?w) \<and> map_of (jobTypes w2) = map_of (jobTypes ?w))"
    by (rule NewGCSStore_reloads [OF _ _ run]) (use d in \<open>simp_all add: durable_inv_def durable_client_def\<close>)
  then have keep: "map_of (producers ?w) k = Some p \<Longrightarrow> map_of (producers w2) k = Some p"
    "map_of (jobTypes ?w) k = Some j \<Longrightarrow> map_of (jobTypes w2) k = Some j" for k p j
    by (auto simp: map_le_def dom_def)
  have "pool_answers ext cfg svc (proc_pool P)" by (rule main_process_answers [OF assms(1,2,7)])
  then have a: "answered (svc_server svc) (main_taken ext cfg) (main_kept ext cfg) c x ?w"
    if "(c, Finish x) \<in> set (pool_threads (proc_pool P))" for c x using that by (cases c) (auto simp: pool_answers_def)
  have "map_of (producers w2) (producer_ProducerId (create_producer_response_Producer resp)) = Some (create_producer_response_Producer resp)"
    if "(c, Finish (RpcAnswer (CreateProducerReply (Inr resp)))) \<in> set (pool_threads (proc_pool P))" for c resp
    by (rule keep(1)) (use a [OF that] in \<open>simp add: answered_def\<close>)
  moreover have "map_of (jobTypes w2) (job_type_key (create_job_type_response_JobType resp)) = Some (create_job_type_response_JobType resp)"
    if "(c, Finish (RpcAnswer (CreateJobTypeReply (Inr resp)))) \<in> set (pool_threads (proc_pool P))" for c resp
    by (rule keep(2)) (use a [OF that] in \<open>simp add: answered_def\<close>)
  ultimately show ?thesis using maps unfolding clean by blast
qed


section \<open>Witness\<close>

text \<open>A marshaller that knows the file the sample call writes, and reads it back.\<close>

definition sample_stored_producer :: producer where
  "sample_stored_producer = stamped_producer (new_producer sample_create_producer ''prod_00000000'') (ts_new sample_pb 0)"

definition sample_durable_lib :: gcs_lib where
  "sample_durable_lib = sample_total_lib\<lparr>
     marshal_producers := (\<lambda>f. if f = \<lparr>producers_file_Producers = [sample_stored_producer]\<rparr> then Inr [1]
       else Inl (Opaque ''cannot marshal'')),
     unmarshal_producers := (\<lambda>d. Inr \<lparr>producers_file_Producers = [sample_stored_producer]\<rparr>),
     marshal_job_types := (\<lambda>f. Inl (Opaque ''cannot marshal'')),
     unmarshal_job_types := (\<lambda>d. Inl (Opaque ''cannot unmarshal''))\<rparr>"

definition sample_durable_ext :: externals where
  "sample_durable_ext = sample_externals\<lparr>ext_lib := sample_durable_lib\<rparr>"

lemma sample_durable_fields [simp]:
  "ext_lib sample_durable_ext = sample_durable_lib" "ext_gcs_error sample_durable_ext = None"
  "ext_statsd_error sample_durable_ext = None" "ext_pubsub_error sample_durable_ext = None" "ext_tasks_error sample_durable_ext = None"
  "GCSBucket sample_gcs_config = ''b''" "GCSPrefix sample_gcs_config = []" "DatadogStatsdAddr sample_gcs_config = []"
  "PubSubProject sample_gcs_config \<noteq> []" "gcs_faults sample_tasks_world = (\<lambda>_. None)"
  by (simp_all add: sample_durable_ext_def sample_gcs_config_def sample_config_def sample_tasks_world_def)

lemma sample_durable_init:
  fixes w :: tasks_world
  assumes "run_state (NewGCSStore sample_durable_lib sample_gc None) w = (None, w')"
  obtains svc where "run_state (main_init sample_durable_ext sample_gcs_config) w = (Inr svc, w')"
proof -
  have "\<nexists>e. fst (run_state (main_init sample_durable_ext sample_gcs_config) w) = Inl e"
    unfolding main_init_fails init_statsd_fails init_store_fails init_backend_fails init_scheduler_fails by (simp add: assms)
  moreover have "snd (run_state (main_init sample_durable_ext sample_gcs_config) w) = w'"
    by (simp add: main_init_def init_statsd_def init_store_def assms)
  ultimately show ?thesis
    by (cases "run_state (main_init sample_durable_ext sample_gcs_config) w"; cases "fst (run_state (main_init sample_durable_ext sample_gcs_config) w)")
      (auto intro: that)
qed

definition sample_saved_world :: tasks_world where
  "sample_saved_world = sample_gcs_start\<lparr>entropy_pos := 4, ticks := 1, choice_pos := 1, gcs_calls := 4,
     producers := [(''prod_00000000'', sample_stored_producer)], objects := [((''b'', ''producers.json''), [1])]\<rparr>"

lemma sample_durable_load:
  "run_state (NewGCSStore sample_durable_lib sample_gc None) sample_tasks_world = (None, sample_gcs_start)"
  by (simp add: NewGCSStore_def load_def loadProducers_def loadJobTypes_def new_reader_def index_producers_def index_job_types_def
      sample_gcs_start_def sample_tasks_world_def sample_durable_lib_def sample_total_lib_def sample_lib_def)

lemma sample_durable_reload:
  "\<exists>w'. run_state (NewGCSStore sample_durable_lib sample_gc None) sample_saved_world = (None, w')"
  by (simp add: run_NewGCSStore load_def loadProducers_def loadJobTypes_def new_reader_def read_all_def sample_saved_world_def
      sample_gcs_start_def sample_tasks_world_def sample_durable_lib_def sample_total_lib_def sample_lib_def
      object_handle_def objectPath_def sample_gc_def producersFile_def jobTypesFile_def)

lemma sample_durable_create:
  assumes "svc_admin svc = NewAdminServer (gcs_store sample_durable_lib sample_gc)"
  shows "run_state (serve svc (RpcCreateProducer sample_create_producer)) sample_gcs_start
    = (CreateProducerReply (Inr \<lparr>create_producer_response_Producer = sample_stored_producer\<rparr>), sample_saved_world)"
proof -
  have i: "next_producer_id sample_gcs_start = ''prod_00000000''"
    using sample_next_id by (simp add: next_producer_id_def sample_gcs_start_def)
  show ?thesis
    by (simp add: run_reply assms AdminServer_CreateProducer_def NewAdminServer_def sample_create_producer_def
        run_generateProducerID i)
      (simp add: gcs_store_def GCSStore_CreateProducer_def saveProducers_def timestamp_now_def Let_def
        writer_write_def writer_close_def sample_gcs_start_def sample_tasks_world_def sample_durable_lib_def sample_total_lib_def
        sample_lib_def sample_stored_producer_def stamped_producer_def new_producer_def sample_create_producer_def permute.simps
        sample_saved_world_def object_handle_def objectPath_def sample_gc_def producersFile_def)
qed

lemma sample_durable_facts:
  "fresh_start sample_durable_ext sample_gcs_start" "codec_ok sample_durable_lib" "atomic_faults sample_tasks_world"
  "truthful_faults sample_tasks_world" "clean_faults sample_tasks_world"
  by (auto simp: fresh_start_def sample_gcs_start_def sample_tasks_world_def store_inv_def foreign_errors_def registry_ok_def
      codec_ok_def clean_faults_def atomic_faults_def truthful_faults_def sample_durable_lib_def foreign_error_def split: if_splits)

lemma restart_recovers_registrations_witness:
  "\<exists>P svc w2. (process_step sample_net sample_durable_ext sample_gcs_config)\<^sup>*\<^sup>*
       (main_start sample_net sample_durable_ext sample_gcs_config sample_tasks_world) P
     \<and> run_state (main_init sample_durable_ext sample_gcs_config) (pool_world (proc_pool P)) = (Inr svc, w2 :: tasks_world)
     \<and> map_of (producers w2) ''prod_00000000'' = Some sample_stored_producer"
proof -
  obtain svc where init: "run_state (main_init sample_durable_ext sample_gcs_config) sample_tasks_world = (Inr svc, sample_gcs_start)"
    by (rule sample_durable_init [OF sample_durable_load])
  have "svc_admin svc = NewAdminServer (svc_store svc)"
    using init by (auto simp: main_init_def wire_def split: sum.splits prod.splits)
  then have "svc_admin svc = NewAdminServer (gcs_store sample_durable_lib sample_gc)" using main_init_store [OF init] by simp
  from rpc_pool [OF init _ sample_durable_create [OF this]]
  have pool: "(pool_step (main_threads sample_durable_ext sample_gcs_config svc))\<^sup>*\<^sup>* (idle sample_gcs_start)
    (one_call (RpcCreateProducer sample_create_producer) sample_gcs_start
      (CreateProducerReply (Inr \<lparr>create_producer_response_Producer = sample_stored_producer\<rparr>)) sample_saved_world)" by simp
  let ?S = "main_start sample_net sample_durable_ext sample_gcs_config sample_tasks_world"
  let ?P = "?S\<lparr>proc_pool := one_call (RpcCreateProducer sample_create_producer) sample_gcs_start
      (CreateProducerReply (Inr \<lparr>create_producer_response_Producer = sample_stored_producer\<rparr>)) sample_saved_world\<rparr>"
  have reach: "(process_step sample_net sample_durable_ext sample_gcs_config)\<^sup>*\<^sup>* ?S ?P"
    by (rule serving_pool [where svc = svc]) (simp_all add: main_start_def init sample_net_def pool)
  obtain w2 where "run_state (NewGCSStore sample_durable_lib sample_gc None) sample_saved_world = (None, w2)"
    using sample_durable_reload by blast
  from sample_durable_init [OF this] obtain svc'
    where again: "run_state (main_init sample_durable_ext sample_gcs_config) (pool_world (proc_pool ?P)) = (Inr svc', w2)" by auto
  from restart_recovers_registrations [OF init sample_durable_facts(1) _ _ _ _ reach again] sample_durable_facts
  have "map_of (producers w2) = map_of (producers sample_saved_world)" by simp
  then have "map_of (producers w2) ''prod_00000000'' = Some sample_stored_producer" by (simp add: sample_saved_world_def)
  with reach again show ?thesis by blast
qed

end
