(* ===== verification/Spec2Isabelle.thy ===== *)
theory Spec2Isabelle
  imports JobId Loops GcsStore PubSub GoBase64 CloudTasks Server AdminServer Callback Config JackMain Service Delivery Routing Accounts Startup Recovery
begin

text \<open>
  Jack, a service that takes background jobs over gRPC and hands them to Google Cloud
  Pub/Sub at once or, when they are due later, to Cloud Tasks, which calls the service
  back at the job's run time. Producers and job types are registered by an admin
  service and kept in memory or in a Cloud Storage bucket; they decide the queue and the
  number of retries of a job.

  \<^bold>\<open>How the code is modelled.\<close> A function that reads or changes anything outside its
  arguments is a state transformer (\<open>State_Monad\<close>) over one record, the world, which
  the components extend field by field: \<open>env\<close> of GoBase (the readings of the clock, the
  random bytes, the order in which goroutines and map iterations run, the metrics sent),
  then the maps of the stores, the objects of Cloud Storage, named by bucket and path, and the faults
  of its client, the messages of Pub/Sub, and the tasks of Cloud Tasks. Oracles are functions of a
  call number, so every failure and every schedule is a world, and no property restricts
  them unless it says so. Errors are values (\<open>go_error\<close>, with wrapping as \<open>fmt.Errorf\<close>
  and \<open>errors.Is\<close> have it), fallible results are sums, nil slices are \<open>None\<close>, Go maps
  are association lists without duplicate keys, \<open>int32\<close>, \<open>int64\<close> and bytes are words where
  their width matters, times are nanoseconds since 1970 as integers with \<open>time.Sub\<close> saturating.

  \<^bold>\<open>Theories and sources.\<close>
  \<^item> Prelude, GoBase: shared lemmas, the monad's run rules, strings, numbers,
    errors, the clock, oracles. GoTime: RFC 3339 printing and parsing with the proleptic
    calendar. GoJson, GoUnmarshal, GoBase64: encoding/json (scanner, printer, struct decoding with
    its case-insensitive keys) and base64. Hash: SHA-256 and CRC-32.
  \<^item> JobId: internal/jobid/jobid.go. Loops: its base62 loop over mutable variables.
  \<^item> Messages: the message structs of proto/jackpb.
  \<^item> Storage, MemoryStore, GcsStore: internal/storage (\<open>storage.go\<close>, \<open>memory.go\<close>, \<open>gcs.go\<close>), the
    interface as a record of operations and its contract as a locale.
  \<^item> Queue, LegacyAdapter, PubSub: internal/queue (\<open>queue.go\<close>, \<open>adapter.go\<close>, \<open>noop.go\<close>,
    \<open>adapter_legacy.go\<close>, \<open>pubsub.go\<close>).
  \<^item> Scheduler, CloudTasks, TaskSize: internal/scheduler (\<open>scheduler.go\<close>, \<open>noop.go\<close>, \<open>cloudtasks.go\<close>).
  \<^item> Server, AdminServer, Callback: internal/api (\<open>server.go\<close>, \<open>admin_server.go\<close>, \<open>callback.go\<close>).
  \<^item> Config: internal/cenv and internal/config. JackMain: cmd/jack/main.go, the wiring,
    the dispatch of a request and the seven remote procedures.
  \<^item> Service: the running system as a step relation in which a call is one step. Delivery, Routing,
    Accounts, Startup: what the whole promises, from a request to a message.
  \<^item> Threads: computations as sequences of atomic steps, pools of threads, safety under a rely,
    termination. Handlers: the handlers of Server, AdminServer and Callback as threads, one step for each access
    to something shared. ThreadContracts, Concurrency, Interleavings: what holds of them in every interleaving.
  \<^item> Process, Recovery: cmd/jack/main.go from its first line to its exit, around the pool of
    handlers, and what a process started on the bucket of an earlier one finds.

  \<^bold>\<open>Interfaces.\<close> Every Go interface is a record of operations with a locale for what its
  clients rely on, interpreted on each implementation: the store's contract on both stores, \<open>adapter_contract\<close>,
  \<open>backend_contract\<close>, \<open>bulk_contract\<close> and \<open>scheduler_contract\<close> on the adapters, backends and schedulers,
  \<open>admin_service\<close> and \<open>deployed_store\<close> on both stores, \<open>quiet_store\<close> for reads that
  change no registry, and \<open>bulk_server\<close>, \<open>invariant_server\<close> and \<open>deployment\<close> for the service over
  any of them, instantiated for the wirings that \<open>main\<close> can produce. For interleaved handlers, \<open>rely\<close> is how the world
  may change under a thread, \<open>backend_threads_contract\<close> and \<open>scheduler_threads_contract\<close> are what the threads
  of a backend and a scheduler promise, \<open>threaded_service\<close> says that threads belong to the operations of the records above,
  and \<open>concurrent_deployment\<close> puts them together.

  \<^bold>\<open>What is shown.\<close>
  \<^item> Identifiers: the in-place divisions compute positional notation and stop within two
    divisions for each byte; an id determines its timestamp, hashes and random bytes.
  \<^item> Stores: the GCS store refines the in-memory store when its client works, for the calls whose texts and times
    protojson can write; with a client that fails, failed creations roll back, registrations persist, and a restart
    recovers everything that was acknowledged, and nothing else when failed uploads wrote nothing.
  \<^item> Encodings: task bodies and job ids are read back exactly; when the legacy adapter succeeds; how long
    a task body is, from below and from above.
  \<^item> Pub/Sub and Cloud Tasks: a reported success stands for a confirmed message or a created task, in any
    order of goroutines, each in its own slot.
  \<^item> The service: which requests are refused, where an accepted one goes and with what queue, that it is
    accepted when the clients work (for immediate and for future jobs), that bulk answers are aligned
    with their requests and as many as what was delivered, and that a scheduled job comes back from its task
    unchanged. The tables of queues that routing is measured against are written out in Routing.
  \<^item> The running system: well-formed registries and well-typed messages and tasks in
    every reachable world, for every configuration; which failure ends a start; what the fallbacks drop.
  \<^item> Concurrency: each handler satisfies a rely-guarantee judgement (\<open>safe\<close>) in which others may add
    messages, tasks and registrations between any two of its steps. So in every interleaving the invariant holds at every
    moment, answers stand for what they promise, and names are registered once. A handler left alone is the
    sequential one (\<open>implements\<close>), and every sequential history is an interleaving.
  \<^item> The process: an exit from \<open>main\<close> has answered every RPC and closed scheduler, backend, store and statsd client,
    in this order; a process told to shut down ends; which exits close nothing; and, wherever a process was
    when it ended, a new one on the same bucket and prefix has its registries.

  \<^bold>\<open>Termination and bounds.\<close> There is no fuel: every loop is structural or has a measure (bytes left
  to read, the value being divided, the distance of two indices). A pool in which no call arrives, and a
  process to which nothing comes from outside, take no infinite run of steps. The scanner's nesting limit of 10000
  is the library's own. The size bound of a task body counts six bytes for each byte of a
  text, which is the longest escape, and 1000 for keys, numbers, and times.

  \<^bold>\<open>Parameters.\<close> protojson and the error the storage client gives for a missing object (\<open>gcs_lib\<close>), the conversion
  of protobuf timestamps (\<open>timestamppb\<close>), the outcome of creating and closing each client (\<open>externals\<close>), the floating-point
  scaling of a fraction of a duration (\<open>fraction\<close>), and of the servers of net/http and gRPC (\<open>net_lib\<close>) whether the port can be
  opened and with which calls under way \<open>Shutdown\<close> and \<open>GracefulStop\<close> return. Properties that need a law of theirs name it as a hypothesis,
  and a witness instantiates it. Of uploads only what Cloud Storage documents is used: an object is replaced as a whole or not
  at all, even when the client reports an error (\<open>atomic_faults\<close>). Of protojson: it writes every message whose texts are UTF-8 and
  whose times lie in the years 1 to 9999 (\<open>marshals\<close>), and reads back what it wrote (\<open>codec_ok\<close>).

  \<^bold>\<open>Not modelled.\<close> Log lines; the reflection service; the routing table of the HTTP mux beyond the one
  route; the generated reflection and getter code of the messages and the gRPC stubs, which only carry
  calls; the shell entry point. That \<open>GracefulStop\<close> waits for pending RPCs is its documentation's word, taken as a
  hypothesis (\<open>waits_for_rpcs\<close>) where a property needs it; the service hands its RPCs to gRPC with \<open>ServeHTTP\<close>, and whether they
  count as pending there is for that package to keep. A store operation is one step, as its mutex makes it, the upload
  included, so a process does not end within one. The goroutines of one bulk call run in any order, one after the other, with the
  steps of other handlers between theirs. Messages are values,
  so the copies that \<open>proto.Clone\<close> makes are not distinguished from their originals. Contexts are
  not cancelled; a call that a cancelled context would end is a fault of the client it is passed to.
\<close>

end
